(* ===== verification/Prelude.thy ===== *)
theory Prelude
  imports Main "HOL-Library.Word" "HOL-Library.Sublist"
begin

text \<open>
  Shared vocabulary of the development: the results of fallible Go code, 64-bit integers, and
  the functions of the Go packages \<^verbatim>\<open>strings\<close> and \<^verbatim>\<open>strconv\<close> that the program calls, with the
  lemmas the components share.

  A Go string is a sequence of bytes and is modelled as a \<^typ>\<open>string\<close> (a list of 8-bit
  characters).  The functions of \<^verbatim>\<open>strings\<close> that look at Unicode (\<^verbatim>\<open>TrimSpace\<close>, \<^verbatim>\<open>ToUpper\<close>,
  \<^verbatim>\<open>ToLower\<close>, \<^verbatim>\<open>EqualFold\<close> and a \<^verbatim>\<open>range\<close> over a string) are modelled on ASCII text, which
  is what URL queries, HTTP methods, header values and SQL keywords are; other bytes are left
  as they are.
\<close>

section \<open>Results\<close>

text \<open>
  A Go function that returns \<^verbatim>\<open>(value, error)\<close> returns \<open>Ok v\<close> or \<open>Error msg\<close>; a run-time panic
  (a nil dereference) is the third outcome.
\<close>

datatype 'a outcome = Ok 'a | Error string | Panic

fun obind :: "'a outcome \<Rightarrow> ('a \<Rightarrow> 'b outcome) \<Rightarrow> 'b outcome" where
  "obind (Ok x) f = f x"
| "obind (Error e) f = Error e"
| "obind Panic f = Panic"

lemma obind_Ok_iff: "obind m f = Ok y \<longleftrightarrow> (\<exists>x. m = Ok x \<and> f x = Ok y)"
  by (cases m) auto

lemma obind_cong [fundef_cong]:
  "m = m' \<Longrightarrow> (\<And>x. m' = Ok x \<Longrightarrow> f x = f' x) \<Longrightarrow> obind m f = obind m' f'"
  by (cases m') auto

section \<open>64-bit integers\<close>

text \<open>Go's \<^verbatim>\<open>int\<close> is 64 bits wide here; arithmetic on it wraps around.\<close>

definition int64 :: "int \<Rightarrow> int" where
  "int64 x = sint (word_of_int x :: 64 word)"

definition in_int64 :: "int \<Rightarrow> bool" where
  "in_int64 x \<longleftrightarrow> - (2 ^ 63) \<le> x \<and> x < 2 ^ 63"

lemma int64_id [simp]: "in_int64 x \<Longrightarrow> int64 x = x"
  by (simp add: int64_def in_int64_def sint_sbintrunc' signed_take_bit_int_eq_self)

lemma in_int64_int64 [simp]: "in_int64 (int64 x)"
  using sint_range_size [of "word_of_int x :: 64 word"]
  by (simp add: int64_def in_int64_def word_size)

section \<open>The package strings\<close>

definition HasPrefix :: "string \<Rightarrow> string \<Rightarrow> bool" where
  "HasPrefix s p = prefix p s"

definition HasSuffix :: "string \<Rightarrow> string \<Rightarrow> bool" where
  "HasSuffix s p = prefix (rev p) (rev s)"

definition TrimPrefix :: "string \<Rightarrow> string \<Rightarrow> string" where
  "TrimPrefix s p = (if HasPrefix s p then drop (length p) s else s)"

definition TrimSuffix :: "string \<Rightarrow> string \<Rightarrow> string" where
  "TrimSuffix s p = (if HasSuffix s p then take (length s - length p) s else s)"

text \<open>The index of the first occurrence of a byte, \<open>-1\<close> when there is none.\<close>

definition IndexByte :: "string \<Rightarrow> char \<Rightarrow> int" where
  "IndexByte s c = (if c \<in> set s then int (length (takeWhile (\<lambda>x. x \<noteq> c) s)) else -1)"

text \<open>The slices \<^verbatim>\<open>s[:i]\<close> and \<^verbatim>\<open>s[i:]\<close>, used by the code with \<open>0 \<le> i \<le> length s\<close> only.\<close>

definition slice_to :: "string \<Rightarrow> int \<Rightarrow> string" where
  "slice_to s i = take (nat i) s"

definition slice_from :: "string \<Rightarrow> int \<Rightarrow> string" where
  "slice_from s i = drop (nat i) s"

fun Contains :: "string \<Rightarrow> string \<Rightarrow> bool" where
  "Contains [] sub = (sub = [])"
| "Contains (c # cs) sub = (prefix sub (c # cs) \<or> Contains cs sub)"

fun Join :: "string list \<Rightarrow> string \<Rightarrow> string" where
  "Join [] sep = []"
| "Join [x] sep = x"
| "Join (x # y # ys) sep = x @ sep @ Join (y # ys) sep"

text \<open>\<^verbatim>\<open>strings.Split\<close> and \<^verbatim>\<open>strings.SplitN\<close> for a separator of one byte.\<close>

fun Split :: "string \<Rightarrow> char \<Rightarrow> string list" where
  "Split [] c = [[]]"
| "Split (x # xs) c =
     (if x = c then [] # Split xs c
      else (case Split xs c of [] \<Rightarrow> [[x]] | p # ps \<Rightarrow> (x # p) # ps))"

fun SplitN :: "string \<Rightarrow> char \<Rightarrow> nat \<Rightarrow> string list" where
  "SplitN s c 0 = []"
| "SplitN s c (Suc 0) = [s]"
| "SplitN s c (Suc (Suc n)) =
     (if c \<in> set s
      then takeWhile (\<lambda>x. x \<noteq> c) s # SplitN (tl (dropWhile (\<lambda>x. x \<noteq> c) s)) c (Suc n)
      else [s])"

definition trim_with :: "(char \<Rightarrow> bool) \<Rightarrow> string \<Rightarrow> string" where
  "trim_with P s = rev (dropWhile P (rev (dropWhile P s)))"

definition is_space :: "char \<Rightarrow> bool" where
  "is_space c = (c \<in> {CHR '' '', CHR 0x09, CHR 0x0A, CHR 0x0B, CHR 0x0C, CHR 0x0D})"

definition TrimSpace :: "string \<Rightarrow> string" where
  "TrimSpace = trim_with is_space"

definition Trim :: "string \<Rightarrow> string \<Rightarrow> string" where
  "Trim s cutset = trim_with (\<lambda>c. c \<in> set cutset) s"

definition upper_char :: "char \<Rightarrow> char" where
  "upper_char c =
     (let n = (of_char c :: nat) in if 97 \<le> n \<and> n \<le> 122 then char_of (n - 32) else c)"

definition lower_char :: "char \<Rightarrow> char" where
  "lower_char c =
     (let n = (of_char c :: nat) in if 65 \<le> n \<and> n \<le> 90 then char_of (n + 32) else c)"

definition ToUpper :: "string \<Rightarrow> string" where
  "ToUpper = map upper_char"

definition ToLower :: "string \<Rightarrow> string" where
  "ToLower = map lower_char"

definition EqualFold :: "string \<Rightarrow> string \<Rightarrow> bool" where
  "EqualFold s t \<longleftrightarrow> ToLower s = ToLower t"

function ReplaceAll :: "string \<Rightarrow> string \<Rightarrow> string \<Rightarrow> string" where
  "ReplaceAll s old new =
     (case s of
        [] \<Rightarrow> []
      | c # cs \<Rightarrow>
          (if old \<noteq> [] \<and> prefix old s then new @ ReplaceAll (drop (length old) s) old new
           else c # ReplaceAll cs old new))"
  by pat_completeness auto
termination
  by (relation "measure (\<lambda>(s, old, new). length s)") auto

declare ReplaceAll.simps [simp del]

section \<open>Lemmas on Join and Split\<close>

lemma Join_Cons: "Join (x # xs) sep = (if xs = [] then x else x @ sep @ Join xs sep)"
  by (cases xs) auto

lemma Join_append:
  "Join (xs @ ys) sep =
     (if xs = [] then Join ys sep else if ys = [] then Join xs sep
      else Join xs sep @ sep @ Join ys sep)"
  by (induction xs) (auto simp: Join_Cons)

lemma set_Join: "set (Join xs sep) \<subseteq> \<Union> (set ` set xs) \<union> set sep"
  by (induction xs) (auto simp: Join_Cons)

lemma Join_eq_Nil: "Join xs sep = [] \<longleftrightarrow> xs = [] \<or> xs = [[]] \<or> (sep = [] \<and> set xs \<subseteq> {[]})"
  by (induction xs) (auto simp: Join_Cons)

lemma Split_not_Nil [simp]: "Split s c \<noteq> []"
  by (induction s) (auto split: list.splits)

lemma Join_Split [simp]: "Join (Split s c) [c] = s"
proof (induction s)
  case Nil
  show ?case by simp
next
  case (Cons x s)
  obtain p ps where "Split s c = p # ps"
    using Split_not_Nil [of s c] by (cases "Split s c") auto
  with Cons.IH show ?case by (auto simp: Join_Cons split: if_splits)
qed

lemma Split_no_sep: "p \<in> set (Split s c) \<Longrightarrow> c \<notin> set p"
proof (induction s arbitrary: p)
  case Nil
  then show ?case by simp
next
  case (Cons x s)
  obtain q qs where "Split s c = q # qs"
    using Split_not_Nil [of s c] by (cases "Split s c") auto
  with Cons show ?case by (fastforce split: if_splits)
qed

lemma Split_no_occurrence: "c \<notin> set s \<Longrightarrow> Split s c = [s]"
  by (induction s) auto

lemma Split_append_sep: "c \<notin> set p \<Longrightarrow> Split (p @ c # s) c = p # Split s c"
  by (induction p) auto

lemma Split_Join:
  "ps \<noteq> [] \<Longrightarrow> \<forall>p \<in> set ps. c \<notin> set p \<Longrightarrow> Split (Join ps [c]) c = ps"
  by (induction ps) (auto simp: Join_Cons Split_no_occurrence Split_append_sep)

section \<open>Lemmas on indices and slices\<close>

lemma IndexByte_neg: "IndexByte s c < 0 \<longleftrightarrow> c \<notin> set s"
  by (simp add: IndexByte_def)

lemma IndexByte_pos: "0 < IndexByte s c \<longleftrightarrow> (\<exists>d ds. s = d # ds \<and> d \<noteq> c \<and> c \<in> set ds)"
  by (cases s) (auto simp: IndexByte_def)

lemma slice_to_IndexByte: "c \<in> set s \<Longrightarrow> slice_to s (IndexByte s c) = takeWhile (\<lambda>x. x \<noteq> c) s"
  by (simp add: slice_to_def IndexByte_def takeWhile_eq_take [symmetric])

lemma slice_from_IndexByte:
  "c \<in> set s \<Longrightarrow> slice_from s (IndexByte s c + 1) = tl (dropWhile (\<lambda>x. x \<noteq> c) s)"
  by (simp add: slice_from_def IndexByte_def nat_add_distrib dropWhile_eq_drop drop_Suc tl_drop
      del: drop_drop)

lemma IndexByte_append: "c \<notin> set p \<Longrightarrow> IndexByte (p @ c # s) c = int (length p)"
  by (simp add: IndexByte_def takeWhile_append)

lemma slices_append:
  assumes "c \<notin> set p"
  shows "slice_to (p @ c # s) (IndexByte (p @ c # s) c) = p"
    and "slice_from (p @ c # s) (IndexByte (p @ c # s) c + 1) = s"
  using assms by (simp_all add: IndexByte_append slice_to_def slice_from_def nat_add_distrib)

lemma length_slice_from: "length (slice_from s i) \<le> length s"
  by (simp add: slice_from_def)

section \<open>Lemmas on trimming\<close>

lemma length_trim_with: "length (trim_with P s) \<le> length s"
  using length_dropWhile_le [of P "rev (dropWhile P s)"] length_dropWhile_le [of P s]
  by (simp add: trim_with_def)

lemma set_trim_with: "set (trim_with P s) \<subseteq> set s"
  by (auto simp: trim_with_def dest!: set_dropWhileD)

lemmas length_TrimSpace = length_trim_with [of is_space, folded TrimSpace_def]
lemmas set_TrimSpace = set_trim_with [of is_space, folded TrimSpace_def]

lemma length_Trim: "length (Trim s cutset) \<le> length s"
  by (simp add: Trim_def length_trim_with)

lemma set_Trim: "set (Trim s cutset) \<subseteq> set s"
  by (simp add: Trim_def set_trim_with)

lemma trim_with_id: "s = [] \<or> (\<not> P (hd s) \<and> \<not> P (last s)) \<Longrightarrow> trim_with P s = s"
proof -
  assume h: "s = [] \<or> (\<not> P (hd s) \<and> \<not> P (last s))"
  then have "dropWhile P s = s" by (cases s) auto
  moreover from h have "dropWhile P (rev s) = rev s"
    by (cases s rule: rev_cases) auto
  ultimately show ?thesis by (simp add: trim_with_def)
qed

lemma trim_with_none: "\<forall>c \<in> set s. \<not> P c \<Longrightarrow> trim_with P s = s"
  by (cases "s = []") (auto intro!: trim_with_id)

lemma TrimSpace_none: "\<forall>c \<in> set s. \<not> is_space c \<Longrightarrow> TrimSpace s = s"
  by (simp add: TrimSpace_def trim_with_none)

lemma trim_with_wrap: "P a \<Longrightarrow> P b \<Longrightarrow> trim_with P (a # s @ [b]) = trim_with P s"
proof -
  assume ab: "P a" "P b"
  show ?thesis
  proof (cases "dropWhile P s = []")
    case True
    then have "dropWhile P (s @ [b]) = []" using ab by auto
    with ab True show ?thesis by (auto simp: trim_with_def dest: set_dropWhileD)
  next
    case False
    then obtain x where "x \<in> set s" "\<not> P x" by (auto simp: dropWhile_eq_Nil_conv)
    then have "dropWhile P (s @ [b]) = dropWhile P s @ [b]"
      by (rule dropWhile_append1)
    with ab show ?thesis by (simp add: trim_with_def)
  qed
qed

lemma HasPrefix_drop: "HasPrefix s p \<Longrightarrow> s = p @ drop (length p) s"
  by (auto simp: HasPrefix_def prefix_def)

lemma HasPrefix_append [simp]: "HasPrefix (p @ s) p"
  by (simp add: HasPrefix_def)

lemma HasPrefix_iff: "HasPrefix s p \<longleftrightarrow> (\<exists>t. s = p @ t)"
  by (auto simp: HasPrefix_def prefix_def)

lemma TrimPrefix_append [simp]: "TrimPrefix (p @ s) p = s"
  by (simp add: TrimPrefix_def)

lemma HasSuffix_snoc [simp]: "HasSuffix (s @ [c]) [c]"
  by (simp add: HasSuffix_def)

lemma HasSuffix_iff: "HasSuffix s p \<longleftrightarrow> (\<exists>t. s = t @ p)"
proof
  assume "HasSuffix s p"
  then obtain t where "rev s = rev p @ t" by (auto simp: HasSuffix_def prefix_def)
  then have "s = rev t @ p" by (metis rev_append rev_rev_ident)
  then show "\<exists>t. s = t @ p" ..
qed (auto simp: HasSuffix_def)

lemma Contains_iff: "Contains s sub \<longleftrightarrow> (\<exists>u v. s = u @ sub @ v)"
proof
  show "Contains s sub \<Longrightarrow> \<exists>u v. s = u @ sub @ v"
  proof (induction s)
    case Nil
    then show ?case by auto
  next
    case (Cons c s)
    then consider "prefix sub (c # s)" | "Contains s sub" by auto
    then show ?case
    proof cases
      case 1
      then obtain v where "c # s = [] @ sub @ v" by (auto simp: prefix_def)
      then show ?thesis by blast
    next
      case 2
      with Cons.IH obtain u v where "s = u @ sub @ v" by blast
      then have "c # s = (c # u) @ sub @ v" by simp
      then show ?thesis by blast
    qed
  qed
next
  have nil: "Contains w []" for w by (cases w) auto
  have "Contains (u @ sub @ v) sub" for u v
  proof (induction u)
    case Nil
    show ?case using nil by (cases sub) auto
  qed auto
  then show "\<exists>u v. s = u @ sub @ v \<Longrightarrow> Contains s sub" by blast
qed

section \<open>Letter case\<close>

lemma lower_upper_char [simp]: "lower_char (upper_char c) = lower_char c"
proof (cases "97 \<le> (of_char c :: nat) \<and> (of_char c :: nat) \<le> 122")
  case True
  then have u: "(of_char (upper_char c) :: nat) = of_char c - 32"
    by (auto simp: upper_char_def Let_def intro!: mod_less)
  have "lower_char (upper_char c) = char_of ((of_char c - 32) + 32 :: nat)"
    unfolding lower_char_def [of "upper_char c"] u Let_def using True by auto
  also have "\<dots> = c" using True by simp
  also have "\<dots> = lower_char c" using True by (simp add: lower_char_def Let_def)
  finally show ?thesis .
next
  case False
  then show ?thesis by (auto simp: upper_char_def Let_def)
qed

lemma ToLower_ToUpper [simp]: "ToLower (ToUpper s) = ToLower s"
  by (simp add: ToLower_def ToUpper_def)

lemma EqualFold_refl [simp]: "EqualFold s s"
  by (simp add: EqualFold_def)

lemma EqualFold_sym: "EqualFold s t \<longleftrightarrow> EqualFold t s"
  by (auto simp: EqualFold_def)

lemma EqualFold_ToUpper [simp]: "EqualFold (ToUpper s) t \<longleftrightarrow> EqualFold s t"
  by (simp add: EqualFold_def)

lemma EqualFold_cong: "EqualFold m m' \<Longrightarrow> EqualFold s m \<longleftrightarrow> EqualFold s m'"
  by (simp add: EqualFold_def)

section \<open>Lists\<close>

text \<open>Go's \<^verbatim>\<open>strings.Replace(s, old, new, 1)\<close> on a text that starts with \<open>old\<close> is a change of prefix.\<close>

fun replace_first :: "string \<Rightarrow> string \<Rightarrow> string \<Rightarrow> string" where
  "replace_first [] old new = (if old = [] then new else [])"
| "replace_first (c # cs) old new =
     (if prefix old (c # cs) then new @ drop (length old) (c # cs)
      else c # replace_first cs old new)"

lemma replace_first_prefix [simp]: "replace_first (p @ s) p new = new @ s"
  by (cases p; cases s) (auto simp: prefix_def)

section \<open>Cutting at a character\<close>

lemma takeWhile_until: "x \<notin> set s \<Longrightarrow> takeWhile (\<lambda>c. c \<noteq> x) (s @ x # t) = s"
  by (induction s) auto

lemma dropWhile_until: "x \<notin> set s \<Longrightarrow> dropWhile (\<lambda>c. c \<noteq> x) (s @ x # t) = x # t"
  by (induction s) auto

lemma SplitN_2_iff: "SplitN s c 2 = [a, b] \<longleftrightarrow> c \<notin> set a \<and> s = a @ c # b"
proof
  assume h: "SplitN s c 2 = [a, b]"
  then have "c \<in> set s" and ab: "a = takeWhile (\<lambda>x. x \<noteq> c) s" "b = tl (dropWhile (\<lambda>x. x \<noteq> c) s)"
    by (auto simp: numeral_2_eq_2 split: if_splits)
  then obtain u v where "s = u @ c # v" "c \<notin> set u" by (metis split_list_first)
  then show "c \<notin> set a \<and> s = a @ c # b" using ab by (simp add: takeWhile_until dropWhile_until)
next
  assume "c \<notin> set a \<and> s = a @ c # b"
  then show "SplitN s c 2 = [a, b]" by (simp add: numeral_2_eq_2 takeWhile_until dropWhile_until)
qed

lemma find_append: "find P (xs @ ys) = (case find P xs of None \<Rightarrow> find P ys | Some x \<Rightarrow> Some x)"
  by (induction xs) auto

end
