(* ===== verification/Strconv.thy ===== *)
theory Strconv
  imports Prelude
begin

text \<open>
  Decimal integers as the package \<^verbatim>\<open>strconv\<close> reads and prints them (\<^verbatim>\<open>Itoa\<close>, the verb \<^verbatim>\<open>%d\<close>,
  \<^verbatim>\<open>Atoi\<close>), and the numbered placeholders \<^verbatim>\<open>$n\<close> of a SQL text: \<open>Placeholder n\<close> prints one,
  \<open>dollars\<close> lists the numbers of all placeholders of a text from left to right.
\<close>

section \<open>Digits\<close>

definition is_digit :: "char \<Rightarrow> bool" where
  "is_digit c = (48 \<le> (of_char c :: nat) \<and> (of_char c :: nat) \<le> 57)"

definition digit_val :: "char \<Rightarrow> nat" where
  "digit_val c = of_char c - 48"

definition digit_char :: "nat \<Rightarrow> char" where
  "digit_char d = char_of (48 + d)"

fun nat_text :: "nat \<Rightarrow> string" where
  "nat_text n = (if n < 10 then [digit_char n] else nat_text (n div 10) @ [digit_char (n mod 10)])"

declare nat_text.simps [simp del]

definition text_nat :: "string \<Rightarrow> nat" where
  "text_nat s = foldl (\<lambda>a c. 10 * a + digit_val c) 0 s"

lemma of_char_digit_char: "d < 10 \<Longrightarrow> (of_char (digit_char d) :: nat) = 48 + d"
  by (simp add: digit_char_def)

lemma is_digit_digit_char [simp]: "d < 10 \<Longrightarrow> is_digit (digit_char d)"
  by (simp add: is_digit_def of_char_digit_char)

lemma digit_val_digit_char [simp]: "d < 10 \<Longrightarrow> digit_val (digit_char d) = d"
  by (simp add: digit_val_def of_char_digit_char)

lemma nat_text_not_Nil [simp]: "nat_text n \<noteq> []"
  by (subst nat_text.simps) simp

lemma nat_text_digits: "\<forall>c \<in> set (nat_text n). is_digit c"
proof (induction n rule: nat_text.induct)
  case (1 n)
  then show ?case by (subst nat_text.simps) auto
qed

lemma text_nat_nat_text [simp]: "text_nat (nat_text n) = n"
proof (induction n rule: nat_text.induct)
  case (1 n)
  then show ?case by (subst nat_text.simps) (auto simp: text_nat_def)
qed

lemma nat_text_inj: "nat_text m = nat_text n \<longleftrightarrow> m = n"
  by (metis text_nat_nat_text)

lemma not_digit [simp]:
  "\<not> is_digit CHR ''-''" "\<not> is_digit CHR ''+''" "\<not> is_digit CHR '' ''" "\<not> is_digit CHR '',''"
  "\<not> is_digit CHR '')''" "\<not> is_digit CHR ''$''" "\<not> is_digit CHR ''.''" "\<not> is_digit CHR '':''"
  by (simp_all add: is_digit_def)

section \<open>Itoa and Atoi\<close>

definition Itoa :: "int \<Rightarrow> string" where
  "Itoa i = (if i < 0 then CHR ''-'' # nat_text (nat (- i)) else nat_text (nat i))"

text \<open>
  \<^verbatim>\<open>Atoi\<close>: an optional sign, then at least one decimal digit and nothing else; a value outside
  the 64-bit range is an error.  \<open>None\<close> is the error.
\<close>

definition unsigned :: "string \<Rightarrow> nat option" where
  "unsigned s = (if s \<noteq> [] \<and> list_all is_digit s then Some (text_nat s) else None)"

definition in_range :: "int \<Rightarrow> int option" where
  "in_range i = (if in_int64 i then Some i else None)"

definition Atoi :: "string \<Rightarrow> int option" where
  "Atoi s =
     (case s of
        [] \<Rightarrow> None
      | c # cs \<Rightarrow>
          (if c = CHR ''-'' then Option.bind (unsigned cs) (\<lambda>n. in_range (- int n))
           else if c = CHR ''+'' then Option.bind (unsigned cs) (\<lambda>n. in_range (int n))
           else Option.bind (unsigned s) (\<lambda>n. in_range (int n))))"

lemma unsigned_nat_text [simp]: "unsigned (nat_text n) = Some n"
  using nat_text_digits by (simp add: unsigned_def list_all_iff)

lemma nat_text_hd: "\<exists>c cs. nat_text n = c # cs \<and> is_digit c"
  using nat_text_digits [of n] by (cases "nat_text n") auto

lemma Atoi_Itoa: "in_int64 i \<Longrightarrow> Atoi (Itoa i) = Some i"
proof (cases "i < 0")
  case True
  assume "in_int64 i"
  with True show ?thesis by (simp add: Itoa_def Atoi_def in_range_def)
next
  case False
  assume r: "in_int64 i"
  obtain c cs where c: "nat_text (nat i) = c # cs" "is_digit c"
    using nat_text_hd by blast
  then have "c \<noteq> CHR ''-''" "c \<noteq> CHR ''+''" by auto
  moreover have "unsigned (c # cs) = Some (nat i)"
    using unsigned_nat_text [of "nat i"] c by simp
  ultimately show ?thesis using False r c by (simp add: Itoa_def Atoi_def in_range_def)
qed

lemma Atoi_in_int64: "Atoi s = Some i \<Longrightarrow> in_int64 i"
  by (cases s) (auto simp: Atoi_def in_range_def Option.bind_eq_Some_conv split: if_splits)

lemma Atoi_nonneg: "Atoi s = Some i \<Longrightarrow> CHR ''-'' \<notin> set s \<Longrightarrow> 0 \<le> i"
  by (cases s) (auto simp: Atoi_def in_range_def Option.bind_eq_Some_conv split: if_splits)

section \<open>Numbered placeholders\<close>

definition dollar :: "nat \<Rightarrow> string" where
  "dollar n = CHR ''$'' # nat_text n"

fun dollars :: "string \<Rightarrow> nat list" where
  "dollars [] = []"
| "dollars (c # cs) =
     (if c = CHR ''$'' \<and> takeWhile is_digit cs \<noteq> [] then [text_nat (takeWhile is_digit cs)]
      else []) @ dollars cs"

text \<open>A text without a dollar sign: identifiers, keywords and operators are \<open>plain\<close>.\<close>

definition plain :: "string \<Rightarrow> bool" where
  "plain s \<longleftrightarrow> CHR ''$'' \<notin> set s"

text \<open>A text that does not continue a number to its left.\<close>

definition seamless :: "string \<Rightarrow> bool" where
  "seamless s \<longleftrightarrow> s = [] \<or> \<not> is_digit (hd s)"

lemma seamless_simps [simp]:
  "seamless []" "seamless (c # s) \<longleftrightarrow> \<not> is_digit c"
  by (simp_all add: seamless_def)

lemma seamless_append: "seamless (s @ t) \<longleftrightarrow> (if s = [] then seamless t else seamless s)"
  by (simp add: seamless_def)

lemma plain_simps [simp]:
  "plain []" "plain (c # s) \<longleftrightarrow> c \<noteq> CHR ''$'' \<and> plain s" "plain (s @ t) \<longleftrightarrow> plain s \<and> plain t"
  by (auto simp: plain_def)

lemma takeWhile_seamless: "seamless t \<Longrightarrow> takeWhile is_digit (s @ t) = takeWhile is_digit s"
  by (induction s) (auto simp: seamless_def takeWhile_eq_Nil_iff)

lemma dollars_append: "seamless t \<Longrightarrow> dollars (s @ t) = dollars s @ dollars t"
  by (induction s) (auto simp: takeWhile_seamless)

lemma dollars_plain [simp]: "plain s \<Longrightarrow> dollars s = []"
  by (induction s) auto

lemma dollars_plain_append: "plain s \<Longrightarrow> dollars (s @ t) = dollars t"
  by (induction s) auto

lemma dollars_append_plain: "plain t \<Longrightarrow> seamless t \<Longrightarrow> dollars (s @ t) = dollars s"
  by (simp add: dollars_append)

lemma plain_nat_text [simp]: "plain (nat_text n)"
  using nat_text_digits [of n] by (auto simp: plain_def)

lemma takeWhile_nat_text [simp]: "takeWhile is_digit (nat_text n) = nat_text n"
  using nat_text_digits by (simp add: takeWhile_eq_all_conv)

lemma dollars_dollar [simp]: "dollars (dollar n) = [n]"
  by (simp add: dollar_def)

lemma dollars_dollar_append: "seamless t \<Longrightarrow> dollars (dollar n @ t) = n # dollars t"
  by (simp add: dollars_append)

lemma plain_Itoa [simp]: "plain (Itoa i)"
  by (simp add: Itoa_def)

lemma dollars_Join:
  assumes "sep \<noteq> []" "plain sep" "seamless sep"
  shows "dollars (Join ps sep) = concat (map dollars ps)"
proof (induction ps)
  case Nil
  show ?case by simp
next
  case (Cons p ps)
  have "seamless (sep @ Join ps sep)" using assms by (simp add: seamless_append)
  with Cons assms show ?case by (simp add: Join_Cons dollars_append dollars_plain_append)
qed

lemma plain_Join: "plain sep \<Longrightarrow> \<forall>p \<in> set ps. plain p \<Longrightarrow> plain (Join ps sep)"
  by (induction ps) (auto simp: Join_Cons)

lemma plain_ToUpper [simp]: "plain s \<Longrightarrow> plain (ToUpper s)"
proof -
  have "upper_char c = CHR ''$'' \<Longrightarrow> c = CHR ''$''" for c
  proof (cases "97 \<le> (of_char c :: nat) \<and> (of_char c :: nat) \<le> 122")
    case True
    assume "upper_char c = CHR ''$''"
    then have "(of_char (char_of ((of_char c :: nat) - 32) :: char) :: nat) = 36"
      using True by (simp add: upper_char_def Let_def)
    then have "(of_char c - 32) mod 256 = (36 :: nat)"
      by simp
    with True show ?thesis by (auto simp: mod_less)
  next
    case False
    assume "upper_char c = CHR ''$''"
    with False show ?thesis by (auto simp: upper_char_def Let_def)
  qed
  then show "plain s \<Longrightarrow> plain (ToUpper s)"
    unfolding plain_def ToUpper_def by (metis (no_types, opaque_lifting) image_iff set_map)
qed

end
