(* ===== verification/Schema.thy ===== *)
theory Schema
  imports Strconv "HOL-Library.AList"
begin

text \<open>
  \<^verbatim>\<open>internal/schema/schema.go\<close> and the data of \<^verbatim>\<open>functions.go\<close>: tables, columns, functions, and the
  store that holds them per schema.

  A Go map is an association list with distinct keys; the order of the list stands for the order
  in which one \<^verbatim>\<open>range\<close> visits the map, which Go leaves open, so a theorem about every list covers
  every order.  The store is guarded by a mutex and each operation holds it from start to end, so
  an operation is one step of the model.
\<close>

section \<open>Data\<close>

record Column =
  col_Name :: string
  col_DataType :: string
  col_IsNullable :: bool
  col_IsPK :: bool
  col_IsUnique :: bool
  col_DefaultValue :: string
  col_OrdinalPos :: int
  col_CharacterMaxLen :: int

record ForeignKey =
  fk_ConstraintName :: string
  fk_ColumnName :: string
  fk_RefTable :: string
  fk_RefColumn :: string
  fk_OnDelete :: string
  fk_OnUpdate :: string

record UniqueConstraint =
  uc_ConstraintName :: string
  uc_Columns :: "string list"

text \<open>\<^verbatim>\<open>AllowedMethods\<close> is a slice that may be nil, and nil differs from empty: an option.\<close>

record Table =
  tbl_Name :: string
  tbl_SchemaName :: string
  tbl_Columns :: "(string \<times> Column) list"
  tbl_ColumnOrder :: "string list"
  tbl_PK :: string
  tbl_IsView :: bool
  tbl_ForeignKeys :: "ForeignKey list"
  tbl_UniqueConstraints :: "UniqueConstraint list"
  tbl_AllowedMethods :: "string list option"
  tbl_DenyMethods :: "string list"
  tbl_FTSLanguage :: string

record FuncArg =
  arg_Name :: string
  arg_Type :: string
  arg_Nullable :: bool
  arg_Default :: string

record Function =
  fn_Name :: string
  fn_SchemaName :: string
  fn_ReturnType :: string
  fn_Arguments :: "FuncArg list"
  fn_Language :: string

section \<open>Tables\<close>

definition QualifiedName :: "Table \<Rightarrow> string" where
  "QualifiedName t =
     (if tbl_SchemaName t \<noteq> '''' \<and> tbl_SchemaName t \<noteq> ''public''
      then tbl_SchemaName t @ ''.'' @ tbl_Name t
      else tbl_Name t)"

definition OrderedColumns :: "Table \<Rightarrow> Column list" where
  "OrderedColumns t = List.map_filter (map_of (tbl_Columns t)) (tbl_ColumnOrder t)"

definition IsMethodAllowed :: "Table \<Rightarrow> string \<Rightarrow> bool" where
  "IsMethodAllowed t method =
     (if list_ex (\<lambda>m. EqualFold m method) (tbl_DenyMethods t) then False
      else (case tbl_AllowedMethods t of
              None \<Rightarrow> True
            | Some ms \<Rightarrow> list_ex (\<lambda>m. EqualFold m method) ms))"

section \<open>The store\<close>

record SchemaStore =
  ss_schemas :: "(string \<times> (string \<times> Table) list) list"
  ss_functions :: "(string \<times> (string \<times> Function) list) list"
  ss_defaultSchema :: string

definition NewSchemaStore :: "string \<Rightarrow> SchemaStore" where
  "NewSchemaStore defSchema = \<lparr>ss_schemas = [], ss_functions = [], ss_defaultSchema = defSchema\<rparr>"

text \<open>Two-level update: a missing inner map is created, then the entry is stored.\<close>

definition put2 ::
    "string \<Rightarrow> string \<Rightarrow> 'v \<Rightarrow> (string \<times> (string \<times> 'v) list) list \<Rightarrow> (string \<times> (string \<times> 'v) list) list" where
  "put2 s k v m =
     (let inner = (case map_of m s of None \<Rightarrow> [] | Some i \<Rightarrow> i)
      in AList.update s (AList.update k v inner) m)"

definition get2 :: "string \<Rightarrow> string \<Rightarrow> (string \<times> (string \<times> 'v) list) list \<Rightarrow> 'v option" where
  "get2 s k m = (case map_of m s of None \<Rightarrow> None | Some inner \<Rightarrow> map_of inner k)"

definition AddTable :: "string \<Rightarrow> Table \<Rightarrow> SchemaStore \<Rightarrow> SchemaStore" where
  "AddTable schemaName table ss =
     (let t = table\<lparr>tbl_SchemaName := schemaName\<rparr>
      in ss\<lparr>ss_schemas := put2 schemaName (tbl_Name t) t (ss_schemas ss)\<rparr>)"

definition GetTable :: "SchemaStore \<Rightarrow> string \<Rightarrow> string \<Rightarrow> Table option" where
  "GetTable ss schemaName tableName =
     (let s = (if schemaName = '''' then ss_defaultSchema ss else schemaName)
      in get2 s tableName (ss_schemas ss))"

definition HasTable :: "SchemaStore \<Rightarrow> string \<Rightarrow> string \<Rightarrow> bool" where
  "HasTable ss schemaName tableName = (GetTable ss schemaName tableName \<noteq> None)"

definition AllTables :: "SchemaStore \<Rightarrow> (string \<times> Table) list" where
  "AllTables ss =
     fold (\<lambda>(_, tables) result. fold (\<lambda>(name, table). AList.update name table) tables result)
       (ss_schemas ss) []"

definition TablesBySchema :: "SchemaStore \<Rightarrow> string \<Rightarrow> (string \<times> Table) list" where
  "TablesBySchema ss schemaName =
     (let s = (if schemaName = '''' then ss_defaultSchema ss else schemaName)
      in (case map_of (ss_schemas ss) s of None \<Rightarrow> [] | Some tables \<Rightarrow> tables))"

definition SchemaNames :: "SchemaStore \<Rightarrow> string list" where
  "SchemaNames ss = map fst (ss_schemas ss)"

definition AddFunction :: "string \<Rightarrow> Function \<Rightarrow> SchemaStore \<Rightarrow> SchemaStore" where
  "AddFunction schemaName fn ss =
     ss\<lparr>ss_functions := put2 schemaName (fn_Name fn) fn (ss_functions ss)\<rparr>"

definition GetFunction :: "SchemaStore \<Rightarrow> string \<Rightarrow> string \<Rightarrow> Function option" where
  "GetFunction ss schemaName funcName =
     (let s = (if schemaName = '''' then ss_defaultSchema ss else schemaName)
      in get2 s funcName (ss_functions ss))"

definition AllFunctions :: "SchemaStore \<Rightarrow> (string \<times> Function) list" where
  "AllFunctions ss =
     fold (\<lambda>(_, fns) result. fold (\<lambda>(name, fn). AList.update name fn) fns result)
       (ss_functions ss) []"

definition FunctionsBySchema :: "SchemaStore \<Rightarrow> string \<Rightarrow> (string \<times> Function) list" where
  "FunctionsBySchema ss schemaName =
     (let s = (if schemaName = '''' then ss_defaultSchema ss else schemaName)
      in (case map_of (ss_functions ss) s of None \<Rightarrow> [] | Some fns \<Rightarrow> fns))"

definition ReplaceTables ::
    "(string \<times> (string \<times> Table) list) list \<Rightarrow> SchemaStore \<Rightarrow> SchemaStore" where
  "ReplaceTables m ss = ss\<lparr>ss_schemas := m\<rparr>"

definition ReplaceFunctions ::
    "(string \<times> (string \<times> Function) list) list \<Rightarrow> SchemaStore \<Rightarrow> SchemaStore" where
  "ReplaceFunctions m ss = ss\<lparr>ss_functions := m\<rparr>"

text \<open>The representation invariant: every map of the store has distinct keys.\<close>

definition keys_ok :: "(string \<times> (string \<times> 'v) list) list \<Rightarrow> bool" where
  "keys_ok m \<longleftrightarrow> distinct (map fst m) \<and> list_all (\<lambda>(_, inner). distinct (map fst inner)) m"

definition store_ok :: "SchemaStore \<Rightarrow> bool" where
  "store_ok ss \<longleftrightarrow> keys_ok (ss_schemas ss) \<and> keys_ok (ss_functions ss)"

section \<open>Two-level maps\<close>

lemma get2_put2:
  "get2 s' k' (put2 s k v m) = (if s' = s \<and> k' = k then Some v else get2 s' k' m)"
  by (auto simp: get2_def put2_def Let_def update_conv' split: option.splits)

lemma keys_ok_Nil [simp]: "keys_ok []"
  by (simp add: keys_ok_def)

lemma set_AList_update: "set (AList.update k v m) \<subseteq> insert (k, v) (set m)"
  by (induction m) auto

lemma keys_ok_update:
  "keys_ok m \<Longrightarrow> distinct (map fst inner) \<Longrightarrow> keys_ok (AList.update s inner m)"
  using set_AList_update [of s inner m] by (fastforce simp: keys_ok_def distinct_update list_all_iff)

lemma keys_ok_inner: "keys_ok m \<Longrightarrow> map_of m s = Some inner \<Longrightarrow> distinct (map fst inner)"
  by (auto simp: keys_ok_def list_all_iff dest: map_of_SomeD)

lemma keys_ok_put2: "keys_ok m \<Longrightarrow> keys_ok (put2 s k v m)"
  by (auto simp: put2_def Let_def split: option.splits
      intro!: keys_ok_update distinct_update dest: keys_ok_inner)

section \<open>The interface of a store\<close>

text \<open>
  What the handlers rely on: an entry stored under a schema is found there by its name, stamped
  with the schema, until it is stored again; nothing else changes; the empty schema name means
  the default schema.
\<close>

locale keyed_store =
  fixes add :: "string \<Rightarrow> 'v \<Rightarrow> 's \<Rightarrow> 's"
    and get :: "'s \<Rightarrow> string \<Rightarrow> string \<Rightarrow> 'v option"
    and key :: "'v \<Rightarrow> string"
    and stamp :: "string \<Rightarrow> 'v \<Rightarrow> 'v"
    and default :: "'s \<Rightarrow> string"
    and ok :: "'s \<Rightarrow> bool"
  assumes get_default: "get s [] k = get s (default s) k"
    and get_add: "sn' \<noteq> [] \<Longrightarrow>
      get (add sn v s) sn' k = (if sn' = sn \<and> k = key v then Some (stamp sn v) else get s sn' k)"
    and default_add: "default (add sn v s) = default s"
    and ok_add: "ok s \<Longrightarrow> ok (add sn v s)"
begin

text \<open>Storing a whole schema: the last entry of a name wins, other names are untouched.\<close>

lemma get_add_all:
  "sn \<noteq> [] \<Longrightarrow> get (fold (add sn) vs s) sn =
     get s sn ++ map_of (map (\<lambda>v. (key v, stamp sn v)) (rev vs))"
  by (induction vs arbitrary: s) (auto simp: get_add map_add_def fun_eq_iff split: option.splits)

lemma get_add_all_other:
  "sn' \<noteq> [] \<Longrightarrow> sn' \<noteq> sn \<Longrightarrow> get (fold (add sn) vs s) sn' k = get s sn' k"
  by (induction vs arbitrary: s) (auto simp: get_add)

lemma default_add_all: "default (fold (add sn) vs s) = default s"
  by (induction vs arbitrary: s) (auto simp: default_add)

lemma ok_add_all: "ok s \<Longrightarrow> ok (fold (add sn) vs s)"
  by (induction vs arbitrary: s) (auto simp: ok_add)

lemma get_all_distinct:
  assumes "sn \<noteq> []" "distinct (map key vs)" "v \<in> set vs"
  shows "get (fold (add sn) vs s) sn (key v) = Some (stamp sn v)"
proof -
  have "distinct (map fst (map (\<lambda>v. (key v, stamp sn v)) (rev vs)))"
    using assms(2) by (simp add: comp_def rev_map [symmetric])
  moreover have "(key v, stamp sn v) \<in> set (map (\<lambda>v. (key v, stamp sn v)) (rev vs))"
    using assms(3) by auto
  ultimately show ?thesis
    using assms(1) by (simp add: get_add_all map_add_def map_of_is_SomeI)
qed

end

interpretation tables: keyed_store AddTable GetTable tbl_Name
  "\<lambda>sn t. t\<lparr>tbl_SchemaName := sn\<rparr>" ss_defaultSchema store_ok
  by unfold_locales
    (auto simp: AddTable_def GetTable_def get2_put2 Let_def store_ok_def keys_ok_put2)

interpretation funcs: keyed_store AddFunction GetFunction fn_Name "\<lambda>sn f. f" ss_defaultSchema store_ok
  by unfold_locales
    (auto simp: AddFunction_def GetFunction_def get2_put2 Let_def store_ok_def keys_ok_put2)

end
