(* ===== verification/Introspect.thy ===== *)
theory Introspect
  imports Schema
begin

text \<open>
  \<^verbatim>\<open>internal/schema/introspect.go\<close> and \<^verbatim>\<open>functions.go\<close>: the catalogue of a schema is read by six
  queries into a map of tables, and by one query into a map of functions.

  The answer of a query is an argument of the model: an error, or a list of rows (each a scanned
  row or a scan error) with the error the iteration ends with, if any.  Rows are records with the
  columns the query selects.
\<close>

section \<open>Answers of queries\<close>

type_synonym 'r answer = "string + (string + 'r) list \<times> string option"

record ColumnRow =
  cr_table :: string
  cr_column :: string
  cr_dataType :: string
  cr_isNullable :: string
  cr_default :: string
  cr_ordinalPos :: int
  cr_charMaxLen :: int

record PKRow =
  pr_table :: string
  pr_column :: string

record FKRow =
  fr_constraint :: string
  fr_table :: string
  fr_column :: string
  fr_refTable :: string
  fr_refColumn :: string
  fr_onUpdate :: string
  fr_onDelete :: string

record UniqueRow =
  ur_constraint :: string
  ur_table :: string
  ur_columns :: string

record CommentRow =
  mr_table :: string
  mr_comment :: string

record FunctionRow =
  xr_name :: string
  xr_returnType :: string
  xr_kind :: string
  xr_language :: string
  xr_argTypes :: string
  xr_argNames :: string

text \<open>The catalogue of one schema: the answers to the queries.\<close>

record catalog =
  cat_columns :: "ColumnRow answer"
  cat_viewColumns :: "ColumnRow answer"
  cat_primaryKeys :: "PKRow answer"
  cat_foreignKeys :: "FKRow answer"
  cat_uniques :: "UniqueRow answer"
  cat_comments :: "CommentRow answer"
  cat_functions :: "FunctionRow answer"

type_synonym tables = "(string \<times> Table) list"

text \<open>The loop over the rows; \<open>ctx\<close> and \<open>scanCtx\<close> prefix the errors of the query and of a scan.\<close>

fun eachRow :: "string \<Rightarrow> ('r \<Rightarrow> 's \<Rightarrow> 's) \<Rightarrow> (string + 'r) list \<Rightarrow> 's \<Rightarrow> 's outcome" where
  "eachRow scanCtx body [] s = Ok s"
| "eachRow scanCtx body (Inl e # rows) s = Error (scanCtx @ '': '' @ e)"
| "eachRow scanCtx body (Inr r # rows) s = eachRow scanCtx body rows (body r s)"

definition runQuery :: "string \<Rightarrow> string \<Rightarrow> ('r \<Rightarrow> 's \<Rightarrow> 's) \<Rightarrow> 'r answer \<Rightarrow> 's \<Rightarrow> 's outcome" where
  "runQuery ctx scanCtx body answer s =
     (case answer of
        Inl e \<Rightarrow> Error (ctx @ '': '' @ e)
      | Inr (rows, err) \<Rightarrow>
          obind (eachRow scanCtx body rows s)
            (\<lambda>s'. case err of Some e \<Rightarrow> Error e | None \<Rightarrow> Ok s'))"

section \<open>Tables and views\<close>

definition newTable :: "string \<Rightarrow> bool \<Rightarrow> Table" where
  "newTable name isView =
     \<lparr>tbl_Name = name, tbl_SchemaName = '''', tbl_Columns = [], tbl_ColumnOrder = [], tbl_PK = '''',
      tbl_IsView = isView, tbl_ForeignKeys = [], tbl_UniqueConstraints = [],
      tbl_AllowedMethods = None, tbl_DenyMethods = [], tbl_FTSLanguage = ''''\<rparr>"

definition columnOf :: "ColumnRow \<Rightarrow> Column" where
  "columnOf r =
     \<lparr>col_Name = cr_column r, col_DataType = cr_dataType r, col_IsNullable = (cr_isNullable r = ''YES''),
      col_IsPK = False, col_IsUnique = False, col_DefaultValue = cr_default r,
      col_OrdinalPos = cr_ordinalPos r, col_CharacterMaxLen = cr_charMaxLen r\<rparr>"

definition putColumn :: "ColumnRow \<Rightarrow> Table \<Rightarrow> Table" where
  "putColumn r tbl = tbl\<lparr>tbl_Columns := AList.update (cr_column r) (columnOf r) (tbl_Columns tbl),
     tbl_ColumnOrder := tbl_ColumnOrder tbl @ [cr_column r]\<rparr>"

definition addTableColumn :: "ColumnRow \<Rightarrow> tables \<Rightarrow> tables" where
  "addTableColumn r tables =
     (let tbl = (case map_of tables (cr_table r) of None \<Rightarrow> newTable (cr_table r) False | Some t \<Rightarrow> t)
      in AList.update (cr_table r) (putColumn r tbl) tables)"

definition addViewColumn :: "ColumnRow \<Rightarrow> tables \<Rightarrow> tables" where
  "addViewColumn r tables =
     (let tbl = (case map_of tables (cr_table r) of None \<Rightarrow> newTable (cr_table r) True | Some t \<Rightarrow> t)
      in AList.update (cr_table r) (putColumn r (tbl\<lparr>tbl_IsView := True\<rparr>)) tables)"

text \<open>What the other passes do: change a table that exists, through its pointer.\<close>

definition changeTable :: "string \<Rightarrow> (Table \<Rightarrow> Table) \<Rightarrow> tables \<Rightarrow> tables" where
  "changeTable name f tables =
     (case map_of tables name of None \<Rightarrow> tables | Some t \<Rightarrow> AList.update name (f t) tables)"

definition changeColumn :: "string \<Rightarrow> (Column \<Rightarrow> Column) \<Rightarrow> Table \<Rightarrow> Table" where
  "changeColumn name f t =
     (case map_of (tbl_Columns t) name of
        None \<Rightarrow> t
      | Some c \<Rightarrow> t\<lparr>tbl_Columns := AList.update name (f c) (tbl_Columns t)\<rparr>)"

section \<open>Keys and constraints\<close>

definition addPrimaryKey :: "PKRow \<Rightarrow> tables \<Rightarrow> tables" where
  "addPrimaryKey r =
     changeTable (pr_table r) (\<lambda>tbl.
       case map_of (tbl_Columns tbl) (pr_column r) of
         None \<Rightarrow> tbl
       | Some col \<Rightarrow>
           let tbl' = tbl\<lparr>tbl_Columns := AList.update (pr_column r) (col\<lparr>col_IsPK := True\<rparr>) (tbl_Columns tbl)\<rparr>
           in if tbl_PK tbl = '''' then tbl'\<lparr>tbl_PK := pr_column r\<rparr> else tbl')"

definition addForeignKey :: "FKRow \<Rightarrow> tables \<Rightarrow> tables" where
  "addForeignKey r =
     changeTable (fr_table r) (\<lambda>tbl.
       changeColumn (fr_column r) (\<lambda>col. col)
         (tbl\<lparr>tbl_ForeignKeys := tbl_ForeignKeys tbl @
            [\<lparr>fk_ConstraintName = fr_constraint r, fk_ColumnName = fr_column r, fk_RefTable = fr_refTable r,
              fk_RefColumn = fr_refColumn r, fk_OnDelete = fr_onDelete r, fk_OnUpdate = fr_onUpdate r\<rparr>]\<rparr>))"

definition addUnique :: "UniqueRow \<Rightarrow> tables \<Rightarrow> tables" where
  "addUnique r =
     changeTable (ur_table r) (\<lambda>tbl.
       let colNames = Split (ur_columns r) CHR '','';
           tbl' = (if length colNames = 1
                   then changeColumn (hd colNames) (\<lambda>col. col\<lparr>col_IsUnique := True\<rparr>) tbl else tbl)
       in tbl'\<lparr>tbl_UniqueConstraints := tbl_UniqueConstraints tbl' @
            [\<lparr>uc_ConstraintName = ur_constraint r, uc_Columns = colNames\<rparr>]\<rparr>)"

section \<open>Permissions in comments\<close>

definition methodList :: "string \<Rightarrow> string list" where
  "methodList s = map ToUpper (filter (\<lambda>p. p \<noteq> '''') (map TrimSpace (Split s CHR '','')))"

definition commentLine :: "string \<Rightarrow> string list \<times> string list \<times> string \<Rightarrow> string list \<times> string list \<times> string" where
  "commentLine line0 acc =
     (let line = TrimSpace line0; (allowed, denied, ftsLanguage) = acc
      in if HasPrefix line ''@allow '' then
           (allowed @ methodList (TrimPrefix line ''@allow ''), denied, ftsLanguage)
         else if HasPrefix line ''@deny '' then
           (allowed, denied @ methodList (TrimPrefix line ''@deny ''), ftsLanguage)
         else if HasPrefix line ''@fts_language '' then
           (allowed, denied, TrimSpace (TrimPrefix line ''@fts_language ''))
         else acc)"

definition parseComment :: "string \<Rightarrow> string list \<times> string list \<times> string" where
  "parseComment comment = fold commentLine (Split comment CHR 0x0A) ([], [], '''')"

definition addPermissions :: "CommentRow \<Rightarrow> tables \<Rightarrow> tables" where
  "addPermissions r =
     changeTable (mr_table r) (\<lambda>tbl.
       let (allowed, denied, ftsLanguage) = parseComment (mr_comment r);
           tbl1 = (if 0 < length allowed then tbl\<lparr>tbl_AllowedMethods := Some allowed\<rparr> else tbl);
           tbl2 = (if 0 < length denied then tbl1\<lparr>tbl_DenyMethods := denied\<rparr> else tbl1)
       in if ftsLanguage \<noteq> '''' then tbl2\<lparr>tbl_FTSLanguage := ftsLanguage\<rparr> else tbl2)"

text \<open>Rows that cannot be scanned are skipped, and every error of this query is ignored.\<close>

definition introspectPermissions :: "CommentRow answer \<Rightarrow> tables \<Rightarrow> tables" where
  "introspectPermissions answer tables =
     (case answer of
        Inl e \<Rightarrow> tables
      | Inr (rows, err) \<Rightarrow> fold (\<lambda>r. case r of Inl e \<Rightarrow> id | Inr row \<Rightarrow> addPermissions row) rows tables)"

section \<open>Introspect\<close>

definition introspectTables :: "ColumnRow answer \<Rightarrow> tables \<Rightarrow> tables outcome" where
  "introspectTables = runQuery ''query columns'' ''scan column'' addTableColumn"

definition introspectViews :: "ColumnRow answer \<Rightarrow> tables \<Rightarrow> tables outcome" where
  "introspectViews = runQuery ''query views'' ''scan view column'' addViewColumn"

definition introspectPrimaryKeys :: "PKRow answer \<Rightarrow> tables \<Rightarrow> tables outcome" where
  "introspectPrimaryKeys = runQuery ''query primary keys'' ''scan pk'' addPrimaryKey"

definition introspectForeignKeys :: "FKRow answer \<Rightarrow> tables \<Rightarrow> tables outcome" where
  "introspectForeignKeys = runQuery ''query foreign keys'' ''scan fk'' addForeignKey"

definition introspectUniqueConstraints :: "UniqueRow answer \<Rightarrow> tables \<Rightarrow> tables outcome" where
  "introspectUniqueConstraints = runQuery ''query unique constraints'' ''scan unique'' addUnique"

definition Introspect :: "catalog \<Rightarrow> tables outcome" where
  "Introspect cat =
     obind (introspectTables (cat_columns cat) []) (\<lambda>ts1.
     obind (introspectViews (cat_viewColumns cat) ts1) (\<lambda>ts2.
     obind (introspectPrimaryKeys (cat_primaryKeys cat) ts2) (\<lambda>ts3.
     obind (introspectForeignKeys (cat_foreignKeys cat) ts3) (\<lambda>ts4.
     obind (introspectUniqueConstraints (cat_uniques cat) ts4) (\<lambda>ts5.
       Ok (introspectPermissions (cat_comments cat) ts5))))))"

section \<open>Functions\<close>

definition resolveOIDType :: "string \<Rightarrow> string" where
  "resolveOIDType oidStr =
     (case map_of
        [(''16'', ''boolean''), (''17'', ''bytea''), (''18'', ''char''), (''19'', ''name''),
         (''20'', ''bigint''), (''21'', ''smallint''), (''23'', ''integer''), (''25'', ''text''),
         (''700'', ''real''), (''701'', ''double precision''), (''1042'', ''character''),
         (''1043'', ''character varying''), (''1082'', ''date''),
         (''1114'', ''timestamp without time zone''), (''1184'', ''timestamp with time zone''),
         (''1700'', ''numeric''), (''2950'', ''uuid''), (''3802'', ''jsonb''), (''114'', ''json''),
         (''142'', ''xml''), (''143'', ''ARRAY'')] oidStr of
        Some t \<Rightarrow> t
      | None \<Rightarrow> if HasPrefix oidStr ''1043'' then ''character varying'' else oidStr)"

text \<open>\<^verbatim>\<open>strings.Fields\<close>: the words between blanks.\<close>

definition Fields :: "string \<Rightarrow> string list" where
  "Fields s = filter (\<lambda>w. w \<noteq> '''') (Split (map (\<lambda>c. if is_space c then CHR '' '' else c) s) CHR '' '')"

definition typeTexts :: "string \<Rightarrow> string list" where
  "typeTexts s =
     (if Contains s '' '' then Fields s else if Contains s '','' then Split s CHR '','' else [s])"

text \<open>One turn of the loop over the types: \<open>names\<close> are the argument names, \<open>i\<close> the index.\<close>

definition funcArg :: "string list \<Rightarrow> nat \<Rightarrow> nat \<times> string \<Rightarrow> FuncArg option" where
  "funcArg allNames nameCount x =
     (let (i, typeStr0) = x; typeStr = TrimSpace typeStr0
      in if typeStr = '''' then None
         else
           let name = (if i < nameCount then TrimSpace (allNames ! i) else '''')
           in Some \<lparr>arg_Name = (if name \<noteq> '''' then name else ''p_'' @ nat_text i),
                    arg_Type = resolveOIDType typeStr, arg_Nullable = False, arg_Default = ''''\<rparr>)"

definition parseFuncArgs :: "string \<Rightarrow> string \<Rightarrow> FuncArg list" where
  "parseFuncArgs argTypesText0 argNamesText0 =
     (let argTypesText = TrimSpace argTypesText0; argNamesText = TrimSpace argNamesText0
      in if argTypesText = '''' \<or> argTypesText = ''{}'' then []
         else
           let typeStrs = typeTexts (Trim argTypesText ''{}'');
               allNames = (if argNamesText \<noteq> '''' \<and> argNamesText \<noteq> ''{}''
                           then Split (Trim argNamesText ''{}'') CHR '','' else []);
               nameCount = (if length allNames < length typeStrs then length allNames else length typeStrs)
           in List.map_filter (funcArg allNames nameCount) (enumerate 0 typeStrs))"

definition addFunctionRow :: "string \<Rightarrow> FunctionRow \<Rightarrow> (string \<times> Function) list \<Rightarrow> (string \<times> Function) list" where
  "addFunctionRow schemaName r functions' =
     (let fn = \<lparr>fn_Name = xr_name r, fn_SchemaName = schemaName, fn_ReturnType = xr_returnType r,
                fn_Arguments = parseFuncArgs (xr_argTypes r) (xr_argNames r), fn_Language = xr_language r\<rparr>;
          key = (if map_of functions' (xr_name r) \<noteq> None then xr_name r @ ''_'' @ xr_returnType r else xr_name r)
      in AList.update key fn functions')"

definition IntrospectFunctions :: "catalog \<Rightarrow> string \<Rightarrow> (string \<times> Function) list outcome" where
  "IntrospectFunctions cat schemaName =
     runQuery ''query functions'' ''scan function '' (addFunctionRow schemaName) (cat_functions cat) []"

section \<open>Well-formed tables\<close>

text \<open>
  The map of columns and the order list name the same columns, each stored under its own name;
  the primary key, if there is one, is a column marked as such; the method lists are upper case.
\<close>

definition table_wf :: "Table \<Rightarrow> bool" where
  "table_wf t \<longleftrightarrow> distinct (map fst (tbl_Columns t)) \<and>
     set (tbl_ColumnOrder t) = fst ` set (tbl_Columns t) \<and>
     (\<forall>(k, c) \<in> set (tbl_Columns t). col_Name c = k) \<and>
     (tbl_PK t = '''' \<or> (\<exists>c. map_of (tbl_Columns t) (tbl_PK t) = Some c \<and> col_IsPK c))"

definition tables_wf :: "tables \<Rightarrow> bool" where
  "tables_wf ts \<longleftrightarrow> distinct (map fst ts) \<and> (\<forall>(k, t) \<in> set ts. tbl_Name t = k \<and> table_wf t)"

section \<open>The contract of a pass\<close>

text \<open>
  A pass over the rows of a query keeps a property of the map of tables when the body of its loop
  does.
\<close>

locale table_pass =
  fixes body :: "'r \<Rightarrow> tables \<Rightarrow> tables"
    and inv :: "tables \<Rightarrow> bool"
  assumes row_inv: "inv ts \<Longrightarrow> inv (body r ts)"
begin

lemma eachRow_inv: "eachRow ctx body rows ts = Ok ts' \<Longrightarrow> inv ts \<Longrightarrow> inv ts'"
proof (induction rows arbitrary: ts)
  case (Cons x rows)
  then show ?case by (cases x) (auto intro: row_inv)
qed simp

lemma pass_inv: "runQuery ctx scanCtx body answer ts = Ok ts' \<Longrightarrow> inv ts \<Longrightarrow> inv ts'"
  by (auto simp: runQuery_def obind_Ok_iff split: sum.splits option.splits intro: eachRow_inv)

lemma fold_inv: "inv ts \<Longrightarrow> inv (fold (\<lambda>r. case r of Inl e \<Rightarrow> id | Inr row \<Rightarrow> body row) rows ts)"
  by (induction rows arbitrary: ts) (auto split: sum.splits intro: row_inv)

end

lemma tables_wf_update:
  "tables_wf ts \<Longrightarrow> tbl_Name t = k \<Longrightarrow> table_wf t \<Longrightarrow> tables_wf (AList.update k t ts)"
  using set_AList_update [of k t ts] by (fastforce simp: tables_wf_def distinct_update)

lemma tables_wf_lookup: "tables_wf ts \<Longrightarrow> map_of ts k = Some t \<Longrightarrow> tbl_Name t = k \<and> table_wf t"
  by (fastforce simp: tables_wf_def dest: map_of_SomeD)

lemma tables_wf_change:
  assumes "tables_wf ts" "\<And>t. table_wf t \<Longrightarrow> table_wf (f t)" "\<And>t. tbl_Name (f t) = tbl_Name t"
  shows "tables_wf (changeTable k f ts)"
  using assms tables_wf_lookup [OF assms(1), of k]
  by (auto simp: changeTable_def split: option.splits intro!: tables_wf_update)

lemma table_wf_new: "table_wf (newTable n v)"
  by (simp add: table_wf_def newTable_def)

lemma AList_update_keys: "fst ` set (AList.update k v al) = insert k (fst ` set al)"
  by (simp add: dom_map_of_conv_image_fst [symmetric] update_conv')

text \<open>Storing a column under its name; a column that is marked as key stays marked.\<close>

lemma table_wf_put:
  assumes "table_wf t" "col_Name c = k" "\<forall>old. map_of (tbl_Columns t) k = Some old \<longrightarrow> col_IsPK old \<longrightarrow> col_IsPK c"
    and "set (tbl_ColumnOrder t') = insert k (set (tbl_ColumnOrder t))" "tbl_PK t' = tbl_PK t"
    and "tbl_Columns t' = AList.update k c (tbl_Columns t)"
  shows "table_wf t'"
proof -
  have "\<forall>(k', c') \<in> set (AList.update k c (tbl_Columns t)). col_Name c' = k'"
    using assms(1,2) set_AList_update [of k c "tbl_Columns t"] by (fastforce simp: table_wf_def)
  with assms show ?thesis
    by (auto simp: table_wf_def distinct_update AList_update_keys update_conv')
qed

lemma table_wf_columns:
  "table_wf t \<Longrightarrow> map_of (tbl_Columns t) k = Some c \<Longrightarrow> col_Name c = k \<and> k \<in> set (tbl_ColumnOrder t)"
proof -
  assume wf: "table_wf t" and "map_of (tbl_Columns t) k = Some c"
  then have kc: "(k, c) \<in> set (tbl_Columns t)" by (auto dest: map_of_SomeD)
  then have "k \<in> fst ` set (tbl_Columns t)" by force
  with wf kc show ?thesis unfolding table_wf_def by blast
qed

lemma table_wf_other [simp]:
  "table_wf (t\<lparr>tbl_UniqueConstraints := us\<rparr>) \<longleftrightarrow> table_wf t" "table_wf (t\<lparr>tbl_ForeignKeys := fs\<rparr>) \<longleftrightarrow> table_wf t"
  "table_wf (t\<lparr>tbl_AllowedMethods := a\<rparr>) \<longleftrightarrow> table_wf t" "table_wf (t\<lparr>tbl_DenyMethods := d\<rparr>) \<longleftrightarrow> table_wf t"
  "table_wf (t\<lparr>tbl_FTSLanguage := l\<rparr>) \<longleftrightarrow> table_wf t"
  by (simp_all add: table_wf_def)

lemma changeColumn_sels [simp]: "tbl_Name (changeColumn k f t) = tbl_Name t"
  by (simp add: changeColumn_def split: option.splits)

lemma table_wf_changeColumn:
  assumes "table_wf t" "\<And>c. col_Name (f c) = col_Name c" "\<And>c. col_IsPK (f c) = col_IsPK c"
  shows "table_wf (changeColumn k f t)"
proof (cases "map_of (tbl_Columns t) k")
  case None
  then show ?thesis using assms(1) by (simp add: changeColumn_def)
next
  case (Some c)
  then show ?thesis
    using assms table_wf_columns [OF assms(1) Some]
    by (intro table_wf_put [OF assms(1), of "f c" k]) (auto simp: changeColumn_def)
qed

text \<open>
  The column passes come first, before any key is marked: a row for a column that exists already
  replaces it, so they keep the invariant of tables without a key.
\<close>

definition unkeyed :: "tables \<Rightarrow> bool" where
  "unkeyed ts \<longleftrightarrow> tables_wf ts \<and> (\<forall>(k, t) \<in> set ts. tbl_PK t = [] \<and> (\<forall>(k, c) \<in> set (tbl_Columns t). \<not> col_IsPK c))"

lemma unkeyed_update:
  "unkeyed ts \<Longrightarrow> tbl_Name t = k \<Longrightarrow> table_wf t \<Longrightarrow> tbl_PK t = [] \<Longrightarrow>
   \<forall>(k, c) \<in> set (tbl_Columns t). \<not> col_IsPK c \<Longrightarrow> unkeyed (AList.update k t ts)"
  using set_AList_update [of k t ts] by (fastforce simp: unkeyed_def tables_wf_update)

lemma unkeyed_put:
  assumes "unkeyed ts" "t = (case map_of ts (cr_table r) of None \<Rightarrow> newTable (cr_table r) v | Some t \<Rightarrow> t)"
  shows "unkeyed (AList.update (cr_table r) (putColumn r (t\<lparr>tbl_IsView := b\<rparr>)) ts)"
proof -
  have t: "tbl_Name t = cr_table r" "table_wf t" "tbl_PK t = []" "\<forall>(k, c) \<in> set (tbl_Columns t). \<not> col_IsPK c"
  proof -
    have "tbl_Name t = cr_table r \<and> table_wf t \<and> tbl_PK t = [] \<and> (\<forall>(k, c) \<in> set (tbl_Columns t). \<not> col_IsPK c)"
    proof (cases "map_of ts (cr_table r)")
      case None
      then show ?thesis using assms(2) table_wf_new by (simp add: newTable_def)
    next
      case (Some u)
      then have "(cr_table r, u) \<in> set ts" by (rule map_of_SomeD)
      with assms(1) Some tables_wf_lookup [of ts "cr_table r" u] show ?thesis
        unfolding unkeyed_def assms(2) by fastforce
    qed
    then show "tbl_Name t = cr_table r" "table_wf t" "tbl_PK t = []"
      "\<forall>(k, c) \<in> set (tbl_Columns t). \<not> col_IsPK c" by blast+
  qed
  have "table_wf (putColumn r (t\<lparr>tbl_IsView := b\<rparr>))"
    by (rule table_wf_put [OF t(2), of "columnOf r" "cr_column r"])
      (use t in \<open>auto simp: putColumn_def columnOf_def dest: map_of_SomeD\<close>)
  moreover have "\<forall>(k, c) \<in> set (tbl_Columns (putColumn r (t\<lparr>tbl_IsView := b\<rparr>))). \<not> col_IsPK c"
    using t(4) set_AList_update [of "cr_column r" "columnOf r" "tbl_Columns t"]
    by (fastforce simp: putColumn_def columnOf_def)
  ultimately show ?thesis
    using t assms(1) by (intro unkeyed_update) (auto simp: putColumn_def)
qed

interpretation columns: table_pass addTableColumn unkeyed
proof
  fix ts and r :: ColumnRow
  assume "unkeyed ts"
  let ?t = "case map_of ts (cr_table r) of None \<Rightarrow> newTable (cr_table r) False | Some t \<Rightarrow> t"
  have "unkeyed (AList.update (cr_table r) (putColumn r (?t\<lparr>tbl_IsView := tbl_IsView ?t\<rparr>)) ts)"
    by (rule unkeyed_put [OF \<open>unkeyed ts\<close> refl])
  then show "unkeyed (addTableColumn r ts)" by (simp add: addTableColumn_def Let_def)
qed

interpretation views: table_pass addViewColumn unkeyed
  by unfold_locales (simp add: addViewColumn_def Let_def unkeyed_put)

lemma table_wf_primary:
  assumes "table_wf t" "map_of (tbl_Columns t) k = Some c"
  shows "table_wf (t\<lparr>tbl_Columns := AList.update k (c\<lparr>col_IsPK := True\<rparr>) (tbl_Columns t)\<rparr>)"
  using table_wf_columns [OF assms]
  by (intro table_wf_put [OF assms(1), of "c\<lparr>col_IsPK := True\<rparr>" k]) auto

interpretation primaryKeys: table_pass addPrimaryKey tables_wf
proof
  fix ts and r :: PKRow
  assume ts: "tables_wf ts"
  show "tables_wf (addPrimaryKey r ts)"
    unfolding addPrimaryKey_def
  proof (rule tables_wf_change [OF ts])
    fix t :: Table
    assume t: "table_wf t"
    show "table_wf (case map_of (tbl_Columns t) (pr_column r) of None \<Rightarrow> t
        | Some col \<Rightarrow> let t' = t\<lparr>tbl_Columns := AList.update (pr_column r) (col\<lparr>col_IsPK := True\<rparr>) (tbl_Columns t)\<rparr>
            in if tbl_PK t = [] then t'\<lparr>tbl_PK := pr_column r\<rparr> else t')"
    proof (cases "map_of (tbl_Columns t) (pr_column r)")
      case (Some c)
      note wf = table_wf_primary [OF t Some]
      have "map_of (AList.update (pr_column r) (c\<lparr>col_IsPK := True\<rparr>) (tbl_Columns t)) (pr_column r) =
          Some (c\<lparr>col_IsPK := True\<rparr>)" by (simp add: update_conv')
      then show ?thesis
        using wf Some by (auto simp: Let_def table_wf_def)
    qed (use t in simp)
  qed (auto simp: Let_def split: option.splits)
qed

interpretation foreignKeys: table_pass addForeignKey tables_wf
  by unfold_locales
    (auto simp: addForeignKey_def intro!: tables_wf_change table_wf_changeColumn)

interpretation uniques: table_pass addUnique tables_wf
  by unfold_locales
    (auto simp: addUnique_def Let_def intro!: tables_wf_change table_wf_changeColumn)

interpretation permissions: table_pass addPermissions tables_wf
  by unfold_locales
    (auto simp: addPermissions_def Let_def split: prod.splits intro!: tables_wf_change)

lemma Introspect_wf: "Introspect cat = Ok ts \<Longrightarrow> tables_wf ts"
proof -
  assume "Introspect cat = Ok ts"
  then obtain ts1 ts2 ts3 ts4 ts5 where
    t: "introspectTables (cat_columns cat) [] = Ok ts1" "introspectViews (cat_viewColumns cat) ts1 = Ok ts2"
      "introspectPrimaryKeys (cat_primaryKeys cat) ts2 = Ok ts3" "introspectForeignKeys (cat_foreignKeys cat) ts3 = Ok ts4"
      "introspectUniqueConstraints (cat_uniques cat) ts4 = Ok ts5"
    and ts: "ts = introspectPermissions (cat_comments cat) ts5"
    by (auto simp: Introspect_def obind_Ok_iff)
  have "unkeyed []" by (simp add: unkeyed_def tables_wf_def)
  then have "unkeyed ts2"
    using t(1,2) unfolding introspectTables_def introspectViews_def
    by (blast intro: columns.pass_inv views.pass_inv)
  then have "tables_wf ts5"
    using t(3-5) unfolding introspectPrimaryKeys_def introspectForeignKeys_def introspectUniqueConstraints_def
    by (blast intro: primaryKeys.pass_inv foreignKeys.pass_inv uniques.pass_inv dest: unkeyed_def [THEN iffD1])
  then show "tables_wf ts"
    unfolding ts introspectPermissions_def by (auto split: sum.splits intro: permissions.fold_inv)
qed

lemma OrderedColumns_wf:
  assumes "table_wf t"
  shows "set (map col_Name (OrderedColumns t)) = fst ` set (tbl_Columns t)"
proof -
  have "col_Name ` set (OrderedColumns t) = set (tbl_ColumnOrder t)"
  proof (intro set_eqI iffI)
    fix k
    assume "k \<in> col_Name ` set (OrderedColumns t)"
    then obtain c j where "j \<in> set (tbl_ColumnOrder t)" "map_of (tbl_Columns t) j = Some c" "k = col_Name c"
      by (auto simp: OrderedColumns_def List.map_filter_def)
    then show "k \<in> set (tbl_ColumnOrder t)" using table_wf_columns [OF assms] by auto
  next
    fix k
    assume k: "k \<in> set (tbl_ColumnOrder t)"
    then have "k \<in> fst ` set (tbl_Columns t)" using assms by (simp add: table_wf_def)
    then obtain c where c: "map_of (tbl_Columns t) k = Some c"
      by (metis domD dom_map_of_conv_image_fst)
    then have "c \<in> set (OrderedColumns t)" using k by (force simp: OrderedColumns_def List.map_filter_def)
    moreover have "col_Name c = k" using table_wf_columns [OF assms c] by blast
    ultimately show "k \<in> col_Name ` set (OrderedColumns t)" by blast
  qed
  then show ?thesis using assms by (simp add: table_wf_def)
qed

section \<open>Comments and arguments\<close>

definition plain_word :: "string \<Rightarrow> bool" where
  "plain_word w \<longleftrightarrow> w \<noteq> [] \<and> (\<forall>c \<in> set w. c \<notin> {CHR '','', CHR ''{'', CHR ''}''} \<and> \<not> is_space c)"

lemma TrimSpace_plain_word: "plain_word w \<Longrightarrow> TrimSpace w = w"
  by (rule TrimSpace_none) (simp add: plain_word_def)

lemma Split_words: "ws \<noteq> [] \<Longrightarrow> \<forall>w \<in> set ws. plain_word w \<Longrightarrow> Split (Join ws '','') CHR '','' = ws"
  by (rule Split_Join) (auto simp: plain_word_def)

lemma methodList_words:
  "ws \<noteq> [] \<Longrightarrow> \<forall>w \<in> set ws. plain_word w \<Longrightarrow> methodList (Join ws '','') = map ToUpper ws"
proof -
  assume h: "ws \<noteq> []" "\<forall>w \<in> set ws. plain_word w"
  then have "map TrimSpace ws = ws" by (simp add: map_idI TrimSpace_plain_word)
  moreover have "filter (\<lambda>p. p \<noteq> []) ws = ws" using h(2) by (simp add: plain_word_def)
  ultimately show ?thesis using Split_words [OF h] by (simp add: methodList_def)
qed

lemma Join_last: "ws \<noteq> [] \<Longrightarrow> last ws \<noteq> [] \<Longrightarrow> last (Join ws sep) = last (last ws) \<and> Join ws sep \<noteq> []"
  by (induction ws) (auto simp: Join_Cons)

lemma TrimSpace_line:
  assumes "ws \<noteq> []" "\<forall>w \<in> set ws. plain_word w"
  shows "TrimSpace (CHR ''@'' # s @ Join ws '','') = CHR ''@'' # s @ Join ws '',''"
proof -
  have "plain_word (last ws)" using assms by simp
  then have "last ws \<noteq> []" "\<not> is_space (last (last ws))" by (simp_all add: plain_word_def)
  with Join_last [OF assms(1)] show ?thesis
    unfolding TrimSpace_def by (intro trim_with_id) (simp add: is_space_def)
qed

section \<open>Properties\<close>

text \<open>
  C18. Introspection, whatever rows the catalogue returns: a table is stored under its own name, its
  ordered columns are exactly the columns of its map, each under its own name, and its primary
  key, if it has one, is a column of the table marked as key.
\<close>

theorem Introspect_tables:
  assumes "Introspect cat = Ok ts" "(n, t) \<in> set ts"
  shows "map_of ts n = Some t \<and> tbl_Name t = n \<and>
    set (map col_Name (OrderedColumns t)) = fst ` set (tbl_Columns t) \<and>
    (\<forall>k c. map_of (tbl_Columns t) k = Some c \<longrightarrow> col_Name c = k) \<and>
    (tbl_PK t = [] \<or> (\<exists>c. map_of (tbl_Columns t) (tbl_PK t) = Some c \<and> col_IsPK c))"
proof -
  have wf: "tables_wf ts" by (rule Introspect_wf [OF assms(1)])
  then have "map_of ts n = Some t" using assms(2) by (simp add: tables_wf_def map_of_is_SomeI)
  moreover have "tbl_Name t = n" "table_wf t"
    using tables_wf_lookup [OF wf \<open>map_of ts n = Some t\<close>] by auto
  moreover have "tbl_PK t = [] \<or> (\<exists>c. map_of (tbl_Columns t) (tbl_PK t) = Some c \<and> col_IsPK c)"
    using \<open>table_wf t\<close> unfolding table_wf_def by blast
  moreover have "\<forall>k c. map_of (tbl_Columns t) k = Some c \<longrightarrow> col_Name c = k"
    using table_wf_columns [OF \<open>table_wf t\<close>] by blast
  ultimately show ?thesis
    using OrderedColumns_wf [OF \<open>table_wf t\<close>] by blast
qed

definition sample_catalog :: catalog where
  "sample_catalog =
     \<lparr>cat_columns = Inr ([Inr \<lparr>cr_table = ''posts'', cr_column = ''id'', cr_dataType = ''integer'',
         cr_isNullable = ''NO'', cr_default = [], cr_ordinalPos = 1, cr_charMaxLen = 0\<rparr>], None),
      cat_viewColumns = Inr ([], None),
      cat_primaryKeys = Inr ([Inr \<lparr>pr_table = ''posts'', pr_column = ''id''\<rparr>], None),
      cat_foreignKeys = Inr ([], None), cat_uniques = Inr ([], None), cat_comments = Inl ''permission denied'',
      cat_functions = Inr ([], None)\<rparr>"

definition posts_introspected :: Table where
  "posts_introspected = (newTable ''posts'' False)\<lparr>tbl_PK := ''id'', tbl_ColumnOrder := [''id''],
     tbl_Columns := [(''id'', \<lparr>col_Name = ''id'', col_DataType = ''integer'', col_IsNullable = False,
       col_IsPK = True, col_IsUnique = False, col_DefaultValue = [], col_OrdinalPos = 1,
       col_CharacterMaxLen = 0\<rparr>)]\<rparr>"

theorem Introspect_tables_witness: "tbl_Name posts_introspected = ''posts'' \<and> tbl_PK posts_introspected = ''id''"
proof -
  have "Introspect sample_catalog = Ok [(''posts'', posts_introspected)]" by code_simp
  from Introspect_tables [OF this, of "''posts''" posts_introspected] show ?thesis
    by (simp add: posts_introspected_def)
qed

text \<open>
  A comment \<^verbatim>\<open>@allow m1,m2\<close> is read as the list of these methods in upper case, and \<^verbatim>\<open>@deny\<close>
  likewise, whatever case they are written in.
\<close>

lemma parseComment_methods:
  assumes "ws \<noteq> []" "\<forall>w \<in> set ws. plain_word w"
  shows "parseComment (''@allow '' @ Join ws '','') = (map ToUpper ws, [], []) \<and>
    parseComment (''@deny '' @ Join ws '','') = ([], map ToUpper ws, [])"
proof -
  have "CHR 0x0A \<notin> set (Join ws '','')"
    using set_Join [of ws "'',''"] assms(2) by (fastforce simp: plain_word_def is_space_def)
  then have "CHR 0x0A \<notin> set (''@allow '' @ Join ws '','')" "CHR 0x0A \<notin> set (''@deny '' @ Join ws '','')"
    by simp_all
  then have split: "Split (''@allow '' @ Join ws '','') CHR 0x0A = [''@allow '' @ Join ws '','']"
    "Split (''@deny '' @ Join ws '','') CHR 0x0A = [''@deny '' @ Join ws '','']"
    by - (rule Split_no_occurrence, assumption)+
  have trim: "TrimSpace (''@allow '' @ Join ws '','') = ''@allow '' @ Join ws '',''"
    "TrimSpace (''@deny '' @ Join ws '','') = ''@deny '' @ Join ws '',''"
    using TrimSpace_line [OF assms, of "''allow ''"] TrimSpace_line [OF assms, of "''deny ''"] by simp_all
  have "\<not> HasPrefix (''@deny '' @ Join ws '','') ''@allow ''" by (simp add: HasPrefix_def)
  then show ?thesis
    unfolding parseComment_def split
    by (simp only: fold_simps comp_def commentLine_def trim Let_def HasPrefix_append TrimPrefix_append
        methodList_words [OF assms]) (simp add: id_def)
qed

lemma parseComment_methods_example:
  "parseComment ''@allow get,Post'' = ([''GET'', ''POST''], [], [])"
proof -
  have "parseComment (''@allow '' @ Join [''get'', ''Post''] '','') = (map ToUpper [''get'', ''Post''], [], [])"
    by (rule conjunct1, rule parseComment_methods) (simp_all add: plain_word_def is_space_def)
  moreover have "map ToUpper [''get'', ''Post''] = [''GET'', ''POST'']" by code_simp
  ultimately show ?thesis by simp
qed

end
