(* ===== verification/Watcher.thy ===== *)
theory Watcher
  imports Introspect
begin

text \<open>
  \<^verbatim>\<open>internal/schema/watcher.go\<close> and the loading of the schemas in \<^verbatim>\<open>cmd/rest-trans/main.go\<close>: the
  store is filled at startup and replaced by every refresh.

  \<open>cats\<close> gives the catalogue of each schema at the moment it is read.  What the watcher logs and
  the triggers it creates are a list of events; \<open>execs\<close> tells which statements succeed.
\<close>

section \<open>Refresh\<close>

definition trimSpace :: "string \<Rightarrow> string" where
  "trimSpace s = rev (dropWhile (\<lambda>c. c = CHR '' '') (rev (dropWhile (\<lambda>c. c = CHR '' '') s)))"

type_synonym table_maps = "(string \<times> tables) list"
type_synonym function_maps = "(string \<times> (string \<times> Function) list) list"

definition refreshSchema :: "(string \<Rightarrow> catalog) \<Rightarrow> string \<Rightarrow> table_maps \<times> function_maps \<Rightarrow> table_maps \<times> function_maps" where
  "refreshSchema cats s0 acc =
     (let s = trimSpace s0; (newSchemas, newFunctions) = acc
      in case Introspect (cats s) of
           Ok tables \<Rightarrow>
             (case IntrospectFunctions (cats s) s of
                Ok funcs \<Rightarrow> (AList.update s tables newSchemas, AList.update s funcs newFunctions)
              | _ \<Rightarrow> (AList.update s tables newSchemas, newFunctions))
         | _ \<Rightarrow> acc)"

definition refreshMaps :: "(string \<Rightarrow> catalog) \<Rightarrow> string list \<Rightarrow> table_maps \<times> function_maps" where
  "refreshMaps cats schemas = fold (refreshSchema cats) schemas ([], [])"

section \<open>Changes\<close>

datatype event =
    NewTable string string
  | NewColumn string string string string
  | ColumnRemoved string string string
  | TableRemoved string
  | NewFunction string string
  | FunctionRemoved string
  | NotifyFunction
  | NotifyTrigger string

definition detectColumnChanges :: "string \<Rightarrow> string \<Rightarrow> Table \<Rightarrow> Table \<Rightarrow> event list" where
  "detectColumnChanges schema table old new =
     map (\<lambda>(colName, newCol). NewColumn schema table colName (col_DataType newCol))
       (filter (\<lambda>(colName, _). map_of (tbl_Columns old) colName = None) (tbl_Columns new)) @
     map (\<lambda>(colName, _). ColumnRemoved schema table colName)
       (filter (\<lambda>(colName, _). map_of (tbl_Columns new) colName = None) (tbl_Columns old))"

definition triggerSQL :: "string \<Rightarrow> string \<Rightarrow> string" where
  "triggerSQL schema table =
     ''CREATE TRIGGER '' @ table @ ''_notify AFTER INSERT OR UPDATE OR DELETE ON '' @ schema @ ''.'' @ table @
     '' FOR EACH ROW EXECUTE FUNCTION rest_notify()''"

text \<open>First the function, then the trigger, unless the function cannot be created.\<close>

definition ensureNotifyTrigger :: "(event \<Rightarrow> bool) \<Rightarrow> string \<Rightarrow> string \<Rightarrow> event list" where
  "ensureNotifyTrigger execs schema table =
     (if execs NotifyFunction then [NotifyFunction, NotifyTrigger (triggerSQL schema table)] else [NotifyFunction])"

definition tableChanges ::
    "(event \<Rightarrow> bool) \<Rightarrow> bool \<Rightarrow> tables \<Rightarrow> string \<Rightarrow> string \<times> Table \<Rightarrow> event list" where
  "tableChanges execs autoNotify oldTables s nt =
     (let (name, table) = nt
      in case map_of oldTables name of
           None \<Rightarrow> NewTable s name # (if autoNotify then ensureNotifyTrigger execs s name else [])
         | Some old \<Rightarrow> detectColumnChanges s name old table)"

definition detectChanges ::
    "(event \<Rightarrow> bool) \<Rightarrow> bool \<Rightarrow> SchemaStore \<Rightarrow> table_maps \<Rightarrow> function_maps \<Rightarrow> event list" where
  "detectChanges execs autoNotify store newSchemas newFunctions =
     (let oldTables = AllTables store; oldFunctions = AllFunctions store
      in concat (map (\<lambda>(s, tables). concat (map (tableChanges execs autoNotify oldTables s) tables)) newSchemas) @
         map (\<lambda>(name, _). TableRemoved name)
           (filter (\<lambda>(name, _). \<not> list_ex (\<lambda>(_, tables). map_of tables name \<noteq> None) newSchemas) oldTables) @
         concat (map (\<lambda>(s, funcs). map (\<lambda>(name, _). NewFunction s name)
           (filter (\<lambda>(name, _). map_of oldFunctions name = None) funcs)) newFunctions) @
         map (\<lambda>(name, _). FunctionRemoved name)
           (filter (\<lambda>(name, _). \<not> list_ex (\<lambda>(_, funcs). map_of funcs name \<noteq> None) newFunctions) oldFunctions))"

definition refresh ::
    "(event \<Rightarrow> bool) \<Rightarrow> bool \<Rightarrow> string list \<Rightarrow> (string \<Rightarrow> catalog) \<Rightarrow> SchemaStore \<Rightarrow> SchemaStore \<times> event list" where
  "refresh execs autoNotify schemas cats store =
     (let (newSchemas, newFunctions) = refreshMaps cats schemas;
          events = detectChanges execs autoNotify store newSchemas newFunctions
      in (ReplaceFunctions newFunctions (ReplaceTables newSchemas store), events))"

section \<open>Startup\<close>

text \<open>
  \<^verbatim>\<open>main\<close>: every schema is introspected into the store; an error with the tables ends the program
  (\<open>Error\<close>), an error with the functions is logged only.
\<close>

definition loadSchema :: "(string \<Rightarrow> catalog) \<Rightarrow> string \<Rightarrow> SchemaStore \<Rightarrow> SchemaStore outcome" where
  "loadSchema cats s0 store =
     (let s = TrimSpace s0
      in obind (Introspect (cats s)) (\<lambda>schemaData.
           let store1 = fold (AddTable s) (map snd schemaData) store
           in case IntrospectFunctions (cats s) s of
                Ok funcs \<Rightarrow> Ok (fold (AddFunction s) (map snd funcs) store1)
              | _ \<Rightarrow> Ok store1))"

fun loadSchemas :: "(string \<Rightarrow> catalog) \<Rightarrow> string list \<Rightarrow> SchemaStore \<Rightarrow> SchemaStore outcome" where
  "loadSchemas cats [] store = Ok store"
| "loadSchemas cats (s # ss) store = obind (loadSchema cats s store) (loadSchemas cats ss)"

definition defaultSchema :: "string list \<Rightarrow> string" where
  "defaultSchema schemas = (if 0 < length schemas then TrimSpace (hd schemas) else ''public'')"

definition startup :: "(string \<Rightarrow> catalog) \<Rightarrow> string list \<Rightarrow> SchemaStore outcome" where
  "startup cats schemas = loadSchemas cats schemas (NewSchemaStore (defaultSchema schemas))"

text \<open>
  \<^verbatim>\<open>retryPingDB\<close>: \<open>ping i\<close> is the error of the \<open>i\<close>-th call.  The result is the last error, if no
  call succeeded, and the numbers of calls and pauses.
\<close>

function retryPing ::
    "(int \<Rightarrow> string option) \<Rightarrow> int \<Rightarrow> int \<Rightarrow> bool \<Rightarrow> string option \<Rightarrow> nat \<Rightarrow> string option \<times> int \<times> nat" where
  "retryPing ping attempts i delay lastErr sleeps =
     (if i < attempts then
        (case ping i of
           None \<Rightarrow> (None, i + 1, sleeps)
         | Some e \<Rightarrow> retryPing ping attempts (i + 1) delay (Some e)
                       (if i < attempts - 1 \<and> delay then sleeps + 1 else sleeps))
      else (lastErr, i, sleeps))"
  by pat_completeness auto
termination
  by (relation "measure (\<lambda>(_, attempts, i, _). nat (attempts - i))") auto

declare retryPing.simps [simp del]

definition retryPingDB :: "(int \<Rightarrow> string option) \<Rightarrow> int \<Rightarrow> bool \<Rightarrow> string option \<times> int \<times> nat" where
  "retryPingDB ping attempts delay = retryPing ping attempts 0 delay None 0"

section \<open>The maps of a refresh\<close>

text \<open>The tables of one schema, when its catalogue can be read.\<close>

definition schema_tables :: "(string \<Rightarrow> catalog) \<Rightarrow> string \<Rightarrow> tables option" where
  "schema_tables cats s = (case Introspect (cats s) of Ok ts \<Rightarrow> Some ts | _ \<Rightarrow> None)"

lemma refreshSchema_tables:
  "map_of (fst (refreshSchema cats s0 acc)) s =
     (if s = trimSpace s0 \<and> schema_tables cats s \<noteq> None then schema_tables cats s else map_of (fst acc) s)"
  by (cases acc) (auto simp: refreshSchema_def schema_tables_def Let_def update_conv' split: outcome.splits)

lemma refreshMaps_fold:
  "map_of (fst (fold (refreshSchema cats) ss acc)) s =
     (if s \<in> set (map trimSpace ss) \<and> schema_tables cats s \<noteq> None then schema_tables cats s else map_of (fst acc) s)"
  by (induction ss arbitrary: acc) (auto simp: refreshSchema_tables)

lemma refreshMaps_tables:
  "map_of (fst (refreshMaps cats schemas)) s =
     (if s \<in> set (map trimSpace schemas) then schema_tables cats s else None)"
  by (auto simp: refreshMaps_def refreshMaps_fold)

lemma ss_refresh:
  "ss_schemas (fst (refresh execs auto schemas cats store)) = fst (refreshMaps cats schemas)"
  "ss_functions (fst (refresh execs auto schemas cats store)) = snd (refreshMaps cats schemas)"
  "ss_defaultSchema (fst (refresh execs auto schemas cats store)) = ss_defaultSchema store"
  by (simp_all add: refresh_def Let_def ReplaceTables_def ReplaceFunctions_def split: prod.split)

lemma IntrospectFunctions_distinct:
  "IntrospectFunctions cat s = Ok fs \<Longrightarrow> distinct (map fst fs)"
proof -
  have "eachRow ctx (addFunctionRow s) rows acc = Ok fs \<Longrightarrow> distinct (map fst acc) \<Longrightarrow> distinct (map fst fs)"
    for ctx rows acc
  proof (induction rows arbitrary: acc)
    case (Cons x rows)
    then show ?case by (cases x) (auto simp: addFunctionRow_def Let_def distinct_update split: if_splits)
  qed simp
  then show "IntrospectFunctions cat s = Ok fs \<Longrightarrow> distinct (map fst fs)"
    by (auto simp: IntrospectFunctions_def runQuery_def obind_Ok_iff split: sum.splits option.splits)
qed

lemma refreshSchema_keys:
  "keys_ok (fst acc) \<Longrightarrow> keys_ok (snd acc) \<Longrightarrow>
   keys_ok (fst (refreshSchema cats s0 acc)) \<and> keys_ok (snd (refreshSchema cats s0 acc))"
proof -
  have "Introspect (cats s) = Ok ts \<Longrightarrow> distinct (map fst ts)" for s ts
    using Introspect_wf [of "cats s" ts] by (simp add: tables_wf_def)
  then show "keys_ok (fst acc) \<Longrightarrow> keys_ok (snd acc) \<Longrightarrow>
      keys_ok (fst (refreshSchema cats s0 acc)) \<and> keys_ok (snd (refreshSchema cats s0 acc))"
    by (cases acc) (auto simp: refreshSchema_def Let_def split: outcome.splits
        intro!: keys_ok_update IntrospectFunctions_distinct)
qed

lemma refreshMaps_keys: "keys_ok (fst (refreshMaps cats schemas)) \<and> keys_ok (snd (refreshMaps cats schemas))"
proof -
  have "keys_ok (fst acc) \<Longrightarrow> keys_ok (snd acc) \<Longrightarrow>
      keys_ok (fst (fold (refreshSchema cats) schemas acc)) \<and> keys_ok (snd (fold (refreshSchema cats) schemas acc))" for acc
    by (induction schemas arbitrary: acc) (use refreshSchema_keys in auto)
  then show ?thesis by (simp add: refreshMaps_def)
qed

section \<open>The schema name of a table\<close>

text \<open>Introspection leaves the schema name of a table empty; only \<^verbatim>\<open>AddTable\<close> sets it.\<close>

definition nameless :: "tables \<Rightarrow> bool" where
  "nameless ts \<longleftrightarrow> (\<forall>(k, t) \<in> set ts. tbl_SchemaName t = [])"

lemma nameless_update: "nameless ts \<Longrightarrow> tbl_SchemaName t = [] \<Longrightarrow> nameless (AList.update k t ts)"
  using set_AList_update [of k t ts] by (fastforce simp: nameless_def)

lemma nameless_change:
  "nameless ts \<Longrightarrow> (\<And>t. tbl_SchemaName (f t) = tbl_SchemaName t) \<Longrightarrow> nameless (changeTable k f ts)"
  by (auto simp: changeTable_def split: option.splits intro!: nameless_update dest!: map_of_SomeD)
    (auto simp: nameless_def)

lemma changeColumn_SchemaName [simp]: "tbl_SchemaName (changeColumn k f t) = tbl_SchemaName t"
  by (simp add: changeColumn_def split: option.splits)

lemma nameless_lookup: "nameless ts \<Longrightarrow> map_of ts k = Some t \<Longrightarrow> tbl_SchemaName t = []"
  by (auto simp: nameless_def dest: map_of_SomeD)

interpretation columns_nameless: table_pass addTableColumn nameless
  by unfold_locales (auto simp: addTableColumn_def Let_def putColumn_def newTable_def
      split: option.splits intro!: nameless_update dest: nameless_lookup)

interpretation views_nameless: table_pass addViewColumn nameless
  by unfold_locales (auto simp: addViewColumn_def Let_def putColumn_def newTable_def
      split: option.splits intro!: nameless_update dest: nameless_lookup)

interpretation primaryKeys_nameless: table_pass addPrimaryKey nameless
  by unfold_locales (auto simp: addPrimaryKey_def Let_def split: option.splits intro!: nameless_change)

interpretation foreignKeys_nameless: table_pass addForeignKey nameless
  by unfold_locales (auto simp: addForeignKey_def intro!: nameless_change)

interpretation uniques_nameless: table_pass addUnique nameless
  by unfold_locales (auto simp: addUnique_def Let_def intro!: nameless_change)

interpretation permissions_nameless: table_pass addPermissions nameless
  by unfold_locales (auto simp: addPermissions_def Let_def split: prod.splits intro!: nameless_change)

lemma Introspect_nameless:
  assumes "Introspect cat = Ok ts"
  shows "nameless ts"
proof -
  from assms obtain ts1 ts2 ts3 ts4 ts5 where
    t: "introspectTables (cat_columns cat) [] = Ok ts1" "introspectViews (cat_viewColumns cat) ts1 = Ok ts2"
      "introspectPrimaryKeys (cat_primaryKeys cat) ts2 = Ok ts3" "introspectForeignKeys (cat_foreignKeys cat) ts3 = Ok ts4"
      "introspectUniqueConstraints (cat_uniques cat) ts4 = Ok ts5"
    and ts: "ts = introspectPermissions (cat_comments cat) ts5"
    by (auto simp: Introspect_def obind_Ok_iff)
  have "nameless []" by (simp add: nameless_def)
  from columns_nameless.pass_inv [OF t(1) [unfolded introspectTables_def] this]
  have "nameless ts1" .
  from views_nameless.pass_inv [OF t(2) [unfolded introspectViews_def] this]
  have "nameless ts2" .
  from primaryKeys_nameless.pass_inv [OF t(3) [unfolded introspectPrimaryKeys_def] this]
  have "nameless ts3" .
  from foreignKeys_nameless.pass_inv [OF t(4) [unfolded introspectForeignKeys_def] this]
  have "nameless ts4" .
  from uniques_nameless.pass_inv [OF t(5) [unfolded introspectUniqueConstraints_def] this]
  have "nameless ts5" .
  then show ?thesis
    unfolding ts introspectPermissions_def by (auto split: sum.splits intro: permissions_nameless.fold_inv)
qed

section \<open>The store after startup\<close>

lemma funcs_keep_tables [simp]:
  "ss_schemas (fold (AddFunction s) fs store) = ss_schemas store"
  "ss_defaultSchema (fold (AddFunction s) fs store) = ss_defaultSchema store"
  by (induction fs arbitrary: store) (simp_all add: AddFunction_def)

lemma GetTable_funcs: "GetTable (fold (AddFunction s) fs store) = GetTable store"
  by (simp add: fun_eq_iff GetTable_def)

lemma get_added_tables:
  assumes "tables_wf ts" "s \<noteq> []"
  shows "GetTable (fold (AddTable s) (map snd ts) store) s n =
    (case map_of ts n of Some t \<Rightarrow> Some (t\<lparr>tbl_SchemaName := s\<rparr>) | None \<Rightarrow> GetTable store s n)"
proof -
  have "map (\<lambda>x. tbl_Name (snd x)) ts = map fst ts"
    using assms(1) by (intro map_cong) (auto simp: tables_wf_def)
  then have names: "map tbl_Name (map snd ts) = map fst ts" by (simp add: comp_def)
  from assms(1) have d: "distinct (map tbl_Name (map snd ts))"
    unfolding names tables_wf_def by blast
  show ?thesis
  proof (cases "map_of ts n")
    case (Some t)
    then have "t \<in> set (map snd ts)" "tbl_Name t = n"
      using tables_wf_lookup [OF assms(1) Some] by (force dest: map_of_SomeD)+
    with tables.get_all_distinct [OF assms(2) d] Some show ?thesis by fastforce
  next
    case None
    then have "n \<notin> set (map tbl_Name (map snd ts))" unfolding names by (simp add: map_of_eq_None_iff)
    then have "map_of (map (\<lambda>v. (tbl_Name v, v\<lparr>tbl_SchemaName := s\<rparr>)) (rev (map snd ts))) n = None"
      by (auto simp: map_of_eq_None_iff image_iff)
    then show ?thesis
      using None by (simp add: tables.get_add_all [OF assms(2)] map_add_def)
  qed
qed

lemma loadSchema_tables:
  assumes "loadSchema cats s0 store = Ok store'" "s \<noteq> []"
  shows "GetTable store' s n =
    (case Option.bind (if s = TrimSpace s0 then schema_tables cats s else None) (\<lambda>ts. map_of ts n) of
       Some t \<Rightarrow> Some (t\<lparr>tbl_SchemaName := s\<rparr>) | None \<Rightarrow> GetTable store s n)"
proof -
  let ?s = "TrimSpace s0"
  from assms(1) obtain ts where ts: "Introspect (cats ?s) = Ok ts"
    by (auto simp: loadSchema_def Let_def obind_Ok_iff)
  have g: "GetTable store' = GetTable (fold (AddTable ?s) (map snd ts) store)"
    using assms(1) ts
    by (cases "IntrospectFunctions (cats ?s) ?s") (auto simp: loadSchema_def Let_def GetTable_funcs)
  have wf: "tables_wf ts" by (rule Introspect_wf [OF ts])
  show ?thesis
  proof (cases "s = ?s")
    case True
    then show ?thesis
      using get_added_tables [OF wf assms(2)] ts by (simp add: g schema_tables_def)
  next
    case False
    then show ?thesis
      using tables.get_add_all_other [OF assms(2) False] by (simp add: g)
  qed
qed

lemma loadSchemas_tables:
  "loadSchemas cats schemas store = Ok store' \<Longrightarrow> s \<noteq> [] \<Longrightarrow>
   GetTable store' s n =
     (case Option.bind (if s \<in> set (map TrimSpace schemas) then schema_tables cats s else None) (\<lambda>ts. map_of ts n) of
       Some t \<Rightarrow> Some (t\<lparr>tbl_SchemaName := s\<rparr>) | None \<Rightarrow> GetTable store s n)"
proof (induction schemas arbitrary: store)
  case Nil
  then show ?case by simp
next
  case (Cons s0 schemas)
  from Cons.prems(1) obtain store1 where 1: "loadSchema cats s0 store = Ok store1"
    and 2: "loadSchemas cats schemas store1 = Ok store'" by (auto simp: obind_Ok_iff)
  show ?case
    using Cons.IH [OF 2 Cons.prems(2)] loadSchema_tables [OF 1 Cons.prems(2), of n]
    by (auto split: option.splits if_splits)
qed

section \<open>Properties\<close>

lemma GetTable_maps: "s \<noteq> [] \<Longrightarrow> GetTable st s n = Option.bind (map_of (ss_schemas st) s) (\<lambda>ts. map_of ts n)"
  by (auto simp: GetTable_def get2_def split: option.splits)

text \<open>
   A refresh replaces the store.  Whatever the store held, afterwards a lookup under a schema
  finds exactly the tables that the catalogue of that schema has now, if the schema is one of the
  configured names (cut of their spaces) and its catalogue could be read, and nothing otherwise;
  the maps keep distinct keys, the default schema is kept.  A schema that cannot be read loses
  its tables.
\<close>

lemma refresh_replaces_tables:
  assumes "s \<noteq> []"
  shows "let st = fst (refresh execs auto schemas cats store) in
    GetTable st s n =
      (if s \<in> set (map trimSpace schemas)
       then Option.bind (schema_tables cats s) (\<lambda>ts. map_of ts n) else None) \<and>
    store_ok st \<and> ss_defaultSchema st = ss_defaultSchema store"
  using refreshMaps_keys [of cats schemas]
  by (simp add: Let_def GetTable_maps [OF assms] ss_refresh refreshMaps_tables store_ok_def)

lemma refresh_replaces_tables_example:
  "GetTable (fst (refresh (\<lambda>_. True) True ['' app ''] (\<lambda>_. sample_catalog) (NewSchemaStore ''app''))) ''app'' ''posts''
     = Some posts_introspected"
proof -
  have t: "schema_tables (\<lambda>_. sample_catalog) ''app'' = Some [(''posts'', posts_introspected)]"
    unfolding schema_tables_def by code_simp
  show ?thesis
    using refresh_replaces_tables [of "''app''" "\<lambda>_. True" True "['' app '']" "\<lambda>_. sample_catalog" "NewSchemaStore ''app''"]
    by (simp add: Let_def t trimSpace_def)
qed

lemma startup_lookup:
  assumes "startup cats schemas = Ok st" "s \<noteq> []"
  shows "GetTable st s n =
    map_option (\<lambda>t. t\<lparr>tbl_SchemaName := s\<rparr>)
      (Option.bind (if s \<in> set (map TrimSpace schemas) then schema_tables cats s else None) (\<lambda>ts. map_of ts n))"
proof -
  have "GetTable (NewSchemaStore (defaultSchema schemas)) s n = None"
    by (simp add: NewSchemaStore_def GetTable_def get2_def)
  then show ?thesis
    using loadSchemas_tables [OF assms(1) [unfolded startup_def] assms(2), of n]
    by (simp split: option.splits)
qed

lemma schema_tables_lookup:
  assumes "schema_tables cats s = Some ts" "map_of ts n = Some t"
  shows "tbl_Name t = n \<and> tbl_SchemaName t = []"
proof -
  from assms(1) have i: "Introspect (cats s) = Ok ts" by (auto simp: schema_tables_def split: outcome.splits)
  show ?thesis
    using tables_wf_lookup [OF Introspect_wf [OF i] assms(2)] nameless_lookup [OF Introspect_nameless [OF i] assms(2)]
    by simp
qed

text \<open>
   Startup either ends with an error or loads every configured schema: a lookup under a
  schema finds exactly the tables of its catalogue, each stamped with the name of its schema, so
  that its qualified name carries the schema unless that is \<^verbatim>\<open>public\<close>.
\<close>

lemma startup_tables:
  assumes "startup cats schemas = Ok st" "s \<noteq> []"
  shows "GetTable st s n =
      map_option (\<lambda>t. t\<lparr>tbl_SchemaName := s\<rparr>)
        (Option.bind (if s \<in> set (map TrimSpace schemas) then schema_tables cats s else None) (\<lambda>ts. map_of ts n)) \<and>
    (case GetTable st s n of None \<Rightarrow> True
     | Some t \<Rightarrow> QualifiedName t = (if s = ''public'' then n else s @ ''.'' @ n))"
proof -
  let ?t = "Option.bind (if s \<in> set (map TrimSpace schemas) then schema_tables cats s else None) (\<lambda>ts. map_of ts n)"
  have "?t = Some t \<Longrightarrow> tbl_Name t = n" for t
    using schema_tables_lookup [of cats s] by (auto simp: Option.bind_eq_Some_conv split: if_splits)
  then show ?thesis
    using startup_lookup [OF assms, of n] assms(2) by (cases ?t) (auto simp: QualifiedName_def)
qed

lemma startup_tables_example:
  "QualifiedName (posts_introspected\<lparr>tbl_SchemaName := ''app''\<rparr>) = ''app.posts''"
proof -
  define st where "st = fold (AddTable ''app'') [posts_introspected] (NewSchemaStore ''app'')"
  have t: "Introspect sample_catalog = Ok [(''posts'', posts_introspected)]"
    "IntrospectFunctions sample_catalog ''app'' = Ok []"
    by code_simp+
  then have "startup (\<lambda>_. sample_catalog) ['' app ''] = Ok st"
    by (simp add: startup_def loadSchema_def Let_def defaultSchema_def st_def TrimSpace_def trim_with_def is_space_def)
  from startup_tables [OF this, of "''app''" "''posts''"] show ?thesis
    by (auto simp: t schema_tables_def TrimSpace_def trim_with_def is_space_def)
qed

text \<open>
   A refresh forgets the schema of every table: \<^verbatim>\<open>refresh\<close> stores what \<^verbatim>\<open>Introspect\<close> returns without
  going through \<^verbatim>\<open>AddTable\<close>, so that the qualified name of a table, which the statements of the
  handlers use, is its bare name from then on, also outside \<^verbatim>\<open>public\<close>.
\<close>

lemma refresh_forgets_schema_name:
  assumes "s \<noteq> []" "GetTable (fst (refresh execs auto schemas cats store)) s n = Some t"
  shows "tbl_SchemaName t = [] \<and> QualifiedName t = n"
proof -
  from assms(2) obtain ts where "schema_tables cats s = Some ts" "map_of ts n = Some t"
    using refreshMaps_tables [of cats schemas s]
    by (auto simp: GetTable_maps [OF assms(1)] ss_refresh Option.bind_eq_Some_conv split: if_splits)
  from schema_tables_lookup [OF this] show ?thesis by (simp add: QualifiedName_def)
qed

lemma refresh_forgets_schema_name_example: "QualifiedName posts_introspected = ''posts''"
proof -
  have t: "schema_tables (\<lambda>_. sample_catalog) ''app'' = Some [(''posts'', posts_introspected)]"
    unfolding schema_tables_def by code_simp
  have "GetTable (fst (refresh (\<lambda>_. True) True [''app''] (\<lambda>_. sample_catalog) (NewSchemaStore ''app''))) ''app'' ''posts''
      = Some posts_introspected"
    by (simp add: GetTable_maps ss_refresh refreshMaps_tables t trimSpace_def)
  from refresh_forgets_schema_name [OF _ this] show ?thesis by simp
qed

section \<open>Waiting for the database\<close>

lemma retryPing_find:
  "i \<le> attempts \<Longrightarrow>
   (let (res, calls, pauses) = retryPing ping attempts i delay lastErr sleeps in (res, calls)) =
     (case find (\<lambda>j. ping j = None) [i..attempts - 1] of
        Some j \<Rightarrow> (None, j + 1)
      | None \<Rightarrow> (if i = attempts then lastErr else ping (attempts - 1), attempts))"
proof (induction ping attempts i delay lastErr sleeps rule: retryPing.induct)
  case (1 ping attempts i delay lastErr sleeps)
  show ?case
  proof (cases "i < attempts")
    case False
    then show ?thesis using 1(2) by (subst retryPing.simps) simp
  next
    case True
    then have "[i..attempts - 1] = i # [i + 1..attempts - 1]" by (simp add: upto_rec1)
    then show ?thesis
      using True 1(1) [OF True]
      by (cases "ping i"; cases "i + 1 = attempts") (auto simp: retryPing.simps [of ping attempts i])
  qed
qed

text \<open>
  C21.  \<^verbatim>\<open>retryPingDB\<close> stops at the first ping that succeeds, and otherwise makes \<open>attempts\<close> pings and
  returns the error of the last.  With no attempt it makes no ping and reports success.
\<close>

theorem retryPingDB_spec:
  "(let (res, calls, pauses) = retryPingDB ping attempts delay in (res, calls)) =
     (case find (\<lambda>j. ping j = None) [0..attempts - 1] of
        Some j \<Rightarrow> (None, j + 1)
      | None \<Rightarrow> (if attempts \<le> 0 then (None, 0) else (ping (attempts - 1), attempts)))"
proof (cases "attempts \<le> 0")
  case True
  then show ?thesis by (simp add: retryPingDB_def retryPing.simps)
next
  case False
  then show ?thesis
    using retryPing_find [of 0 attempts ping delay None 0] by (simp add: retryPingDB_def)
qed

end
