(* ===== verification/Hub.thy ===== *)
theory Hub
  imports Watcher "HOL-Library.Sublist" "HOL-Library.Multiset"
begin

text \<open>
  \<^verbatim>\<open>internal/notification/hub.go\<close>, \<^verbatim>\<open>listener.go\<close> and \<^verbatim>\<open>internal/api/sse.go\<close>: the hub hands the
  notifications of the database to the clients that stream them.

  A \<^verbatim>\<open>*Client\<close> is a number into the store of the clients made so far.  The hub holds its lock in
  \<^verbatim>\<open>Subscribe\<close>, \<^verbatim>\<open>Unsubscribe\<close> and the first half of \<^verbatim>\<open>Broadcast\<close>, so each is one step; the second half
  of \<^verbatim>\<open>Broadcast\<close> is one step per client, and other steps may come between.
\<close>

section \<open>Clients and hub\<close>

record Event =
  ev_Channel :: string
  ev_Payload :: string

record Client =
  cl_C :: "Event list"
  cl_quit :: bool

definition capacity :: nat where
  "capacity = 64"

definition NewClient :: Client where
  "NewClient = \<lparr>cl_C = [], cl_quit = False\<rparr>"

definition Close :: "Client \<Rightarrow> Client" where
  "Close c = c\<lparr>cl_quit := True\<rparr>"

text \<open>\<open>hub_store\<close> and \<open>hub_next\<close> are the memory of the clients: number \<open>i\<close> is in use when \<open>i < hub_next h\<close>.\<close>

record Hub =
  hub_clients :: "(string \<times> nat list) list"
  hub_store :: "nat \<Rightarrow> Client"
  hub_next :: nat

definition NewHub :: Hub where
  "NewHub = \<lparr>hub_clients = [], hub_store = (\<lambda>_. NewClient), hub_next = 0\<rparr>"

definition members :: "Hub \<Rightarrow> string \<Rightarrow> nat list" where
  "members h channel = (case map_of (hub_clients h) channel of None \<Rightarrow> [] | Some cs \<Rightarrow> cs)"

definition Subscribe :: "string \<Rightarrow> Hub \<Rightarrow> nat \<times> Hub" where
  "Subscribe channel h =
     (let client = hub_next h
      in (client, h\<lparr>hub_clients := AList.update channel (members h channel @ [client]) (hub_clients h),
                    hub_store := (hub_store h)(client := NewClient), hub_next := client + 1\<rparr>))"

definition Unsubscribe :: "string \<Rightarrow> nat \<Rightarrow> Hub \<Rightarrow> Hub" where
  "Unsubscribe channel client h =
     (let clients' = (case map_of (hub_clients h) channel of
                        None \<Rightarrow> hub_clients h
                      | Some cs \<Rightarrow>
                          let cs' = removeAll client cs
                          in if cs' = [] then AList.delete channel (hub_clients h)
                             else AList.update channel cs' (hub_clients h))
      in h\<lparr>hub_clients := clients', hub_store := (hub_store h)(client := Close (hub_store h client))\<rparr>)"

text \<open>
  The \<^verbatim>\<open>select\<close> of \<^verbatim>\<open>Broadcast\<close> for one client: send when the buffer has room, unsubscribe when the
  client has quit or the buffer is full.  When both are possible Go picks one at random: \<open>quitFirst\<close>.
\<close>

definition offer :: "bool \<Rightarrow> Event \<Rightarrow> nat \<Rightarrow> Hub \<Rightarrow> Hub" where
  "offer quitFirst event client h =
     (let c = hub_store h client
      in if length (cl_C c) < capacity \<and> \<not> (cl_quit c \<and> quitFirst)
         then h\<lparr>hub_store := (hub_store h)(client := c\<lparr>cl_C := cl_C c @ [event]\<rparr>)\<rparr>
         else Unsubscribe (ev_Channel event) client h)"

text \<open>A broadcast with nothing in between; \<open>ord\<close> is the order in which the set of clients is visited.\<close>

definition Broadcast :: "(nat list \<Rightarrow> nat list) \<Rightarrow> Event \<Rightarrow> Hub \<Rightarrow> Hub" where
  "Broadcast ord event h = fold (offer False event) (ord (members h (ev_Channel event))) h"

definition ClientCount :: "Hub \<Rightarrow> nat" where
  "ClientCount h = sum_list (map (length \<circ> snd) (hub_clients h))"

section \<open>Channels\<close>

definition channelName :: "string \<Rightarrow> string \<Rightarrow> string" where
  "channelName schema table = ''rest_'' @ schema @ ''_'' @ table"

definition buildChannels :: "string list \<Rightarrow> (string \<Rightarrow> string list) \<Rightarrow> string list" where
  "buildChannels schemas tables =
     fold (\<lambda>s channels. fold (\<lambda>table channels.
         let ch = channelName s table in if ch \<in> set channels then channels else channels @ [ch])
       (tables s) channels) schemas []"

text \<open>\<^verbatim>\<open>main\<close> gives the listener the tables of the configured schemas as they are at startup.\<close>

definition tablesBySchema :: "SchemaStore \<Rightarrow> string list \<Rightarrow> string \<Rightarrow> string list" where
  "tablesBySchema store schemas s =
     concat (map (\<lambda>s'. if s' = s then map fst (TablesBySchema store s') else []) schemas)"

text \<open>\<^verbatim>\<open>HandleSSE\<close>: the channel of a request, and what is written for an event.\<close>

definition sseChannel :: "string \<Rightarrow> string \<Rightarrow> string" where
  "sseChannel schemaName tableName =
     channelName (if schemaName = [] then ''public'' else schemaName) tableName"

definition sseText :: "string \<Rightarrow> Event \<Rightarrow> string" where
  "sseText tableName event =
     ''event: '' @ tableName @ CHR 0x0A # ''data: '' @ ev_Payload event @ [CHR 0x0A, CHR 0x0A]"

definition sseConnected :: "string \<Rightarrow> string" where
  "sseConnected channel =
     ''event: connected'' @ CHR 0x0A # ''data: {'' @ CHR 0x22 # ''channel'' @ CHR 0x22 # '':'' @ CHR 0x22 # channel @
     CHR 0x22 # ''}'' @ [CHR 0x0A, CHR 0x0A]"

section \<open>The system\<close>

text \<open>
  One request handler per client: its channel, what it has written, and whether it still runs.
  \<open>sy_flight\<close> is the broadcast under way, with the clients it has still to offer the event to; there
  is one listener, which calls \<^verbatim>\<open>Broadcast\<close> for one notification after the other.  \<open>sy_log\<close> is the
  history of the broadcasts and \<open>st_from\<close> its length when the client subscribed.
\<close>

record stream =
  st_channel :: string
  st_from :: nat
  st_out :: "Event list"
  st_running :: bool

record system =
  sy_hub :: Hub
  sy_flight :: "(Event \<times> nat list) option"
  sy_log :: "Event list"
  sy_streams :: "nat \<Rightarrow> stream"

definition idle :: system where
  "idle = \<lparr>sy_hub = NewHub, sy_flight = None, sy_log = [],
           sy_streams = (\<lambda>_. \<lparr>st_channel = [], st_from = 0, st_out = [], st_running = False\<rparr>)\<rparr>"

definition do_subscribe :: "string \<Rightarrow> system \<Rightarrow> system" where
  "do_subscribe channel s =
     (let (c, h) = Subscribe channel (sy_hub s)
      in s\<lparr>sy_hub := h, sy_streams := (sy_streams s)(c :=
           \<lparr>st_channel = channel, st_from = length (sy_log s), st_out = [], st_running = True\<rparr>)\<rparr>)"

definition do_notify :: "Event \<Rightarrow> nat list \<Rightarrow> system \<Rightarrow> system" where
  "do_notify e cs s = s\<lparr>sy_flight := Some (e, cs), sy_log := sy_log s @ [e]\<rparr>"

definition do_offer :: "bool \<Rightarrow> Event \<Rightarrow> nat \<Rightarrow> nat list \<Rightarrow> system \<Rightarrow> system" where
  "do_offer q e c cs s = s\<lparr>sy_hub := offer q e c (sy_hub s), sy_flight := Some (e, cs)\<rparr>"

text \<open>The loop of \<^verbatim>\<open>HandleSSE\<close>: take an event from the buffer and write it, or return and unsubscribe.\<close>

definition do_write :: "nat \<Rightarrow> system \<Rightarrow> system" where
  "do_write c s =
     (let h = sy_hub s; cl = hub_store h c; st = sy_streams s c
      in s\<lparr>sy_hub := h\<lparr>hub_store := (hub_store h)(c := cl\<lparr>cl_C := tl (cl_C cl)\<rparr>)\<rparr>,
           sy_streams := (sy_streams s)(c := st\<lparr>st_out := st_out st @ [hd (cl_C cl)]\<rparr>)\<rparr>)"

definition do_leave :: "nat \<Rightarrow> system \<Rightarrow> system" where
  "do_leave c s =
     (let st = sy_streams s c
      in s\<lparr>sy_hub := Unsubscribe (st_channel st) c (sy_hub s),
           sy_streams := (sy_streams s)(c := st\<lparr>st_running := False\<rparr>)\<rparr>)"

inductive sse_step :: "system \<Rightarrow> system \<Rightarrow> bool" where
  sse_subscribe: "sse_step s (do_subscribe channel s)"
| sse_notify: "sy_flight s = None \<Longrightarrow> distinct cs \<Longrightarrow> set cs = set (members (sy_hub s) (ev_Channel e)) \<Longrightarrow>
    sse_step s (do_notify e cs s)"
| sse_offer: "sy_flight s = Some (e, c # cs) \<Longrightarrow> sse_step s (do_offer q e c cs s)"
| sse_finish: "sy_flight s = Some (e, []) \<Longrightarrow> sse_step s (s\<lparr>sy_flight := None\<rparr>)"
| sse_write: "st_running (sy_streams s c) \<Longrightarrow> cl_C (hub_store (sy_hub s) c) \<noteq> [] \<Longrightarrow> sse_step s (do_write c s)"
| sse_leave: "st_running (sy_streams s c) \<Longrightarrow> sse_step s (do_leave c s)"

section \<open>The invariant of the hub\<close>

text \<open>
  \<open>chan\<close> gives the channel of each client.  The registered clients are exactly those that have not
  been told to quit, each under its own channel; a channel without clients is not kept.
\<close>

definition hub_ok :: "(nat \<Rightarrow> string) \<Rightarrow> Hub \<Rightarrow> bool" where
  "hub_ok chan h \<longleftrightarrow>
     distinct (map fst (hub_clients h)) \<and> (\<forall>(k, cs) \<in> set (hub_clients h). cs \<noteq> [] \<and> distinct cs) \<and>
     (\<forall>k c. c \<in> set (members h k) \<longleftrightarrow> c < hub_next h \<and> \<not> cl_quit (hub_store h c) \<and> chan c = k) \<and>
     (\<forall>c. length (cl_C (hub_store h c)) \<le> capacity)"

lemma members_Subscribe:
  "members (snd (Subscribe ch h)) k = (if k = ch then members h ch @ [hub_next h] else members h k)"
  by (simp add: Subscribe_def members_def Let_def update_conv')

lemma members_Unsubscribe:
  "members (Unsubscribe ch c h) k = (if k = ch then removeAll c (members h ch) else members h k)"
  by (auto simp: Unsubscribe_def members_def Let_def update_conv' delete_conv' split: option.splits)

lemma hub_ok_members: "hub_ok chan h \<Longrightarrow> distinct (members h k)"
  by (fastforce simp: hub_ok_def members_def split: option.splits dest: map_of_SomeD)

lemma Unsubscribe_fields [simp]:
  "hub_next (Unsubscribe ch c h) = hub_next h"
  "hub_store (Unsubscribe ch c h) = (hub_store h)(c := Close (hub_store h c))"
  by (simp_all add: Unsubscribe_def Let_def)

lemma Subscribe_fields [simp]:
  "fst (Subscribe ch h) = hub_next h" "hub_next (snd (Subscribe ch h)) = hub_next h + 1"
  "hub_store (snd (Subscribe ch h)) = (hub_store h)(hub_next h := NewClient)"
  by (simp_all add: Subscribe_def Let_def)

lemma hub_okD:
  assumes "hub_ok chan h"
  shows "distinct (map fst (hub_clients h))" "(k, cs) \<in> set (hub_clients h) \<Longrightarrow> cs \<noteq> [] \<and> distinct cs"
    "c \<in> set (members h k) \<longleftrightarrow> c < hub_next h \<and> \<not> cl_quit (hub_store h c) \<and> chan c = k"
    "length (cl_C (hub_store h c)) \<le> capacity"
proof -
  show "c \<in> set (members h k) \<longleftrightarrow> c < hub_next h \<and> \<not> cl_quit (hub_store h c) \<and> chan c = k"
    using assms unfolding hub_ok_def by blast
qed (use assms in \<open>auto simp: hub_ok_def\<close>)

lemma hub_okI:
  assumes "distinct (map fst (hub_clients h))" "\<And>k cs. (k, cs) \<in> set (hub_clients h) \<Longrightarrow> cs \<noteq> [] \<and> distinct cs"
    "\<And>c k. c \<in> set (members h k) \<longleftrightarrow> c < hub_next h \<and> \<not> cl_quit (hub_store h c) \<and> chan c = k"
    "\<And>c. length (cl_C (hub_store h c)) \<le> capacity"
  shows "hub_ok chan h"
  unfolding hub_ok_def using assms by (intro conjI allI) blast+

lemma hub_ok_Subscribe:
  assumes "hub_ok chan h"
  shows "hub_ok (chan(hub_next h := ch)) (snd (Subscribe ch h))"
proof (rule hub_okI)
  have m: "hub_next h \<notin> set (members h ch)" unfolding hub_okD(3) [OF assms] by simp
  show "distinct (map fst (hub_clients (snd (Subscribe ch h))))"
    using hub_okD(1) [OF assms] by (simp add: Subscribe_def Let_def distinct_update)
  have d: "distinct (members h ch @ [hub_next h])" using hub_ok_members [OF assms] m by simp
  fix k cs assume "(k, cs) \<in> set (hub_clients (snd (Subscribe ch h)))"
  then have "(k, cs) = (ch, members h ch @ [hub_next h]) \<or> (k, cs) \<in> set (hub_clients h)"
    using set_AList_update [of ch "members h ch @ [hub_next h]" "hub_clients h"] by (auto simp: Subscribe_def Let_def)
  then show "cs \<noteq> [] \<and> distinct cs"
    using d hub_okD(2) [OF assms, of k cs] by (elim disjE) simp_all
next
  fix c k
  show "c \<in> set (members (snd (Subscribe ch h)) k) \<longleftrightarrow> c < hub_next (snd (Subscribe ch h)) \<and>
      \<not> cl_quit (hub_store (snd (Subscribe ch h)) c) \<and> (chan(hub_next h := ch)) c = k"
    using hub_okD(3) [OF assms, of c k] hub_okD(3) [OF assms, of c ch]
    by (auto simp: members_Subscribe NewClient_def)
  show "length (cl_C (hub_store (snd (Subscribe ch h)) c)) \<le> capacity"
    using hub_okD(4) [OF assms, of c] by (simp add: NewClient_def)
qed

lemma hub_ok_Unsubscribe:
  assumes "hub_ok chan h" "chan c = ch"
  shows "hub_ok chan (Unsubscribe ch c h)"
proof (rule hub_okI)
  show d: "distinct (map fst (hub_clients (Unsubscribe ch c h)))"
    using hub_okD(1) [OF assms(1)] by (auto simp: Unsubscribe_def Let_def distinct_update distinct_delete split: option.split)
  fix k cs assume k: "(k, cs) \<in> set (hub_clients (Unsubscribe ch c h))"
  have "(k, cs) = (ch, removeAll c (members h ch)) \<and> cs \<noteq> [] \<or> (k, cs) \<in> set (hub_clients h)"
    using k set_AList_update [of ch "removeAll c (members h ch)" "hub_clients h"]
    by (auto simp: Unsubscribe_def Let_def members_def AList.delete_eq split: option.splits if_splits)
  then show "cs \<noteq> [] \<and> distinct cs"
    using hub_ok_members [OF assms(1), of ch] hub_okD(2) [OF assms(1), of k cs] by (auto simp: distinct_removeAll)
next
  fix x k
  show "x \<in> set (members (Unsubscribe ch c h) k) \<longleftrightarrow> x < hub_next (Unsubscribe ch c h) \<and>
      \<not> cl_quit (hub_store (Unsubscribe ch c h) x) \<and> chan x = k"
    using hub_okD(3) [OF assms(1), of x k] hub_okD(3) [OF assms(1), of x ch] assms(2)
    by (auto simp: members_Unsubscribe Close_def)
  show "length (cl_C (hub_store (Unsubscribe ch c h) x)) \<le> capacity"
    using hub_okD(4) [OF assms(1), of x] by (cases "x = c") (simp_all add: Close_def)
qed

lemma members_store [simp]: "members (h\<lparr>hub_store := st\<rparr>) k = members h k"
  by (simp add: members_def)

lemma hub_ok_store:
  assumes "hub_ok chan h" "\<And>c. cl_quit (st c) = cl_quit (hub_store h c)" "\<And>c. length (cl_C (st c)) \<le> capacity"
  shows "hub_ok chan (h\<lparr>hub_store := st\<rparr>)"
  using hub_okD [OF assms(1)] assms(2,3) by (intro hub_okI) simp_all

lemma hub_ok_offer:
  assumes "hub_ok chan h" "chan c = ev_Channel e"
  shows "hub_ok chan (offer q e c h)"
proof (cases "length (cl_C (hub_store h c)) < capacity \<and> \<not> (cl_quit (hub_store h c) \<and> q)")
  case True
  then have "offer q e c h = h\<lparr>hub_store := (hub_store h)(c := (hub_store h c)\<lparr>cl_C := cl_C (hub_store h c) @ [e]\<rparr>)\<rparr>"
    unfolding offer_def Let_def by (rule if_P)
  moreover have "hub_ok chan \<dots>"
    using True hub_okD(4) [OF assms(1)] by (intro hub_ok_store [OF assms(1)]) simp_all
  ultimately show ?thesis by simp
next
  case False
  then have "offer q e c h = Unsubscribe (ev_Channel e) c h" unfolding offer_def Let_def by (rule if_not_P)
  then show ?thesis using hub_ok_Unsubscribe [OF assms] by simp
qed

lemma ClientCount_open:
  assumes "hub_ok chan h"
  shows "ClientCount h = card {c. c < hub_next h \<and> \<not> cl_quit (hub_store h c)}"
proof -
  let ?cs = "concat (map snd (hub_clients h))"
  have d: "distinct (map fst (hub_clients h))" and inner: "\<forall>(k, cs) \<in> set (hub_clients h). cs \<noteq> [] \<and> distinct cs"
    and mem: "c \<in> set (members h k) \<longleftrightarrow> c < hub_next h \<and> \<not> cl_quit (hub_store h c) \<and> chan c = k" for c k
    using hub_okD [OF assms] by blast+
  have chan: "(k, cs) \<in> set (hub_clients h) \<Longrightarrow> c \<in> set cs \<Longrightarrow>
      c < hub_next h \<and> \<not> cl_quit (hub_store h c) \<and> chan c = k" for k cs c
    using mem [of c k] map_of_is_SomeI [OF d] by (simp add: members_def)
  have "distinct (concat (map snd m))" if "distinct (map fst m)" "set m \<subseteq> set (hub_clients h)" for m
    using that
  proof (induction m)
    case (Cons x m)
    then have IH: "distinct (concat (map snd m))" and x: "(fst x, snd x) \<in> set (hub_clients h)" by auto
    have "set (snd x) \<inter> set (concat (map snd m)) = {}"
    proof (rule ccontr)
      assume "set (snd x) \<inter> set (concat (map snd m)) \<noteq> {}"
      then obtain c k cs where c: "c \<in> set (snd x)" "(k, cs) \<in> set m" "c \<in> set cs" by fastforce
      from c(2) have "k \<in> fst ` set m" by force
      moreover have "(k, cs) \<in> set (hub_clients h)" using c(2) Cons.prems(2) by auto
      then have "fst x = k" using chan [OF x c(1)] chan [OF _ c(3)] by metis
      ultimately show False using Cons.prems(1) by simp
    qed
    with IH x inner show ?case by auto
  qed simp
  then have "distinct ?cs" using d by blast
  moreover have "set ?cs = {c. c < hub_next h \<and> \<not> cl_quit (hub_store h c)}"
  proof (intro equalityI subsetI)
    fix c assume "c \<in> {c. c < hub_next h \<and> \<not> cl_quit (hub_store h c)}"
    then have "c \<in> set (members h (chan c))" using mem by blast
    then obtain cs where "map_of (hub_clients h) (chan c) = Some cs" "c \<in> set cs"
      unfolding members_def by (cases "map_of (hub_clients h) (chan c)") simp_all
    then show "c \<in> set ?cs" using map_of_SomeD [of "hub_clients h" "chan c" cs] by force
  qed (auto dest: chan)
  ultimately show ?thesis
    using distinct_card [of ?cs] by (simp add: ClientCount_def length_concat comp_def)
qed


section \<open>The invariant of the system\<close>

text \<open>
  \<open>due s c\<close>: the events broadcast on the channel of client \<open>c\<close> since it subscribed; \<open>received s c\<close>: what
  its handler has written, then what waits in its buffer.
\<close>

definition due :: "system \<Rightarrow> nat \<Rightarrow> Event list" where
  "due s c = filter (\<lambda>e. ev_Channel e = st_channel (sy_streams s c)) (drop (st_from (sy_streams s c)) (sy_log s))"

definition received :: "system \<Rightarrow> nat \<Rightarrow> Event list" where
  "received s c = st_out (sy_streams s c) @ cl_C (hub_store (sy_hub s) c)"

definition pending :: "system \<Rightarrow> nat list" where
  "pending s = (case sy_flight s of None \<Rightarrow> [] | Some (e, cs) \<Rightarrow> cs)"

definition chan_of :: "system \<Rightarrow> nat \<Rightarrow> string" where
  "chan_of s c = st_channel (sy_streams s c)"

definition lag :: "system \<Rightarrow> nat \<Rightarrow> Event list" where
  "lag s c = (case sy_flight s of None \<Rightarrow> [] | Some (e, cs) \<Rightarrow> if c \<in> set cs then [e] else [])"

text \<open>
  An open client lacks nothing but the event under way; a client that has quit has all the events up
  to some moment.
\<close>

definition client_ok :: "system \<Rightarrow> nat \<Rightarrow> bool" where
  "client_ok s c \<longleftrightarrow>
     st_from (sy_streams s c) \<le> length (sy_log s) \<and>
     (if c \<in> set (pending s) \<or> \<not> cl_quit (hub_store (sy_hub s) c)
      then received s c @ lag s c = due s c else prefix (received s c) (due s c))"

lemma client_ok_cong:
  assumes "client_ok s c" "sy_log s' = sy_log s" "chan_of s' c = chan_of s c"
    "st_from (sy_streams s' c) = st_from (sy_streams s c)" "received s' c = received s c"
    "lag s' c = lag s c" "c \<in> set (pending s') \<longleftrightarrow> c \<in> set (pending s)"
    "cl_quit (hub_store (sy_hub s) c) \<longrightarrow> cl_quit (hub_store (sy_hub s') c)"
  shows "client_ok s' c"
proof -
  have "due s' c = due s c" using assms by (simp add: due_def chan_of_def)
  moreover have "received s c @ lag s c = due s c \<Longrightarrow> prefix (received s c) (due s c)" by (metis prefixI)
  ultimately show ?thesis
    using assms(1,8) unfolding client_ok_def assms(2,4-7) by (auto split: if_splits)
qed

definition sys_ok :: "system \<Rightarrow> bool" where
  "sys_ok s \<longleftrightarrow>
     hub_ok (chan_of s) (sy_hub s) \<and> distinct (pending s) \<and> (\<forall>c \<in> set (pending s). c < hub_next (sy_hub s)) \<and>
     (\<forall>c. st_running (sy_streams s c) \<longrightarrow> c < hub_next (sy_hub s)) \<and>
     (\<forall>c < hub_next (sy_hub s). client_ok s c)"

lemma sys_ok_idle: "sys_ok idle"
  by (simp add: sys_ok_def idle_def pending_def hub_ok_def NewHub_def members_def NewClient_def)

lemma sys_okD:
  assumes "sys_ok s"
  shows "hub_ok (chan_of s) (sy_hub s)" "distinct (pending s)" "c \<in> set (pending s) \<Longrightarrow> c < hub_next (sy_hub s)"
    "st_running (sy_streams s c) \<Longrightarrow> c < hub_next (sy_hub s)" "c < hub_next (sy_hub s) \<Longrightarrow> client_ok s c"
  using assms by (auto simp: sys_ok_def)

lemma sys_okI:
  assumes "hub_ok (chan_of s) (sy_hub s)" "distinct (pending s)" "\<And>c. c \<in> set (pending s) \<Longrightarrow> c < hub_next (sy_hub s)"
    "\<And>c. st_running (sy_streams s c) \<Longrightarrow> c < hub_next (sy_hub s)" "\<And>c. c < hub_next (sy_hub s) \<Longrightarrow> client_ok s c"
  shows "sys_ok s"
  using assms by (auto simp: sys_ok_def)

lemma offer_cases:
  "(offer q e c h = h\<lparr>hub_store := (hub_store h)(c := (hub_store h c)\<lparr>cl_C := cl_C (hub_store h c) @ [e]\<rparr>)\<rparr>) \<or>
   (offer q e c h = Unsubscribe (ev_Channel e) c h)"
  by (simp add: offer_def Let_def)

lemma sys_ok_subscribe:
  assumes "sys_ok s"
  shows "sys_ok (do_subscribe ch s)"
proof (rule sys_okI)
  let ?s = "do_subscribe ch s" and ?n = "hub_next (sy_hub s)"
  have h: "sy_hub ?s = snd (Subscribe ch (sy_hub s))" "sy_log ?s = sy_log s" "lag ?s = lag s"
    "chan_of ?s = (chan_of s)(?n := ch)" "pending ?s = pending s"
    by (simp_all add: do_subscribe_def Subscribe_def Let_def chan_of_def pending_def fun_eq_iff lag_def)
  have st: "sy_streams ?s = (sy_streams s)(?n := \<lparr>st_channel = ch, st_from = length (sy_log s), st_out = [], st_running = True\<rparr>)"
    by (simp add: do_subscribe_def Subscribe_def Let_def)
  have fresh: "?n \<notin> set (pending s)" using sys_okD(3) [OF assms] by blast
  show "hub_ok (chan_of ?s) (sy_hub ?s)" "distinct (pending ?s)"
    using hub_ok_Subscribe [OF sys_okD(1) [OF assms]] sys_okD(2) [OF assms] by (simp_all add: h)
  fix c
  show "c < hub_next (sy_hub ?s)" if "c \<in> set (pending ?s)"
    using sys_okD(3) [OF assms, of c] that by (simp add: h)
  show "c < hub_next (sy_hub ?s)" if "st_running (sy_streams ?s c)"
    using sys_okD(4) [OF assms, of c] that by (simp add: h st split: if_splits)
  assume "c < hub_next (sy_hub ?s)"
  then consider "c = ?n" | "c < ?n" by (auto simp: h less_Suc_eq)
  then show "client_ok ?s c"
  proof cases
    case 1
    have "lag s ?n = []"
      using fresh by (cases "sy_flight s") (auto simp: lag_def pending_def split: prod.split)
    with 1 fresh show ?thesis by (simp add: client_ok_def h st received_def due_def NewClient_def)
  next
    case 2
    show ?thesis
      using 2 by - (rule client_ok_cong [OF sys_okD(5) [OF assms 2]], simp_all add: h st received_def)
  qed
qed

lemma sys_ok_notify:
  assumes "sys_ok s" "sy_flight s = None" "distinct cs" "set cs = set (members (sy_hub s) (ev_Channel e))"
  shows "sys_ok (do_notify e cs s)"
proof (rule sys_okI)
  let ?s = "do_notify e cs s"
  have h: "sy_hub ?s = sy_hub s" "sy_streams ?s = sy_streams s" "pending ?s = cs" "chan_of ?s = chan_of s"
    "sy_log ?s = sy_log s @ [e]" "lag ?s c = (if c \<in> set cs then [e] else [])" "lag s c = []" "pending s = []" for c
    using assms(2) by (simp_all add: do_notify_def pending_def chan_of_def fun_eq_iff lag_def)
  note hub = sys_okD(1) [OF assms(1)]
  have member: "c \<in> set cs \<longleftrightarrow> c < hub_next (sy_hub s) \<and> \<not> cl_quit (hub_store (sy_hub s) c) \<and> chan_of s c = ev_Channel e" for c
    using hub_okD(3) [OF hub] assms(4) by simp
  show "hub_ok (chan_of ?s) (sy_hub ?s)" "distinct (pending ?s)" using hub assms(3) by (simp_all add: h)
  fix c
  show "c < hub_next (sy_hub ?s)" if "c \<in> set (pending ?s)" using that member by (simp add: h)
  show "c < hub_next (sy_hub ?s)" if "st_running (sy_streams ?s c)"
    using sys_okD(4) [OF assms(1), of c] that by (simp add: h)
  assume c: "c < hub_next (sy_hub ?s)"
  then have ok: "client_ok s c" using sys_okD(5) [OF assms(1)] by (simp add: h)
  have d: "due ?s c = (if ev_Channel e = chan_of s c then due s c @ [e] else due s c)"
    using ok by (auto simp: due_def h chan_of_def client_ok_def)
  have r: "received ?s c = received s c" by (simp add: received_def h)
  show "client_ok ?s c"
    using ok member [of c] c unfolding client_ok_def d r h by (auto split: if_splits)
qed

lemma sys_ok_write:
  assumes "sys_ok s" "st_running (sy_streams s c)" "cl_C (hub_store (sy_hub s) c) \<noteq> []"
  shows "sys_ok (do_write c s)"
proof (rule sys_okI)
  let ?s = "do_write c s"
  let ?store = "(hub_store (sy_hub s))(c := (hub_store (sy_hub s) c)\<lparr>cl_C := tl (cl_C (hub_store (sy_hub s) c))\<rparr>)"
  have h: "sy_hub ?s = (sy_hub s)\<lparr>hub_store := ?store\<rparr>" "sy_log ?s = sy_log s" "chan_of ?s = chan_of s"
    "pending ?s = pending s" "lag ?s = lag s"
    by (simp_all add: do_write_def Let_def chan_of_def pending_def fun_eq_iff lag_def)
  have r: "received ?s x = received s x" for x
    using assms(3) by (simp add: received_def do_write_def Let_def)
  have st: "st_running (sy_streams ?s x) = st_running (sy_streams s x)" "st_from (sy_streams ?s x) = st_from (sy_streams s x)" for x
    by (simp_all add: do_write_def Let_def)
  note hub = sys_okD(1) [OF assms(1)]
  have "length (cl_C (?store x)) \<le> capacity" for x
    using hub_okD(4) [OF hub, of x] by (cases "x = c") simp_all
  then show "hub_ok (chan_of ?s) (sy_hub ?s)"
    unfolding h by (intro hub_ok_store [OF hub]) simp_all
  show "distinct (pending ?s)" using sys_okD(2) [OF assms(1)] by (simp add: h)
  fix x
  show "x < hub_next (sy_hub ?s)" if "x \<in> set (pending ?s)" using sys_okD(3) [OF assms(1), of x] that by (simp add: h)
  show "x < hub_next (sy_hub ?s)" if "st_running (sy_streams ?s x)"
    using sys_okD(4) [OF assms(1), of x] that by (simp add: h st)
  assume "x < hub_next (sy_hub ?s)"
  then have "client_ok s x" using sys_okD(5) [OF assms(1)] by (simp add: h)
  then show "client_ok ?s x" by (rule client_ok_cong) (simp_all add: h st r)
qed

lemma sys_ok_leave:
  assumes "sys_ok s"
  shows "sys_ok (do_leave c s)"
proof (rule sys_okI)
  let ?s = "do_leave c s"
  have h: "sy_log ?s = sy_log s" "chan_of ?s = chan_of s" "pending ?s = pending s" "lag ?s = lag s"
    "sy_hub ?s = Unsubscribe (chan_of s c) c (sy_hub s)"
    by (simp_all add: do_leave_def Let_def chan_of_def pending_def fun_eq_iff lag_def)
  have st: "st_running (sy_streams ?s x) \<Longrightarrow> st_running (sy_streams s x)" "st_from (sy_streams ?s x) = st_from (sy_streams s x)"
    "received ?s x = received s x" for x
    by (auto simp: do_leave_def Let_def received_def Close_def split: if_splits)
  show "hub_ok (chan_of ?s) (sy_hub ?s)"
    unfolding h by (intro hub_ok_Unsubscribe [OF sys_okD(1) [OF assms]] refl)
  show "distinct (pending ?s)" using sys_okD(2) [OF assms] by (simp add: h)
  fix x
  show "x < hub_next (sy_hub ?s)" if "x \<in> set (pending ?s)" using sys_okD(3) [OF assms, of x] that by (simp add: h)
  show "x < hub_next (sy_hub ?s)" if "st_running (sy_streams ?s x)"
    using sys_okD(4) [OF assms st(1) [OF that]] by (simp add: h)
  assume "x < hub_next (sy_hub ?s)"
  then have "client_ok s x" using sys_okD(5) [OF assms] by (simp add: h)
  then show "client_ok ?s x" by (rule client_ok_cong) (simp_all add: h st Close_def)
qed

lemma sys_ok_offer:
  assumes "sys_ok s" "sy_flight s = Some (e, c # cs)"
  shows "sys_ok (do_offer q e c cs s)"
proof (rule sys_okI)
  let ?s = "do_offer q e c cs s"
  have h: "pending s = c # cs" "pending ?s = cs" "sy_log ?s = sy_log s" "chan_of ?s = chan_of s"
    "sy_streams ?s = sy_streams s" "sy_hub ?s = offer q e c (sy_hub s)"
    "lag s x = (if x = c \<or> x \<in> set cs then [e] else [])" "lag ?s x = (if x \<in> set cs then [e] else [])" for x
    using assms(2) by (auto simp: pending_def do_offer_def chan_of_def lag_def fun_eq_iff)
  have c: "c \<notin> set cs" "c < hub_next (sy_hub s)"
    using sys_okD(2) [OF assms(1)] sys_okD(3) [OF assms(1), of c] by (simp_all add: h)
  have next_id: "hub_next (offer q e c (sy_hub s)) = hub_next (sy_hub s)"
    using offer_cases [of q e c "sy_hub s"] by auto
  have d: "due ?s x = due s x" for x by (simp add: due_def h)
  have ok: "client_ok s c" by (rule sys_okD(5) [OF assms(1) c(2)])
  then have rc: "received s c @ [e] = due s c" by (simp add: client_ok_def h)
  have pre: "prefix (received s c) (due s c)" by (rule prefixI [OF rc [symmetric]])
  have "e \<in> set (due s c)" using arg_cong [OF rc, of set] by auto
  then have ch: "chan_of s c = ev_Channel e" by (auto simp: due_def chan_of_def)
  show "hub_ok (chan_of ?s) (sy_hub ?s)" unfolding h by (rule hub_ok_offer [OF sys_okD(1) [OF assms(1)] ch])
  show "distinct (pending ?s)" using sys_okD(2) [OF assms(1)] by (simp add: h)
  fix x
  show "x < hub_next (sy_hub ?s)" if "x \<in> set (pending ?s)"
    using sys_okD(3) [OF assms(1), of x] that by (simp add: h next_id)
  show "x < hub_next (sy_hub ?s)" if "st_running (sy_streams ?s x)"
    using sys_okD(4) [OF assms(1), of x] that by (simp add: h next_id)
  assume "x < hub_next (sy_hub ?s)"
  then have okx: "client_ok s x" using sys_okD(5) [OF assms(1)] by (simp add: h next_id)
  show "client_ok ?s x"
  proof (cases "x = c")
    case False
    then have "hub_store (sy_hub ?s) x = hub_store (sy_hub s) x"
      using offer_cases [of q e c "sy_hub s"] by (auto simp: h)
    with False show ?thesis by - (rule client_ok_cong [OF okx], simp_all add: h received_def)
  next
    case True
    from offer_cases [of q e c "sy_hub s"] have
      "received ?s c = received s c @ [e] \<and> cl_quit (hub_store (sy_hub ?s) c) = cl_quit (hub_store (sy_hub s) c) \<or>
       received ?s c = received s c \<and> cl_quit (hub_store (sy_hub ?s) c)"
      by (elim disjE) (simp_all add: received_def h Close_def)
    then show ?thesis
      using True c(1) rc pre ok unfolding client_ok_def d h by (auto simp: h)
  qed
qed

lemma sys_ok_finish:
  assumes "sys_ok s" "sy_flight s = Some (e, [])"
  shows "sys_ok (s\<lparr>sy_flight := None\<rparr>)"
proof (rule sys_okI)
  let ?s = "s\<lparr>sy_flight := None\<rparr>"
  have h: "chan_of ?s = chan_of s" "pending ?s = []" "pending s = []" "lag ?s c = []" "lag s c = []" "received ?s = received s" for c
    using assms(2) by (simp_all add: chan_of_def pending_def lag_def received_def fun_eq_iff)
  show "hub_ok (chan_of ?s) (sy_hub ?s)" using sys_okD(1) [OF assms(1)] by (simp add: h)
  fix c
  show "c < hub_next (sy_hub ?s)" if "st_running (sy_streams ?s c)" using sys_okD(4) [OF assms(1), of c] that by simp
  assume "c < hub_next (sy_hub ?s)"
  then have "client_ok s c" using sys_okD(5) [OF assms(1)] by simp
  then show "client_ok ?s c" by (rule client_ok_cong) (simp_all add: h)
qed (simp_all add: pending_def)

lemma sys_ok_step:
  assumes "sse_step s s'" "sys_ok s"
  shows "sys_ok s'"
  using assms
proof cases
  case (sse_offer e c cs q)
  with sys_ok_offer [OF assms(2)] show ?thesis by blast
next
  case (sse_finish e)
  with sys_ok_finish [OF assms(2)] show ?thesis by blast
qed (blast intro: sys_ok_subscribe sys_ok_notify sys_ok_write sys_ok_leave)+

lemma sys_ok_reachable: "sse_step\<^sup>*\<^sup>* idle s \<Longrightarrow> sys_ok s"
  by (induction rule: rtranclp_induct) (auto simp: sys_ok_idle intro: sys_ok_step)

section \<open>Delivery\<close>

lemma written_due:
  assumes "sse_step\<^sup>*\<^sup>* idle s" "c < hub_next (sy_hub s)"
  shows "prefix (st_out (sy_streams s c)) (due s c)"
proof -
  have ok: "client_ok s c" by (rule sys_okD(5) [OF sys_ok_reachable [OF assms(1)] assms(2)])
  have "prefix (received s c) (due s c)"
  proof (cases "c \<in> set (pending s) \<or> \<not> cl_quit (hub_store (sy_hub s) c)")
    case True
    with ok have "due s c = received s c @ lag s c" by (simp add: client_ok_def)
    then show ?thesis by (rule prefixI)
  next
    case False
    with ok show ?thesis by (simp add: client_ok_def)
  qed
  moreover have "prefix (st_out (sy_streams s c)) (received s c)" by (simp add: received_def)
  ultimately show ?thesis by (rule prefix_order.trans [rotated])
qed

text \<open>Only a broadcast adds to the log.\<close>

lemma sse_step_log: "sse_step s s' \<Longrightarrow> sy_log s' = sy_log s \<or> (\<exists>e. sy_log s' = sy_log s @ [e])"
  by (induction rule: sse_step.induct)
    (auto simp: do_subscribe_def do_notify_def do_offer_def do_write_def do_leave_def Let_def split: prod.split)

text \<open>
  C22. Delivery.  Whatever the order of subscriptions, broadcasts, writes and departures: what the
  handler of a client has written is, in order and without gaps, the beginning of the events
  broadcast on its channel since it subscribed; a client that has not quit has received all of them
  but the one being broadcast, written or waiting in its buffer.
\<close>

theorem sse_delivery:
  assumes "sse_step\<^sup>*\<^sup>* idle s" "c < hub_next (sy_hub s)"
  shows "prefix (st_out (sy_streams s c)) (due s c) \<and>
    (cl_quit (hub_store (sy_hub s) c) \<or> received s c @ lag s c = due s c)"
  using sys_okD(5) [OF sys_ok_reachable [OF assms(1)] assms(2)] written_due [OF assms]
  by (simp add: client_ok_def split: if_splits)

definition two_readers :: system where
  "two_readers = do_offer False \<lparr>ev_Channel = ''rest_public_posts'', ev_Payload = ''one''\<rparr> 0 []
     (do_notify \<lparr>ev_Channel = ''rest_public_posts'', ev_Payload = ''one''\<rparr> [0]
       (do_subscribe ''rest_public_users'' (do_subscribe ''rest_public_posts'' idle)))"

lemma two_readers_reachable: "sse_step\<^sup>*\<^sup>* idle two_readers"
proof -
  let ?e = "\<lparr>ev_Channel = ''rest_public_posts'', ev_Payload = ''one''\<rparr>"
  let ?s = "do_subscribe ''rest_public_users'' (do_subscribe ''rest_public_posts'' idle)"
  have "sse_step\<^sup>*\<^sup>* idle ?s" by (rule rtranclp.intros, rule rtranclp.intros, rule rtranclp.intros) (rule sse_subscribe)+
  moreover have "sse_step ?s (do_notify ?e [0] ?s)"
    by (rule sse_notify) (simp_all add: do_subscribe_def idle_def Subscribe_def NewHub_def members_def Let_def)
  moreover have "sse_step (do_notify ?e [0] ?s) two_readers"
    unfolding two_readers_def by (rule sse_offer) (simp add: do_notify_def)
  ultimately show ?thesis by (rule rtranclp.rtrancl_into_rtrancl [OF rtranclp.rtrancl_into_rtrancl])
qed

theorem sse_delivery_witness:
  "received two_readers 0 = [\<lparr>ev_Channel = ''rest_public_posts'', ev_Payload = ''one''\<rparr>]"
proof -
  have "0 < hub_next (sy_hub two_readers)" "\<not> cl_quit (hub_store (sy_hub two_readers) 0)" "lag two_readers 0 = []"
    "due two_readers 0 = [\<lparr>ev_Channel = ''rest_public_posts'', ev_Payload = ''one''\<rparr>]"
    by code_simp+
  with sse_delivery [OF two_readers_reachable, of 0] show ?thesis by simp
qed

text \<open>
  C23. Registration.  In every reachable state the clients registered on a channel are those that
  subscribed to it and have not been told to quit, no buffer holds more than its 64 events, and
  \<^verbatim>\<open>ClientCount\<close> is the number of clients that have not been told to quit.
\<close>

theorem hub_registration:
  assumes "sse_step\<^sup>*\<^sup>* idle s"
  shows "(c \<in> set (members (sy_hub s) channel) \<longleftrightarrow>
      c < hub_next (sy_hub s) \<and> \<not> cl_quit (hub_store (sy_hub s) c) \<and> st_channel (sy_streams s c) = channel) \<and>
    length (cl_C (hub_store (sy_hub s) c)) \<le> 64 \<and>
    ClientCount (sy_hub s) = card {c. c < hub_next (sy_hub s) \<and> \<not> cl_quit (hub_store (sy_hub s) c)}"
proof -
  note hub = sys_okD(1) [OF sys_ok_reachable [OF assms]]
  from hub_okD(3) [OF hub, of c channel] hub_okD(4) [OF hub, of c] ClientCount_open [OF hub]
  show ?thesis by (simp add: chan_of_def capacity_def)
qed

theorem hub_registration_witness: "0 \<in> set (members (sy_hub two_readers) ''rest_public_posts'')"
proof -
  have "0 < hub_next (sy_hub two_readers)" "\<not> cl_quit (hub_store (sy_hub two_readers) 0)"
    "st_channel (sy_streams two_readers 0) = ''rest_public_posts''" by code_simp+
  with hub_registration [OF two_readers_reachable, of 0 "''rest_public_posts''"] show ?thesis by simp
qed

section \<open>A broadcast\<close>

lemma offer_other: "x \<noteq> c \<Longrightarrow> hub_store (offer q e c h) x = hub_store h x"
  using offer_cases [of q e c h] by auto

lemma offer_next [simp]: "hub_next (offer q e c h) = hub_next h"
  using offer_cases [of q e c h] by auto

lemma offer_False:
  "hub_store (offer False e c h) c =
     (if length (cl_C (hub_store h c)) < capacity then (hub_store h c)\<lparr>cl_C := cl_C (hub_store h c) @ [e]\<rparr>
      else Close (hub_store h c))"
  by (simp add: offer_def Let_def)

lemma Broadcast_fold:
  "distinct cs \<Longrightarrow> hub_store (fold (offer False e) cs h) c =
     (if c \<notin> set cs then hub_store h c
      else if length (cl_C (hub_store h c)) < capacity then (hub_store h c)\<lparr>cl_C := cl_C (hub_store h c) @ [e]\<rparr>
      else Close (hub_store h c))"
proof (induction cs arbitrary: h)
  case (Cons a cs)
  then show ?case by (cases "c = a") (simp_all add: offer_other offer_False)
qed simp

lemma hub_ok_Broadcast_fold:
  "hub_ok chan h \<Longrightarrow> (\<forall>c \<in> set cs. chan c = ev_Channel e) \<Longrightarrow> hub_ok chan (fold (offer False e) cs h)"
  by (induction cs arbitrary: h) (auto intro: hub_ok_offer)

lemma fold_offer_next [simp]: "hub_next (fold (offer False e) cs h) = hub_next h"
  by (induction cs arbitrary: h) auto

text \<open>
  A broadcast with nothing in between, in whatever order the set of clients is visited: every
  client registered on the channel gets the event at the end of its buffer if the buffer has room,
  and is unregistered and told to quit if not; no other client is touched.
\<close>

lemma Broadcast_effect:
  assumes "hub_ok chan h" "mset (ord (members h (ev_Channel e))) = mset (members h (ev_Channel e))"
  shows "let h' = Broadcast ord e h; on = members h (ev_Channel e) in
    hub_ok chan h' \<and>
    hub_store h' c =
      (if c \<notin> set on then hub_store h c
       else if length (cl_C (hub_store h c)) < 64 then (hub_store h c)\<lparr>cl_C := cl_C (hub_store h c) @ [e]\<rparr>
       else (hub_store h c)\<lparr>cl_quit := True\<rparr>) \<and>
    (c \<in> set (members h' (ev_Channel e)) \<longleftrightarrow> c \<in> set on \<and> length (cl_C (hub_store h c)) < 64)"
proof -
  let ?on = "members h (ev_Channel e)" and ?h = "Broadcast ord e h"
  have set_ord: "set (ord ?on) = set ?on" using mset_eq_setD [OF assms(2)] .
  have "distinct (ord ?on)" using hub_ok_members [OF assms(1)] assms(2) mset_eq_imp_distinct_iff by blast
  note store = Broadcast_fold [OF this, of e h c, folded Broadcast_def, unfolded set_ord capacity_def Close_def]
  have "\<forall>c \<in> set (ord ?on). chan c = ev_Channel e" unfolding set_ord using hub_okD(3) [OF assms(1)] by blast
  then have ok: "hub_ok chan ?h" unfolding Broadcast_def by (rule hub_ok_Broadcast_fold [OF assms(1)])
  have "hub_next ?h = hub_next h" by (simp add: Broadcast_def)
  with hub_okD(3) [OF ok, of c "ev_Channel e"] hub_okD(3) [OF assms(1), of c "ev_Channel e"]
  have "c \<in> set (members ?h (ev_Channel e)) \<longleftrightarrow> c \<in> set ?on \<and> length (cl_C (hub_store h c)) < 64"
    by (auto simp: store)
  with ok store show ?thesis by (simp add: Let_def)
qed

lemma Broadcast_effect_example:
  "0 \<in> set (members (Broadcast rev \<lparr>ev_Channel = ''rest_public_posts'', ev_Payload = ''two''\<rparr> (sy_hub two_readers))
     ''rest_public_posts'')"
proof -
  have "members (sy_hub two_readers) ''rest_public_posts'' = [0]" "length (cl_C (hub_store (sy_hub two_readers) 0)) = 1"
    by code_simp+
  then show ?thesis
    using Broadcast_effect [OF sys_okD(1) [OF sys_ok_reachable [OF two_readers_reachable]], where ord = rev
        and e = "\<lparr>ev_Channel = ''rest_public_posts'', ev_Payload = ''two''\<rparr>" and c = 0]
    by (simp add: Let_def)
qed

section \<open>Channels\<close>

lemma buildChannels_inner:
  "distinct cs \<Longrightarrow> distinct (fold (\<lambda>table channels. let ch = channelName s table in
       if ch \<in> set channels then channels else channels @ [ch]) ts cs) \<and>
   set (fold (\<lambda>table channels. let ch = channelName s table in
       if ch \<in> set channels then channels else channels @ [ch]) ts cs) = set cs \<union> channelName s ` set ts"
  by (induction ts arbitrary: cs) (auto simp: Let_def)

lemma buildChannels_set:
  "distinct (buildChannels schemas tables) \<and>
   set (buildChannels schemas tables) = (\<Union>s \<in> set schemas. channelName s ` set (tables s))"
proof -
  have "distinct cs \<Longrightarrow>
      distinct (fold (\<lambda>s. fold (\<lambda>table channels. let ch = channelName s table in
        if ch \<in> set channels then channels else channels @ [ch]) (tables s)) schemas cs) \<and>
      set (fold (\<lambda>s. fold (\<lambda>table channels. let ch = channelName s table in
        if ch \<in> set channels then channels else channels @ [ch]) (tables s)) schemas cs) =
      set cs \<union> (\<Union>s \<in> set schemas. channelName s ` set (tables s))" for cs
    by (induction schemas arbitrary: cs) (auto simp: buildChannels_inner)
  from this [of "[]"] show ?thesis by (simp add: buildChannels_def)
qed

lemma tablesBySchema_set: "s \<in> set schemas \<Longrightarrow> set (tablesBySchema store schemas s) = fst ` set (TablesBySchema store s)"
  by (auto simp: tablesBySchema_def split: if_splits)

lemma channelName_inject:
  assumes "channelName s t = channelName s' t'" "CHR ''_'' \<notin> set s" "CHR ''_'' \<notin> set s'"
  shows "s = s' \<and> t = t'"
proof -
  have "s @ CHR ''_'' # t = s' @ CHR ''_'' # t'" using assms(1) by (simp add: channelName_def)
  then have "takeWhile (\<lambda>c. c \<noteq> CHR ''_'') (s @ CHR ''_'' # t) = takeWhile (\<lambda>c. c \<noteq> CHR ''_'') (s' @ CHR ''_'' # t')" by simp
  then have "s = s'" unfolding takeWhile_until [OF assms(2)] takeWhile_until [OF assms(3)] .
  with assms(1) show ?thesis by (simp add: channelName_def)
qed

text \<open>
  The listener listens for exactly the channels of the tables that the store has at startup
  under the configured names, each once; with no underscore in the configured names two tables of
  different schemas never share a channel, and a stream opened for a table gets its channel.
\<close>

lemma listener_channels:
  assumes "\<forall>s \<in> set schemas. s \<noteq> [] \<and> CHR ''_'' \<notin> set s"
  shows "let chs = buildChannels schemas (tablesBySchema store schemas) in
    distinct chs \<and>
    (\<forall>s t. CHR ''_'' \<notin> set s \<and> s \<noteq> [] \<longrightarrow>
       (sseChannel s t \<in> set chs \<longleftrightarrow> s \<in> set schemas \<and> t \<in> fst ` set (TablesBySchema store s)))"
proof -
  have "sseChannel s t \<in> set (buildChannels schemas (tablesBySchema store schemas)) \<longleftrightarrow>
      s \<in> set schemas \<and> t \<in> fst ` set (TablesBySchema store s)"
    if s: "CHR ''_'' \<notin> set s" "s \<noteq> []" for s t
  proof
    assume "sseChannel s t \<in> set (buildChannels schemas (tablesBySchema store schemas))"
    then obtain s' t' where "s' \<in> set schemas" "t' \<in> fst ` set (TablesBySchema store s')" "channelName s t = channelName s' t'"
      using s(2) buildChannels_set [of schemas "tablesBySchema store schemas"] by (auto simp: tablesBySchema_set sseChannel_def)
    with channelName_inject s(1) assms show "s \<in> set schemas \<and> t \<in> fst ` set (TablesBySchema store s)" by metis
  next
    assume "s \<in> set schemas \<and> t \<in> fst ` set (TablesBySchema store s)"
    then have "channelName s t \<in> (\<Union>s \<in> set schemas. channelName s ` set (tablesBySchema store schemas s))"
      by (intro UN_I [of s] imageI) (simp_all add: tablesBySchema_set)
    then show "sseChannel s t \<in> set (buildChannels schemas (tablesBySchema store schemas))"
      using s(2) buildChannels_set [of schemas "tablesBySchema store schemas"] by (simp add: sseChannel_def)
  qed
  then show ?thesis using buildChannels_set by (simp add: Let_def)
qed

lemma listener_channels_example:
  "''rest_app_posts'' \<in> set (buildChannels [''app''] (tablesBySchema (AddTable ''app'' posts_introspected (NewSchemaStore ''app'')) [''app'']))"
proof -
  let ?st = "AddTable ''app'' posts_introspected (NewSchemaStore ''app'')"
  have t: "TablesBySchema ?st ''app'' = [(''posts'', posts_introspected\<lparr>tbl_SchemaName := ''app''\<rparr>)]" by code_simp
  have c: "sseChannel ''app'' ''posts'' = ''rest_app_posts''" by code_simp
  have "sseChannel ''app'' ''posts'' \<in> set (buildChannels [''app''] (tablesBySchema ?st [''app'']))"
    using listener_channels [of "[''app'']" ?st] by (simp add: Let_def t)
  then show ?thesis unfolding c .
qed

end
