(* ===== verification/Migration.thy ===== *)
theory Migration
  imports Prelude
begin

text \<open>
  \<^verbatim>\<open>internal/transaction/migration.go\<close> and \<^verbatim>\<open>NewManager\<close>: the scripts that create the metadata tables and
  the notifying triggers, and the order in which they are executed.  \<open>execs\<close> is the error of
  executing a text, if there is one.  What the scripts do is PostgreSQL's; only the channel that
  the trigger function notifies is written out, because the listener and the streams rely on it.
\<close>

section \<open>Scripts\<close>

text \<open>A raw string of Go, from its lines: the number of tabs and the text of each.\<close>

definition script :: "(nat \<times> string) list \<Rightarrow> string" where
  "script ls = CHR 0x0A # concat (map (\<lambda>(tabs, l). replicate tabs (CHR 0x09) @ l @ [CHR 0x0A]) ls)"

definition migrationSQL :: string where
  "migrationSQL = script (map (\<lambda>l. (0, l))
     [''CREATE TABLE IF NOT EXISTS rest_transactions ('',
      ''    id VARCHAR(36) PRIMARY KEY,'',
      ''    schema_name VARCHAR(255) NOT NULL,'',
      ''    status VARCHAR(20) NOT NULL DEFAULT 'pending','',
      ''    created_at TIMESTAMP WITH TIME ZONE NOT NULL DEFAULT NOW(),'',
      ''    updated_at TIMESTAMP WITH TIME ZONE NOT NULL DEFAULT NOW()'',
      '');'',
      '''',
      ''CREATE TABLE IF NOT EXISTS rest_transaction_operations ('',
      ''    id SERIAL PRIMARY KEY,'',
      ''    transaction_id VARCHAR(36) NOT NULL REFERENCES rest_transactions(id) ON DELETE CASCADE,'',
      ''    operation VARCHAR(10) NOT NULL,'',
      ''    table_name TEXT NOT NULL,'',
      ''    sql_query TEXT NOT NULL,'',
      ''    params JSONB,'',
      ''    before_state JSONB,'',
      ''    committed_state JSONB,'',
      ''    row_ids JSONB,'',
      ''    created_at TIMESTAMP WITH TIME ZONE NOT NULL DEFAULT NOW()'',
      '');'',
      '''',
      ''CREATE INDEX IF NOT EXISTS idx_rest_tx_ops_txid ON rest_transaction_operations(transaction_id);'',
      ''CREATE INDEX IF NOT EXISTS idx_rest_tx_status ON rest_transactions(status);''])"

definition triggerFunctionSQL :: string where
  "triggerFunctionSQL = script (map (\<lambda>l. (0, l))
     [''CREATE OR REPLACE FUNCTION rest_notify() RETURNS trigger AS $$'',
      ''DECLARE'',
      ''    payload jsonb;'',
      ''    channel text;'',
      ''BEGIN'',
      ''    channel := TG_TABLE_SCHEMA || '_' || TG_TABLE_NAME;'',
      '''',
      ''    IF TG_OP = 'INSERT' THEN'',
      ''        payload := jsonb_build_object('',
      ''            'schema', TG_TABLE_SCHEMA,'',
      ''            'table', TG_TABLE_NAME,'',
      ''            'op', TG_OP,'',
      ''            'new', to_jsonb(NEW)'',
      ''        );'',
      ''    ELSIF TG_OP = 'UPDATE' THEN'',
      ''        payload := jsonb_build_object('',
      ''            'schema', TG_TABLE_SCHEMA,'',
      ''            'table', TG_TABLE_NAME,'',
      ''            'op', TG_OP,'',
      ''            'old', to_jsonb(OLD),'',
      ''            'new', to_jsonb(NEW)'',
      ''        );'',
      ''    ELSIF TG_OP = 'DELETE' THEN'',
      ''        payload := jsonb_build_object('',
      ''            'schema', TG_TABLE_SCHEMA,'',
      ''            'table', TG_TABLE_NAME,'',
      ''            'op', TG_OP,'',
      ''            'old', to_jsonb(OLD)'',
      ''        );'',
      ''    END IF;'',
      '''',
      ''    PERFORM pg_notify('rest_' || channel, payload::text);'',
      ''    RETURN COALESCE(NEW, OLD);'',
      ''END;'',
      ''$$ LANGUAGE plpgsql;''])"

text \<open>The channel the function above notifies for a row of a table.\<close>

definition notifyChannel :: "string \<Rightarrow> string \<Rightarrow> string" where
  "notifyChannel schema table = (let channel = schema @ ''_'' @ table in ''rest_'' @ channel)"

definition triggerName :: "string \<Rightarrow> string" where
  "triggerName tableName = tableName @ ''_'' @ tableName @ ''_notify''"

definition createTriggerSQL :: "string \<Rightarrow> string \<Rightarrow> string" where
  "createTriggerSQL schemaName tableName =
     script
       [(2, ''DO $$''),
        (2, ''BEGIN''),
        (3, ''IF NOT EXISTS (''),
        (4, ''SELECT 1 FROM pg_trigger WHERE tgname = '' @ [CHR 0x27] @ triggerName tableName @ [CHR 0x27]),
        (3, '') THEN''),
        (4, ''CREATE TRIGGER '' @ triggerName tableName),
        (5, ''AFTER INSERT OR UPDATE OR DELETE ON '' @ schemaName @ ''.'' @ tableName),
        (5, ''FOR EACH ROW EXECUTE FUNCTION rest_notify();''),
        (3, ''END IF;''),
        (2, ''END $$;'')] @ [CHR 0x09]"

section \<open>Execution\<close>

definition Migrate :: "(string \<Rightarrow> string option) \<Rightarrow> string option" where
  "Migrate execs =
     (case execs migrationSQL of Some e \<Rightarrow> Some (''create transaction tables: '' @ e) | None \<Rightarrow> None)"

text \<open>A manager is known by its time to live.\<close>

definition NewTxManager :: "(string \<Rightarrow> string option) \<Rightarrow> int \<Rightarrow> string + int" where
  "NewTxManager execs ttl =
     (case Migrate execs of Some e \<Rightarrow> Inl (''transaction migration: '' @ e) | None \<Rightarrow> Inr ttl)"

text \<open>The error, if there is one, and the texts that were executed.\<close>

definition EnsureNotifyTrigger :: "(string \<Rightarrow> string option) \<Rightarrow> string \<Rightarrow> string \<Rightarrow> string option \<times> string list" where
  "EnsureNotifyTrigger execs schemaName tableName =
     (let query = createTriggerSQL schemaName tableName
      in case execs triggerFunctionSQL of
           Some e \<Rightarrow> (Some (''create notify function: '' @ e), [triggerFunctionSQL])
         | None \<Rightarrow>
             (case execs query of
                Some e \<Rightarrow> (Some (''create trigger on '' @ schemaName @ ''.'' @ tableName @ '': '' @ e), [triggerFunctionSQL, query])
              | None \<Rightarrow> (None, [triggerFunctionSQL, query])))"

lemma NewTxManager_iff: "NewTxManager execs ttl = Inr m \<longleftrightarrow> execs migrationSQL = None \<and> m = ttl"
  by (auto simp: NewTxManager_def Migrate_def split: option.splits)

text \<open>The trigger is created only after its function, and success means that both were executed.\<close>

lemma EnsureNotifyTrigger_done:
  "fst (EnsureNotifyTrigger execs s t) = None \<longleftrightarrow> execs triggerFunctionSQL = None \<and> execs (createTriggerSQL s t) = None"
  by (simp add: EnsureNotifyTrigger_def Let_def split: option.split)

end
