(* ===== verification/Config.thy ===== *)
theory Config
  imports Schema
begin

text \<open>
  \<^verbatim>\<open>internal/config/config.go\<close>: the configuration record, its method permissions, hidden tables and
  RPC switches, the connection texts, and the values that legacy environment variables set.
  A \<^verbatim>\<open>float64\<close> is named by its shortest decimal text, a \<^verbatim>\<open>time.Duration\<close> is its number of
  nanoseconds.
\<close>

section \<open>Data\<close>

type_synonym float64 = string
type_synonym duration = int

record HotReloadConfig =
  hr_Enabled :: bool
  hr_Interval :: duration
  hr_AutoNotifyTriggers :: bool

record TransactionsConfig =
  txc_Enabled :: bool
  txc_TTL :: duration
  txc_CleanupInterval :: duration

record RateLimitTableConfig =
  rlt_RPS :: float64
  rlt_Burst :: int

record RateLimitConfig =
  rl_Enabled :: bool
  rl_RPS :: float64
  rl_Burst :: int
  rl_PerTable :: "(string \<times> RateLimitTableConfig) list"

record ServerConfig =
  srv_Host :: string
  srv_Port :: int

record PoolConfig =
  pool_MaxOpen :: int
  pool_MaxIdle :: int
  pool_ConnMaxLife :: duration
  pool_ConnMaxIdle :: duration

record DatabaseConfig =
  db_Host :: string
  db_Port :: int
  db_User :: string
  db_Password :: string
  db_Name :: string
  db_Schemas :: "string list"
  db_SSLMode :: string
  db_Pool :: PoolConfig

record Config =
  cfg_Server :: ServerConfig
  cfg_Database :: DatabaseConfig
  cfg_HotReload :: HotReloadConfig
  cfg_Permissions :: "(string \<times> string list) list"
  cfg_RPC :: "(string \<times> bool) list"
  cfg_Transactions :: TransactionsConfig
  cfg_RateLimit :: RateLimitConfig
  cfg_HiddenTables :: "string list"

section \<open>Operations\<close>

definition DSN :: "Config \<Rightarrow> string" where
  "DSN c =
     (let d = cfg_Database c
      in ''host='' @ db_Host d @ '' port='' @ Itoa (db_Port d) @ '' user='' @ db_User d
         @ '' password='' @ db_Password d @ '' dbname='' @ db_Name d @ '' sslmode='' @ db_SSLMode d)"

definition Schemas :: "Config \<Rightarrow> string list" where
  "Schemas c = db_Schemas (cfg_Database c)"

definition ServerAddr :: "Config \<Rightarrow> string" where
  "ServerAddr c = srv_Host (cfg_Server c) @ '':'' @ Itoa (srv_Port (cfg_Server c))"

definition methodsContain :: "string list \<Rightarrow> string \<Rightarrow> bool" where
  "methodsContain methods method =
     list_ex (\<lambda>m. m = ''*'' \<or> EqualFold m ''all'' \<or> EqualFold m method) methods"

definition cfg_IsMethodAllowed :: "Config \<Rightarrow> string \<Rightarrow> string \<Rightarrow> bool" where
  "cfg_IsMethodAllowed c table method =
     (case map_of (cfg_Permissions c) table of
        Some methods \<Rightarrow> methodsContain methods method
      | None \<Rightarrow>
          (case map_of (cfg_Permissions c) ''*'' of
             Some methods \<Rightarrow> methodsContain methods method
           | None \<Rightarrow> True))"

definition IsRPCEnabled :: "Config \<Rightarrow> string \<Rightarrow> bool" where
  "IsRPCEnabled c funcName =
     (case map_of (cfg_RPC c) funcName of
        Some enabled \<Rightarrow> enabled
      | None \<Rightarrow> (case map_of (cfg_RPC c) ''*'' of Some enabled \<Rightarrow> enabled | None \<Rightarrow> True))"

definition pattern_hides :: "string \<Rightarrow> string \<Rightarrow> bool" where
  "pattern_hides tableName pattern =
     (if HasSuffix pattern ''*'' then HasPrefix tableName (TrimSuffix pattern ''*'')
      else pattern = tableName)"

definition IsTableHidden :: "Config \<Rightarrow> string \<Rightarrow> bool" where
  "IsTableHidden c tableName = list_ex (pattern_hides tableName) (cfg_HiddenTables c)"

text \<open>A value given to \<^verbatim>\<open>viper\<close>; a legacy variable stores an integer, a list of schemas, or the text itself.\<close>

datatype setting = SInt int | SList "string list" | SText string | SBool bool | SMap "(string \<times> setting) list"

definition castValue :: "string \<Rightarrow> string \<Rightarrow> setting" where
  "castValue key val =
     (let numeric = (HasSuffix key ''.port'' \<or> HasSuffix key ''.max_open'' \<or> HasSuffix key ''.max_idle'')
      in (case (if numeric then Atoi val else None) of
            Some i \<Rightarrow> SInt i
          | None \<Rightarrow> (if HasSuffix key ''.schemas'' then SList (Split val CHR '','') else SText val)))"

definition legacy_mapping :: "(string \<times> string) list" where
  "legacy_mapping =
     [(''HOST'', ''server.host''), (''PORT'', ''server.port''),
      (''DB_HOST'', ''database.host''), (''DB_PORT'', ''database.port''),
      (''DB_USER'', ''database.user''), (''DB_PASS'', ''database.password''),
      (''DB_PASSWORD'', ''database.password''), (''DB_NAME'', ''database.name''),
      (''DB_SCHEMAS'', ''database.schemas''), (''DB_SSLMODE'', ''database.sslmode''),
      (''REST_HOST'', ''server.host''), (''REST_PORT'', ''server.port''),
      (''REST_DB_HOST'', ''database.host''), (''REST_DB_PORT'', ''database.port''),
      (''REST_DB_USER'', ''database.user''), (''REST_DB_PASS'', ''database.password''),
      (''REST_DB_PASSWORD'', ''database.password''), (''REST_DB_NAME'', ''database.name''),
      (''REST_DB_SCHEMAS'', ''database.schemas''), (''REST_DB_SSLMODE'', ''database.sslmode'')]"

text \<open>
  The overrides that the environment stores, from any order \<open>mapping\<close> in which the map above is
  visited; an unset variable reads as the empty text.
\<close>

definition bindLegacyEnvVars ::
    "(string \<Rightarrow> string) \<Rightarrow> (string \<times> string) list \<Rightarrow> (string \<times> setting) list \<Rightarrow> (string \<times> setting) list" where
  "bindLegacyEnvVars env mapping v =
     fold (\<lambda>(envKey, viperKey) v.
            let val = env envKey
            in if val \<noteq> '''' then AList.update viperKey (castValue viperKey val) v else v)
       mapping v"

section \<open>Load\<close>

text \<open>
  What \<^verbatim>\<open>Load\<close> tells \<^verbatim>\<open>viper\<close>.  How \<^verbatim>\<open>viper\<close> looks for the file, merges its sources and fills the record is
  the library's: \<open>vl_read\<close> gives the contents of the file, if it could be read, and \<open>vl_unmarshal\<close> the
  record as it is after \<^verbatim>\<open>Unmarshal\<close>, whose error is only printed.
\<close>

record viper =
  vp_defaults :: "(string \<times> setting) list"
  vp_overrides :: "(string \<times> setting) list"
  vp_file :: "(string \<times> setting) list"
  vp_configName :: string
  vp_configType :: string
  vp_configPaths :: "string list"
  vp_envPrefix :: string
  vp_envReplacer :: "(string \<times> string) list"
  vp_automaticEnv :: bool

record viper_lib =
  vl_read :: "viper \<Rightarrow> (string \<times> setting) list option"
  vl_unmarshal :: "viper \<Rightarrow> Config"

definition new_viper :: viper where
  "new_viper = \<lparr>vp_defaults = [], vp_overrides = [], vp_file = [], vp_configName = ''config'', vp_configType = [],
     vp_configPaths = [], vp_envPrefix = [], vp_envReplacer = [], vp_automaticEnv = False\<rparr>"

definition load_defaults :: "(string \<times> setting) list" where
  "load_defaults =
     [(''server.host'', SText ''0.0.0.0''), (''server.port'', SInt 3000),
      (''database.host'', SText ''localhost''), (''database.port'', SInt 5432),
      (''database.user'', SText ''postgres''), (''database.password'', SText ''postgres''),
      (''database.name'', SText ''app''), (''database.schemas'', SList [''public'']),
      (''database.sslmode'', SText ''disable''),
      (''database.pool.max_open'', SInt 25), (''database.pool.max_idle'', SInt 5),
      (''database.pool.conn_max_life'', SText ''1h''), (''database.pool.conn_max_idle'', SText ''10m''),
      (''permissions'', SMap [(''*'', SMap [(''methods'', SList [''*''])])]),
      (''rpc'', SMap [(''*'', SMap [(''enabled'', SBool True)])]),
      (''transactions.enabled'', SBool True), (''transactions.ttl'', SText ''30m''),
      (''transactions.cleanup_interval'', SText ''60s''),
      (''hot_reload.enabled'', SBool False), (''hot_reload.interval'', SText ''30s''),
      (''hot_reload.auto_notify_triggers'', SBool True),
      (''rate_limit.enabled'', SBool False), (''rate_limit.requests_per_second'', SInt 10), (''rate_limit.burst'', SInt 20)]"

definition SetDefault :: "string \<times> setting \<Rightarrow> viper \<Rightarrow> viper" where
  "SetDefault kx v = v\<lparr>vp_defaults := AList.update (fst kx) (snd kx) (vp_defaults v)\<rparr>"

definition bindEnvVars :: "viper \<Rightarrow> viper" where
  "bindEnvVars v = v\<lparr>vp_envPrefix := ''REST'', vp_envReplacer := [(''.'', ''_'')], vp_automaticEnv := True\<rparr>"

definition loadViper :: "viper_lib \<Rightarrow> (string \<Rightarrow> string) \<Rightarrow> (string \<times> string) list \<Rightarrow> viper" where
  "loadViper lib env mapping =
     (let v1 = fold SetDefault load_defaults new_viper;
          v2 = v1\<lparr>vp_configName := ''config'', vp_configType := ''yaml'',
                  vp_configPaths := [''.'', ''/etc/rest-trans'', ''$HOME/.config/rest-trans'']\<rparr>;
          v3 = bindEnvVars (v2\<lparr>vp_overrides := bindLegacyEnvVars env mapping (vp_overrides v2)\<rparr>)
      in case vl_read lib v3 of None \<Rightarrow> v3 | Some file \<Rightarrow> v3\<lparr>vp_file := file\<rparr>)"

definition Load :: "viper_lib \<Rightarrow> (string \<Rightarrow> string) \<Rightarrow> (string \<times> string) list \<Rightarrow> Config" where
  "Load lib env mapping = vl_unmarshal lib (loadViper lib env mapping)"

section \<open>The interface of a method policy\<close>

text \<open>
  What the router, the CORS headers and the OpenAPI document rely on: a policy reads the method
  without regard to letter case.
\<close>

locale method_policy =
  fixes allowed :: "'p \<Rightarrow> string \<Rightarrow> bool"
  assumes allowed_fold: "EqualFold m m' \<Longrightarrow> allowed p m = allowed p m'"
begin

lemma allowed_upper: "allowed p (ToUpper m) = allowed p m"
  by (rule allowed_fold) simp

lemma allowed_lower_eq: "ToLower m = ToLower m' \<Longrightarrow> allowed p m = allowed p m'"
  by (rule allowed_fold) (simp add: EqualFold_def)

text \<open>The methods of a list that a policy lets through do not depend on how they are spelled.\<close>

lemma allowed_map_upper: "filter (allowed p) (map ToUpper ms) = map ToUpper (filter (allowed p) ms)"
  by (induction ms) (auto simp: allowed_upper)

end

interpretation table_policy: method_policy IsMethodAllowed
  by unfold_locales (auto simp: IsMethodAllowed_def list_ex_iff EqualFold_def split: option.splits)

interpretation config_policy: method_policy "\<lambda>(c, table). cfg_IsMethodAllowed c table"
  by unfold_locales
    (auto simp: cfg_IsMethodAllowed_def methodsContain_def list_ex_iff EqualFold_def
      split: option.splits)

section \<open>Permissions of a table\<close>

lemma IsMethodAllowed_iff:
  "IsMethodAllowed t m \<longleftrightarrow>
     (\<forall>d \<in> set (tbl_DenyMethods t). \<not> EqualFold d m) \<and>
     (\<forall>ms. tbl_AllowedMethods t = Some ms \<longrightarrow> (\<exists>a \<in> set ms. EqualFold a m))"
  by (auto simp: IsMethodAllowed_def list_ex_iff split: option.splits)

section \<open>Hidden tables\<close>

lemma pattern_hides_wildcard [simp]: "pattern_hides name (p @ ''*'') = HasPrefix name p"
  by (simp add: pattern_hides_def TrimSuffix_def)

lemma pattern_hides_exact: "\<not> HasSuffix p ''*'' \<Longrightarrow> pattern_hides name p = (p = name)"
  by (simp add: pattern_hides_def)

lemma IsTableHidden_iff:
  "IsTableHidden c name \<longleftrightarrow>
     (\<exists>p. p @ ''*'' \<in> set (cfg_HiddenTables c) \<and> HasPrefix name p) \<or>
     (name \<in> set (cfg_HiddenTables c))"
proof -
  have "pattern_hides name p \<longleftrightarrow> (\<exists>q. p = q @ ''*'' \<and> HasPrefix name q) \<or> p = name" for p
  proof (cases "HasSuffix p ''*''")
    case True
    then obtain q where q: "p = q @ ''*''" by (auto simp: HasSuffix_iff)
    have "HasPrefix (q @ ''*'') q" by simp
    with q show ?thesis by auto
  next
    case False
    then have "p \<noteq> q @ ''*''" for q by auto
    with False show ?thesis by (auto simp: pattern_hides_exact)
  qed
  then show ?thesis by (auto simp: IsTableHidden_def list_ex_iff)
qed

section \<open>Legacy variables\<close>

lemma bindLegacyEnvVars_lookup:
  "map_of (bindLegacyEnvVars env mapping v) key =
     (case find (\<lambda>(a, k). k = key \<and> env a \<noteq> []) (rev mapping) of
        Some (a, k) \<Rightarrow> Some (castValue key (env a)) | None \<Rightarrow> map_of v key)"
proof (induction mapping rule: rev_induct)
  case (snoc x mapping)
  then show ?case
    by (cases x) (auto simp: bindLegacyEnvVars_def Let_def update_conv' split: option.splits)
qed (simp add: bindLegacyEnvVars_def)

lemma fold_SetDefault:
  "fold SetDefault ds v = v\<lparr>vp_defaults := fold (\<lambda>(k, x). AList.update k x) ds (vp_defaults v)\<rparr>"
  by (induction ds arbitrary: v) (simp_all add: SetDefault_def split_def)

lemma loadViper_sources:
  "vp_overrides (loadViper lib env mapping) = bindLegacyEnvVars env mapping []"
  "vp_defaults (loadViper lib env mapping) = fold (\<lambda>(k, x). AList.update k x) load_defaults []"
  by (simp_all add: loadViper_def Let_def bindEnvVars_def new_viper_def fold_SetDefault split: option.split)

section \<open>Properties\<close>

text \<open>Two variables that are set for one key have the same text.\<close>

definition consistent :: "(string \<Rightarrow> string) \<Rightarrow> bool" where
  "consistent env \<longleftrightarrow> list_all (\<lambda>(a, k). list_all (\<lambda>(b, k'). k = k' \<and> env a \<noteq> [] \<and> env b \<noteq> [] \<longrightarrow> env a = env b)
     legacy_mapping) legacy_mapping"

text \<open>
  C20. The order in which Go visits the map of the legacy variables does not matter, unless two of them
  that set one key are both set, with different texts: then the overrides that \<^verbatim>\<open>Load\<close> gives to \<^verbatim>\<open>viper\<close> are,
  for each key, the value of a variable that is set for it, and there is none if no such variable is
  set; the keys of the mapping all have defaults.
\<close>

theorem Load_legacy_order:
  assumes "set mapping = set legacy_mapping" "consistent env"
  shows "map_of (vp_overrides (loadViper lib env mapping)) key =
      (case find (\<lambda>(a, k). k = key \<and> env a \<noteq> []) legacy_mapping of
         Some (a, k) \<Rightarrow> Some (castValue key (env a)) | None \<Rightarrow> None) \<and>
    (key \<in> snd ` set mapping \<longrightarrow> map_of (vp_defaults (loadViper lib env mapping)) key \<noteq> None)"
proof -
  let ?P = "\<lambda>(a, k). k = key \<and> env a \<noteq> []"
  have set: "set (rev mapping) = set legacy_mapping" using assms(1) by simp
  have found: "find ?P xs = Some y \<Longrightarrow> y \<in> set xs \<and> ?P y" for xs and y :: "string \<times> string"
    by (auto simp: find_Some_iff dest: nth_mem)
  have "list_all (\<lambda>(_, k). map_of (fold (\<lambda>(k, x). AList.update k x) load_defaults []) k \<noteq> None) legacy_mapping"
    by code_simp
  then have "key \<in> snd ` set mapping \<longrightarrow> map_of (vp_defaults (loadViper lib env mapping)) key \<noteq> None"
    using set unfolding loadViper_sources by (auto simp: list_all_iff)
  moreover have "(case find ?P (rev mapping) of Some (a, k) \<Rightarrow> Some (castValue key (env a)) | None \<Rightarrow> None) =
      (case find ?P legacy_mapping of Some (a, k) \<Rightarrow> Some (castValue key (env a)) | None \<Rightarrow> None)"
  proof (cases "find ?P legacy_mapping")
    case None
    then have "find ?P (rev mapping) = None" using set by (auto simp: find_None_iff)
    with None show ?thesis by simp
  next
    case (Some y)
    then have y: "y \<in> set legacy_mapping" "?P y" using found by blast+
    then obtain x where x: "find ?P (rev mapping) = Some x" using set by (cases "find ?P (rev mapping)") (auto simp: find_None_iff)
    then have "x \<in> set legacy_mapping" "?P x" using found [OF x] set by blast+
    with y assms(2) have "env (fst x) = env (fst y)" by (auto simp: consistent_def list_all_iff split_def)
    then show ?thesis unfolding x Some by (simp add: split_def)
  qed
  ultimately show ?thesis by (simp add: loadViper_sources bindLegacyEnvVars_lookup [of env mapping "[]", unfolded map_of.simps(1)])
qed

text \<open>The record when nothing is read.\<close>

definition zero_config :: Config where
  "zero_config =
     \<lparr>cfg_Server = \<lparr>srv_Host = [], srv_Port = 0\<rparr>,
      cfg_Database = \<lparr>db_Host = [], db_Port = 0, db_User = [], db_Password = [], db_Name = [], db_Schemas = [], db_SSLMode = [],
        db_Pool = \<lparr>pool_MaxOpen = 0, pool_MaxIdle = 0, pool_ConnMaxLife = 0, pool_ConnMaxIdle = 0\<rparr>\<rparr>,
      cfg_HotReload = \<lparr>hr_Enabled = False, hr_Interval = 0, hr_AutoNotifyTriggers = False\<rparr>,
      cfg_Permissions = [], cfg_RPC = [],
      cfg_Transactions = \<lparr>txc_Enabled = False, txc_TTL = 0, txc_CleanupInterval = 0\<rparr>,
      cfg_RateLimit = \<lparr>rl_Enabled = False, rl_RPS = ''0'', rl_Burst = 0, rl_PerTable = []\<rparr>, cfg_HiddenTables = []\<rparr>"

theorem Load_legacy_order_witness:
  "map_of (vp_overrides (loadViper \<lparr>vl_read = (\<lambda>_. None), vl_unmarshal = (\<lambda>_. zero_config)\<rparr>
     (\<lambda>a. if a = ''DB_SCHEMAS'' then ''public, app'' else []) (rev legacy_mapping))) ''database.schemas''
   = Some (SList [''public'', '' app''])"
proof -
  let ?env = "\<lambda>a. if a = ''DB_SCHEMAS'' then ''public, app'' else []"
  have "consistent ?env" by code_simp
  moreover have "(case find (\<lambda>(a, k). k = ''database.schemas'' \<and> ?env a \<noteq> []) legacy_mapping of
      Some (a, k) \<Rightarrow> Some (castValue ''database.schemas'' (?env a)) | None \<Rightarrow> None) = Some (SList [''public'', '' app''])"
    by code_simp
  ultimately show ?thesis using Load_legacy_order [of "rev legacy_mapping" ?env] by simp
qed

end
