(* ===== verification/GoValue.thy ===== *)
theory GoValue
  imports Strconv "HOL-Library.AList" "HOL-Library.List_Lexorder" "HOL-Library.Char_ord"
begin

text \<open>
  The dynamic values (\<^verbatim>\<open>interface{}\<close>) that pass between JSON bodies, the database driver and the
  metadata tables: what \<^verbatim>\<open>encoding/json\<close> makes of them and how \<^verbatim>\<open>%v\<close> prints them.

  A JSON number is kept as its text; \<^verbatim>\<open>json.Unmarshal\<close> into \<^verbatim>\<open>interface{}\<close> turns it into a 64-bit float,
  so reading applies a rounding of number texts, a parameter \<open>num\<close>.  A time is printed by a
  parameter \<open>tm\<close>.  An object is an association list with distinct keys; its order stands for the
  visiting order of the Go map.
\<close>

datatype val =
    VNil
  | VBool bool
  | VNum string
  | VStr string
  | VBytes string
  | VTime int
  | VArr "val list"
  | VObj "(string \<times> val) list"

text \<open>\<^verbatim>\<open>json.Marshal\<close> followed by storage in a JSONB column.\<close>

primrec to_json :: "(int \<Rightarrow> string) \<Rightarrow> val \<Rightarrow> val" where
  "to_json tm VNil = VNil"
| "to_json tm (VBool b) = VBool b"
| "to_json tm (VNum s) = VNum s"
| "to_json tm (VStr s) = VStr s"
| "to_json tm (VBytes s) = VStr s"
| "to_json tm (VTime t) = VStr (tm t)"
| "to_json tm (VArr vs) = VArr (map (to_json tm) vs)"
| "to_json tm (VObj kvs) = VObj (map (map_prod id (to_json tm)) kvs)"

text \<open>\<^verbatim>\<open>json.Unmarshal\<close> into \<^verbatim>\<open>interface{}\<close>.\<close>

primrec read_json :: "(string \<Rightarrow> string) \<Rightarrow> val \<Rightarrow> val" where
  "read_json num VNil = VNil"
| "read_json num (VBool b) = VBool b"
| "read_json num (VNum s) = VNum (num s)"
| "read_json num (VStr s) = VStr s"
| "read_json num (VBytes s) = VBytes s"
| "read_json num (VTime t) = VTime t"
| "read_json num (VArr vs) = VArr (map (read_json num) vs)"
| "read_json num (VObj kvs) = VObj (map (map_prod id (read_json num)) kvs)"

text \<open>\<^verbatim>\<open>json.Unmarshal\<close> into a slice, a map, and a slice of maps: \<open>None\<close> is a type error, null is empty.\<close>

definition as_slice :: "val \<Rightarrow> val list option" where
  "as_slice v = (case v of VArr vs \<Rightarrow> Some vs | VNil \<Rightarrow> Some [] | _ \<Rightarrow> None)"

definition as_map :: "val \<Rightarrow> (string \<times> val) list option" where
  "as_map v = (case v of VObj kvs \<Rightarrow> Some kvs | VNil \<Rightarrow> Some [] | _ \<Rightarrow> None)"

definition as_maps :: "val \<Rightarrow> (string \<times> val) list list option" where
  "as_maps v = Option.bind (as_slice v) (\<lambda>vs. those (map as_map vs))"

text \<open>The verb \<^verbatim>\<open>%v\<close>: maps are printed with their keys sorted.\<close>

primrec fmtV :: "val \<Rightarrow> string" where
  "fmtV VNil = ''<nil>''"
| "fmtV (VBool b) = (if b then ''true'' else ''false'')"
| "fmtV (VNum s) = s"
| "fmtV (VStr s) = s"
| "fmtV (VBytes s) = ''['' @ Join (map (\<lambda>c. nat_text (of_char c)) s) '' '' @ '']''"
| "fmtV (VTime t) = Itoa t"
| "fmtV (VArr vs) = ''['' @ Join (map fmtV vs) '' '' @ '']''"
| "fmtV (VObj kvs) =
     ''map['' @ Join (map (\<lambda>(k, s). k @ '':'' @ s) (sort_key fst (map (map_prod id fmtV) kvs))) '' '' @ '']''"

end
