(* ===== verification/Http.thy ===== *)
theory Http
  imports GoValue
begin

text \<open>
  Requests and responses as the handlers see them (\<^verbatim>\<open>net/http\<close>, \<^verbatim>\<open>gin\<close>), \<^verbatim>\<open>url.ParseQuery\<close>, the
  decoding of JSON bodies, and the errors of \<^verbatim>\<open>internal/error/error.go\<close>.

  A handler is a function from the request to a response.  Headers and path parameters are
  association lists; reading one that is missing gives the empty string, as in Go.
\<close>

section \<open>Requests\<close>

text \<open>The body is what \<^verbatim>\<open>io.ReadAll\<close> returns: the bytes or an error.\<close>

record request =
  rq_Method :: string
  rq_Params :: "(string \<times> string) list"
  rq_RawQuery :: string
  rq_Header :: "(string \<times> string) list"
  rq_Body :: "string + string"

definition lookup_text :: "(string \<times> string) list \<Rightarrow> string \<Rightarrow> string" where
  "lookup_text kvs k = (case map_of kvs k of None \<Rightarrow> [] | Some v \<Rightarrow> v)"

definition Param :: "request \<Rightarrow> string \<Rightarrow> string" where
  "Param rq = lookup_text (rq_Params rq)"

definition GetHeader :: "request \<Rightarrow> string \<Rightarrow> string" where
  "GetHeader rq = lookup_text (rq_Header rq)"

section \<open>Query strings\<close>

definition is_hex :: "char \<Rightarrow> bool" where
  "is_hex c \<longleftrightarrow> (let n = (of_char c :: nat) in 48 \<le> n \<and> n \<le> 57 \<or> 97 \<le> n \<and> n \<le> 102 \<or> 65 \<le> n \<and> n \<le> 70)"

definition unhex :: "char \<Rightarrow> nat" where
  "unhex c = (let n = (of_char c :: nat) in if n \<le> 57 then n - 48 else if 97 \<le> n then n - 97 + 10 else n - 65 + 10)"

text \<open>\<^verbatim>\<open>url.QueryUnescape\<close>: \<open>None\<close> is an invalid escape.\<close>

fun QueryUnescape :: "string \<Rightarrow> string option" where
  "QueryUnescape [] = Some []"
| "QueryUnescape (c # cs) =
     (if c = CHR ''%'' then
        (case cs of
           a # b # rest \<Rightarrow>
             if is_hex a \<and> is_hex b then map_option (Cons (char_of (16 * unhex a + unhex b))) (QueryUnescape rest)
             else None
         | _ \<Rightarrow> None)
      else map_option (Cons (if c = CHR ''+'' then CHR '' '' else c)) (QueryUnescape cs))"

definition Cut :: "string \<Rightarrow> char \<Rightarrow> string \<times> string" where
  "Cut s c = (takeWhile (\<lambda>x. x \<noteq> c) s, tl (dropWhile (\<lambda>x. x \<noteq> c) s))"

text \<open>
  \<^verbatim>\<open>url.ParseQuery\<close>: the values of each key in order, and whether every pair was well formed (the
  malformed ones are left out).
\<close>

definition addQueryPair :: "string \<Rightarrow> (string \<times> string list) list \<times> bool \<Rightarrow> (string \<times> string list) list \<times> bool" where
  "addQueryPair pair acc =
     (let (m, good) = acc
      in if CHR '';'' \<in> set pair then (m, False)
         else if pair = [] then (m, good)
         else
           let (k, v) = Cut pair CHR ''=''
           in (case (QueryUnescape k, QueryUnescape v) of
                 (Some key, Some val) \<Rightarrow>
                   (AList.update key ((case map_of m key of None \<Rightarrow> [] | Some vs \<Rightarrow> vs) @ [val]) m, good)
               | _ \<Rightarrow> (m, False)))"

definition ParseQuery :: "string \<Rightarrow> (string \<times> string list) list \<times> bool" where
  "ParseQuery query = fold addQueryPair (Split query CHR ''&'') ([], True)"

text \<open>\<^verbatim>\<open>Values.Get\<close>, and \<^verbatim>\<open>c.Query\<close> of gin, which drops the error of \<^verbatim>\<open>ParseQuery\<close>.\<close>

definition Values_Get :: "(string \<times> string list) list \<Rightarrow> string \<Rightarrow> string" where
  "Values_Get m key = (case map_of m key of Some (v # _) \<Rightarrow> v | _ \<Rightarrow> [])"

definition Query :: "request \<Rightarrow> string \<Rightarrow> string" where
  "Query rq key = Values_Get (fst (ParseQuery (rq_RawQuery rq))) key"

section \<open>Responses\<close>

datatype payload = Empty | Json val | Text string

record response =
  rs_Status :: int
  rs_Header :: "(string \<times> string) list"
  rs_Body :: payload

definition new_response :: response where
  "new_response = \<lparr>rs_Status = 200, rs_Header = [], rs_Body = Empty\<rparr>"

text \<open>\<^verbatim>\<open>c.Header\<close> deletes the header when the value is empty; \<^verbatim>\<open>c.Status\<close> and \<^verbatim>\<open>c.JSON\<close>.\<close>

definition set_header :: "string \<Rightarrow> string \<Rightarrow> response \<Rightarrow> response" where
  "set_header k v rs =
     rs\<lparr>rs_Header := (if v = [] then AList.delete k (rs_Header rs) else AList.update k v (rs_Header rs))\<rparr>"

definition c_Status :: "int \<Rightarrow> response \<Rightarrow> response" where
  "c_Status code rs = rs\<lparr>rs_Status := code\<rparr>"

definition c_JSON :: "int \<Rightarrow> val \<Rightarrow> response \<Rightarrow> response" where
  "c_JSON code obj rs =
     (set_header ''Content-Type'' (if map_of (rs_Header rs) ''Content-Type'' = None
        then ''application/json; charset=utf-8'' else lookup_text (rs_Header rs) ''Content-Type'') rs)
       \<lparr>rs_Status := code, rs_Body := Json obj\<rparr>"

abbreviation obj_text :: "(string \<times> string) list \<Rightarrow> val" where
  "obj_text kvs \<equiv> VObj (map (\<lambda>(k, v). (k, VStr v)) kvs)"

definition failed :: "response \<Rightarrow> bool" where
  "failed rs \<longleftrightarrow> 400 \<le> rs_Status rs"

lemma set_header_sels [simp]:
  "rs_Status (set_header k v rs) = rs_Status rs" "rs_Body (set_header k v rs) = rs_Body rs"
  by (simp_all add: set_header_def)

lemma c_JSON_sels [simp]: "rs_Status (c_JSON code v rs) = code" "rs_Body (c_JSON code v rs) = Json v"
  by (simp_all add: c_JSON_def)

lemma c_Status_sels [simp]:
  "rs_Status (c_Status code rs) = code" "rs_Body (c_Status code rs) = rs_Body rs" "rs_Header (c_Status code rs) = rs_Header rs"
  by (simp_all add: c_Status_def)

section \<open>JSON bodies\<close>

text \<open>
  \<open>js_decode\<close> is \<^verbatim>\<open>json.Unmarshal\<close> into \<^verbatim>\<open>interface{}\<close> (\<open>Inl\<close>: the message of a syntax error), \<open>js_encode\<close>
  the text of \<^verbatim>\<open>json.Marshal\<close>, \<open>js_time\<close> how \<^verbatim>\<open>%v\<close> prints a time.
\<close>

record json_lib =
  js_decode :: "string \<Rightarrow> string + val"
  js_encode :: "val \<Rightarrow> string"
  js_time :: "int \<Rightarrow> string"

definition kind_of :: "val \<Rightarrow> string" where
  "kind_of v = (case v of VBool _ \<Rightarrow> ''bool'' | VNum _ \<Rightarrow> ''number'' | VArr _ \<Rightarrow> ''array'' | VObj _ \<Rightarrow> ''object''
     | _ \<Rightarrow> ''string'')"

definition mismatch :: "val \<Rightarrow> string \<Rightarrow> string" where
  "mismatch v t = ''json: cannot unmarshal '' @ kind_of v @ '' into Go value of type '' @ t"

text \<open>\<^verbatim>\<open>json.Unmarshal\<close> into a map and into a slice of maps; null leaves them empty.\<close>

definition decode_map :: "json_lib \<Rightarrow> string \<Rightarrow> string + (string \<times> val) list" where
  "decode_map js s =
     (case js_decode js s of
        Inl e \<Rightarrow> Inl e
      | Inr v \<Rightarrow> (case as_map v of Some kvs \<Rightarrow> Inr kvs | None \<Rightarrow> Inl (mismatch v ''map[string]interface {}'')))"

definition decode_maps :: "json_lib \<Rightarrow> string \<Rightarrow> string + (string \<times> val) list list" where
  "decode_maps js s =
     (case js_decode js s of
        Inl e \<Rightarrow> Inl e
      | Inr v \<Rightarrow>
          (case as_slice v of
             None \<Rightarrow> Inl (mismatch v ''[]map[string]interface {}'')
           | Some vs \<Rightarrow>
               (case find (\<lambda>x. as_map x = None) vs of
                  Some x \<Rightarrow> Inl (mismatch x ''map[string]interface {}'')
                | None \<Rightarrow> Inr (map (\<lambda>x. the (as_map x)) vs))))"

section \<open>Errors of the API\<close>

record Error =
  err_Code :: string
  err_Message :: string
  err_Details :: string
  err_Hint :: string
  err_Status :: int

definition Error_text :: "Error \<Rightarrow> string" where
  "Error_text e = ''['' @ err_Code e @ ''] '' @ err_Message e"

definition HTTPStatus :: "Error \<Rightarrow> int" where
  "HTTPStatus e = err_Status e"

definition mk_error :: "string \<Rightarrow> string \<Rightarrow> string \<Rightarrow> int \<Rightarrow> Error" where
  "mk_error code message details status =
     \<lparr>err_Code = code, err_Message = message, err_Details = details, err_Hint = [], err_Status = status\<rparr>"

text \<open>The JSON of an error: empty details and hint are left out, the status is not part of it.\<close>

definition error_json :: "Error \<Rightarrow> val" where
  "error_json e = obj_text ([(''code'', err_Code e), (''message'', err_Message e)] @
     (if err_Details e = [] then [] else [(''details'', err_Details e)]) @
     (if err_Hint e = [] then [] else [(''hint'', err_Hint e)]))"

definition ErrInvalidFilter :: "string \<Rightarrow> Error" where
  "ErrInvalidFilter detail = mk_error ''PGRST100'' ''Invalid filter syntax'' detail 400"

definition in_quotes :: "string \<Rightarrow> string" where
  "in_quotes s = CHR 0x27 # s @ [CHR 0x27]"

definition ErrInvalidColumn :: "string \<Rightarrow> Error" where
  "ErrInvalidColumn col = mk_error ''PGRST204'' (''Column '' @ in_quotes col @ '' not found in the table'') [] 400"

definition ErrInvalidOperator :: "string \<Rightarrow> Error" where
  "ErrInvalidOperator op = mk_error ''PGRST106'' (''Invalid operator '' @ in_quotes op)
     ''Supported operators: eq, neq, gt, gte, lt, lte, like, ilike, in, is, match, imatch'' 400"

definition ErrTableNotFound :: "string \<Rightarrow> Error" where
  "ErrTableNotFound name = mk_error ''PGRST205'' (''Table '' @ in_quotes name @ '' not found'') [] 404"

definition ErrMethodNotAllowed :: "string \<Rightarrow> Error" where
  "ErrMethodNotAllowed method = mk_error ''PGRST201'' (''Method '' @ in_quotes method @ '' not allowed'') [] 405"

definition ErrInvalidBody :: "string \<Rightarrow> Error" where
  "ErrInvalidBody detail = mk_error ''PGRST200'' ''Invalid request body'' detail 422"

definition ErrInvalidRange :: "string \<Rightarrow> Error" where
  "ErrInvalidRange detail = mk_error ''PGRST106'' ''Invalid Range header'' detail 416"

definition ErrNoOverlap :: Error where
  "ErrNoOverlap = mk_error ''PGRST106'' ''Range start is greater than the total count'' [] 416"

definition ErrDatabase :: "string \<Rightarrow> Error" where
  "ErrDatabase detail = mk_error ''PGRST100'' ''Database error'' detail 500"

definition ErrConflict :: "string \<Rightarrow> Error" where
  "ErrConflict detail = mk_error ''23505'' ''Unique constraint violation'' detail 409"

definition ErrInvalidOrder :: "string \<Rightarrow> Error" where
  "ErrInvalidOrder detail = mk_error ''PGRST100'' ''Invalid order syntax'' detail 400"

definition ErrSingularReturn :: Error where
  "ErrSingularReturn = mk_error ''PGRST106'' ''Multiple rows returned but singular response requested'' [] 300"

text \<open>\<^verbatim>\<open>c.JSON(status, err)\<close>.\<close>

definition reply_error :: "int \<Rightarrow> Error \<Rightarrow> response" where
  "reply_error status e = c_JSON status (error_json e) new_response"

lemma reply_error_sels [simp]:
  "rs_Status (reply_error status e) = status" "rs_Body (reply_error status e) = Json (error_json e)"
  by (simp_all add: reply_error_def)

end
