(* ===== verification/RateLimit.thy ===== *)
theory RateLimit
  imports Config Http
begin

text \<open>
  \<^verbatim>\<open>internal/ratelimit/limiter.go\<close> and \<^verbatim>\<open>middleware.go\<close>: one token bucket per client, or per client and
  table.

  The bucket itself is \<^verbatim>\<open>golang.org/x/time/rate\<close>, a parameter: \<open>lib_new\<close> makes a bucket for a rate and a
  burst, \<open>lib_allow\<close> asks one for a token at a time (in seconds).  A limiter holds its mutex in every
  operation, so an operation is one step.
\<close>

section \<open>The limiter\<close>

record 'b bucket_lib =
  lib_new :: "float64 \<Rightarrow> int \<Rightarrow> 'b"
  lib_allow :: "nat \<Rightarrow> 'b \<Rightarrow> bool \<times> 'b"

record 'b keyLimiter =
  kl_limiter :: 'b
  kl_lastSeen :: nat

record 'b Limiter =
  lim_rate :: float64
  lim_burst :: int
  lim_limiters :: "(string \<times> 'b keyLimiter) list"

definition newLimiter :: "float64 \<Rightarrow> int \<Rightarrow> 'b Limiter" where
  "newLimiter rps burst = \<lparr>lim_rate = rps, lim_burst = burst, lim_limiters = []\<rparr>"

definition Allow :: "'b bucket_lib \<Rightarrow> nat \<Rightarrow> string \<Rightarrow> 'b Limiter \<Rightarrow> bool \<times> 'b Limiter" where
  "Allow lib now key l =
     (let b = (case map_of (lim_limiters l) key of
                 None \<Rightarrow> lib_new lib (lim_rate l) (lim_burst l)
               | Some kl \<Rightarrow> kl_limiter kl);
          (ok, b') = lib_allow lib now b
      in (ok, l\<lparr>lim_limiters := AList.update key \<lparr>kl_limiter = b', kl_lastSeen = now\<rparr> (lim_limiters l)\<rparr>))"

text \<open>One tick of the cleanup, every five minutes: what was not used for ten minutes goes.\<close>

definition limiter_cleanup :: "nat \<Rightarrow> 'b Limiter \<Rightarrow> 'b Limiter" where
  "limiter_cleanup now l =
     l\<lparr>lim_limiters := filter (\<lambda>(_, kl). \<not> kl_lastSeen kl + 600 < now) (lim_limiters l)\<rparr>"

definition Len :: "'b Limiter \<Rightarrow> nat" where
  "Len l = length (lim_limiters l)"

section \<open>The middleware\<close>

record 'b LimiterManager =
  lm_global :: "'b Limiter option"
  lm_tables :: "(string \<times> 'b Limiter) list"
  lm_cfg :: RateLimitConfig

definition NewManager :: "RateLimitConfig \<Rightarrow> 'b LimiterManager" where
  "NewManager cfg =
     \<lparr>lm_global = (if rl_Enabled cfg then Some (newLimiter (rl_RPS cfg) (rl_Burst cfg)) else None),
      lm_tables = (if rl_Enabled cfg
                   then map (\<lambda>(table, tc). (table, newLimiter (rlt_RPS tc) (rlt_Burst tc))) (rl_PerTable cfg) else []),
      lm_cfg = cfg\<rparr>"

text \<open>The limiter a request is counted by (\<open>None\<close> is the global one) and the key it has there.\<close>

definition limiterKey :: "'b LimiterManager \<Rightarrow> string \<Rightarrow> string \<Rightarrow> string option \<times> string" where
  "limiterKey m clientIP tableName =
     (if tableName \<noteq> [] \<and> map_of (lm_tables m) tableName \<noteq> None
      then (Some tableName, clientIP @ '':'' @ tableName)
      else (None, clientIP))"

definition too_many :: "'b LimiterManager \<Rightarrow> response" where
  "too_many m =
     c_JSON 429 (obj_text [(''code'', ''PGRST429''), (''message'', ''Rate limit exceeded''), (''details'', ''Try again in 1 second'')])
       (set_header ''X-RateLimit-Limit'' (Itoa (rl_Burst (lm_cfg m))) (set_header ''Retry-After'' ''1'' new_response))"

text \<open>\<open>None\<close>: the next handler is called.\<close>

definition limit :: "'b bucket_lib \<Rightarrow> nat \<Rightarrow> string \<Rightarrow> request \<Rightarrow> 'b LimiterManager \<Rightarrow> response option \<times> 'b LimiterManager" where
  "limit lib now clientIP rq m =
     (if \<not> rl_Enabled (lm_cfg m) then (None, m)
      else
        case limiterKey m clientIP (Param rq ''table'') of
          (None, key) \<Rightarrow>
            (let (ok, l) = Allow lib now key (the (lm_global m))
             in (if ok then None else Some (too_many m), m\<lparr>lm_global := Some l\<rparr>))
        | (Some table, key) \<Rightarrow>
            (let (ok, l) = Allow lib now key (the (map_of (lm_tables m) table))
             in (if ok then None else Some (too_many m), m\<lparr>lm_tables := AList.update table l (lm_tables m)\<rparr>)))"

section \<open>Runs of a limiter\<close>

datatype event = Ask string nat | Clean nat

fun run_events :: "'b bucket_lib \<Rightarrow> event list \<Rightarrow> 'b Limiter \<Rightarrow> (string \<times> bool) list" where
  "run_events lib [] l = []"
| "run_events lib (Ask key now # es) l = (let (ok, l') = Allow lib now key l in (key, ok) # run_events lib es l')"
| "run_events lib (Clean now # es) l = run_events lib es (limiter_cleanup now l)"

text \<open>One bucket asked at the given times.\<close>

fun run_bucket :: "'b bucket_lib \<Rightarrow> nat list \<Rightarrow> 'b \<Rightarrow> bool list" where
  "run_bucket lib [] b = []"
| "run_bucket lib (now # ts) b = (let (ok, b') = lib_allow lib now b in ok # run_bucket lib ts b')"

fun event_time :: "event \<Rightarrow> nat" where
  "event_time (Ask key now) = now"
| "event_time (Clean now) = now"

definition times_of :: "string \<Rightarrow> event list \<Rightarrow> nat list" where
  "times_of key es = List.map_filter (\<lambda>e. case e of Ask k now \<Rightarrow> if k = key then Some now else None | Clean now \<Rightarrow> None) es"

definition answers_of :: "string \<Rightarrow> (string \<times> bool) list \<Rightarrow> bool list" where
  "answers_of key rs = map snd (filter (\<lambda>(k, ok). k = key) rs)"

lemma times_of_simps [simp]:
  "times_of key [] = []" "times_of key (Clean now # es) = times_of key es"
  "times_of key (Ask k now # es) = (if k = key then now # times_of key es else times_of key es)"
  by (simp_all add: times_of_def List.map_filter_simps)

lemma answers_of_simps [simp]:
  "answers_of key [] = []" "answers_of key ((k, ok) # rs) = (if k = key then ok # answers_of key rs else answers_of key rs)"
  by (simp_all add: answers_of_def)

text \<open>
  What the limiter relies on: a bucket that has not been used for more than ten minutes answers, and
  is left, like a new one; so the rate must fill it within ten minutes.
\<close>

definition refills :: "'b bucket_lib \<Rightarrow> 'b \<Rightarrow> bool" where
  "refills lib fresh \<longleftrightarrow>
     (\<forall>t0 now b. t0 + 600 < now \<longrightarrow> lib_allow lib now (snd (lib_allow lib t0 b)) = lib_allow lib now fresh)"

text \<open>The two buckets cannot be told apart from time \<open>t\<close> on.\<close>

definition same :: "'b bucket_lib \<Rightarrow> nat \<Rightarrow> 'b \<Rightarrow> 'b \<Rightarrow> bool" where
  "same lib t b b' \<longleftrightarrow> (\<forall>now \<ge> t. lib_allow lib now b = lib_allow lib now b')"

lemma same_later: "same lib t b b' \<Longrightarrow> t \<le> t' \<Longrightarrow> same lib t' b b'"
  by (simp add: same_def)

lemma same_trans: "same lib t a b \<Longrightarrow> same lib t b c \<Longrightarrow> same lib t a c"
  by (simp add: same_def)

lemma same_fresh: "refills lib fresh \<Longrightarrow> t0 + 600 < t \<Longrightarrow> same lib t (snd (lib_allow lib t0 b)) fresh"
  by (simp add: same_def refills_def)

text \<open>At time \<open>t\<close> the limiter treats \<open>key\<close> as the bucket \<open>b\<close>.\<close>

definition tracks :: "'b bucket_lib \<Rightarrow> string \<Rightarrow> nat \<Rightarrow> 'b \<Rightarrow> 'b Limiter \<Rightarrow> bool" where
  "tracks lib key t b l \<longleftrightarrow> distinct (map fst (lim_limiters l)) \<and>
     (case map_of (lim_limiters l) key of
        None \<Rightarrow> same lib t b (lib_new lib (lim_rate l) (lim_burst l))
      | Some kl \<Rightarrow> same lib t b (kl_limiter kl) \<and> kl_lastSeen kl \<le> t \<and>
          (\<exists>b0. kl_limiter kl = snd (lib_allow lib (kl_lastSeen kl) b0)))"

lemma tracks_later: "tracks lib key t b l \<Longrightarrow> t \<le> t' \<Longrightarrow> tracks lib key t' b l"
  by (auto simp: tracks_def same_later simp del: map_of_eq_Some_iff split: option.splits)

lemma map_of_filter_distinct:
  "distinct (map fst m) \<Longrightarrow> map_of (filter P m) k = (case map_of m k of None \<Rightarrow> None | Some v \<Rightarrow> if P (k, v) then Some v else None)"
  by (induction m) (auto simp: map_of_eq_None_iff split: option.split dest: map_of_SomeD intro: rev_image_eqI)

lemma tracks_Allow:
  assumes "tracks lib key t b l" "t \<le> now" "Allow lib now k l = (ok, l')"
  shows "tracks lib key now (if k = key then snd (lib_allow lib now b) else b) l'"
    and "k = key \<Longrightarrow> ok = fst (lib_allow lib now b)"
    and "lim_rate l' = lim_rate l \<and> lim_burst l' = lim_burst l"
proof -
  let ?b = "case map_of (lim_limiters l) k of None \<Rightarrow> lib_new lib (lim_rate l) (lim_burst l) | Some kl \<Rightarrow> kl_limiter kl"
  have l': "ok = fst (lib_allow lib now ?b)"
    "l' = l\<lparr>lim_limiters := AList.update k \<lparr>kl_limiter = snd (lib_allow lib now ?b), kl_lastSeen = now\<rparr> (lim_limiters l)\<rparr>"
    using assms(3) by (simp_all add: Allow_def Let_def split_beta)
  have mine: "k = key \<Longrightarrow> lib_allow lib now ?b = lib_allow lib now b"
    using assms(1,2) by (auto simp: tracks_def same_def simp del: map_of_eq_Some_iff split: option.splits)
  show "k = key \<Longrightarrow> ok = fst (lib_allow lib now b)" using mine l'(1) by simp
  show "lim_rate l' = lim_rate l \<and> lim_burst l' = lim_burst l" by (simp add: l'(2))
  have "distinct (map fst (AList.update k kl (lim_limiters l)))" for kl
    using assms(1) by (simp add: tracks_def distinct_update)
  moreover have "tracks lib key now b l" by (rule tracks_later [OF assms(1,2)])
  ultimately show "tracks lib key now (if k = key then snd (lib_allow lib now b) else b) l'"
    using mine by (auto simp: tracks_def l'(2) update_conv' same_def simp del: map_of_eq_Some_iff split: option.splits)
qed

lemma tracks_cleanup:
  assumes "tracks lib key t b l" "t \<le> now" "refills lib (lib_new lib (lim_rate l) (lim_burst l))"
  shows "tracks lib key now b (limiter_cleanup now l)"
proof -
  have d: "distinct (map fst (lim_limiters l))" using assms(1) by (simp add: tracks_def)
  have "tracks lib key now b l" by (rule tracks_later [OF assms(1,2)])
  with d show ?thesis
    by (auto simp: tracks_def limiter_cleanup_def map_of_filter_distinct distinct_map_filter simp del: map_of_eq_Some_iff split: option.splits
        intro: same_trans same_fresh [OF assms(3)])
qed

lemma run_events_tracks:
  assumes "refills lib (lib_new lib rps burst)" "sorted (t # map event_time es)"
    "tracks lib key t b l" "lim_rate l = rps" "lim_burst l = burst"
  shows "answers_of key (run_events lib es l) = run_bucket lib (times_of key es) b"
  using assms(2-)
proof (induction es arbitrary: t b l)
  case (Cons e es)
  show ?case
  proof (cases e)
    case (Ask k now)
    obtain ok l' where a: "Allow lib now k l = (ok, l')" by fastforce
    note step = tracks_Allow [OF Cons.prems(2) _ a]
    have "t \<le> now" "sorted (now # map event_time es)" using Cons.prems(1) Ask by auto
    with Cons.IH [OF this(2) step(1)] step(2,3) Cons.prems(3,4) show ?thesis
      by (auto simp: Ask a split_beta)
  next
    case (Clean now)
    have "t \<le> now" "sorted (now # map event_time es)" using Cons.prems(1) Clean by auto
    with Cons.IH [OF this(2) tracks_cleanup [OF Cons.prems(2)]] Cons.prems(3,4) assms(1) show ?thesis
      by (auto simp: Clean limiter_cleanup_def)
  qed
qed simp

section \<open>Properties\<close>

text \<open>A bucket of five tokens that gains one every second, for the example.\<close>

definition five_per_second :: "(nat \<times> nat) bucket_lib" where
  "five_per_second = \<lparr>lib_new = (\<lambda>rps burst. (5, 0)),
     lib_allow = (\<lambda>now (tokens, t0). let n = min 5 (tokens + (now - t0)) in if 0 < n then (True, (n - 1, now)) else (False, (0, now)))\<rparr>"



end
