(* ===== verification/Startup.thy ===== *)
theory Startup
  imports Hub Migration RateLimit
begin

text \<open>
  \<^verbatim>\<open>cmd/rest-trans/main.go\<close> from the configuration to the running server, with the goroutines it starts
  and stops, and the loop of \<^verbatim>\<open>internal/notification/listener.go\<close>.

  What lies outside is the record \<open>boot\<close>: whether \<^verbatim>\<open>sql.Open\<close> accepts a connection text, the result
  of each ping, the catalogue of each schema, and the error of executing a script.  An \<open>Error\<close> is
  \<^verbatim>\<open>os.Exit(1)\<close> with the message that was logged.
\<close>

section \<open>Parts\<close>

record boot =
  bt_open :: "string \<Rightarrow> string option"
  bt_ping :: "int \<Rightarrow> string option"
  bt_cats :: "string \<Rightarrow> catalog"
  bt_execs :: "string \<Rightarrow> string option"

text \<open>The settings of the connection pool; a life time that is not set stays that of the library.\<close>

record PoolSettings =
  ps_MaxOpenConns :: int
  ps_MaxIdleConns :: int
  ps_ConnMaxLifetime :: "duration option"
  ps_ConnMaxIdleTime :: "duration option"

definition poolSettings :: "PoolConfig \<Rightarrow> PoolSettings" where
  "poolSettings p =
     \<lparr>ps_MaxOpenConns = pool_MaxOpen p, ps_MaxIdleConns = pool_MaxIdle p,
      ps_ConnMaxLifetime = (if pool_ConnMaxLife p > 0 then Some (pool_ConnMaxLife p) else None),
      ps_ConnMaxIdleTime = (if pool_ConnMaxIdle p > 0 then Some (pool_ConnMaxIdle p) else None)\<rparr>"

record SchemaWatcher =
  wa_schemas :: "string list"
  wa_interval :: duration
  wa_autoNotify :: bool

definition NewWatcher :: "string list \<Rightarrow> duration \<Rightarrow> bool \<Rightarrow> SchemaWatcher" where
  "NewWatcher schemas interval autoNotify =
     \<lparr>wa_schemas = schemas, wa_interval = interval, wa_autoNotify = autoNotify\<rparr>"

text \<open>The hub of a listener is state of the program, its stop channel that of its goroutine.\<close>

record Listener =
  li_dsn :: string
  li_schemas :: "string list"
  li_tables :: "string \<Rightarrow> string list"

definition NewListener :: "string \<Rightarrow> string list \<Rightarrow> (string \<Rightarrow> string list) \<Rightarrow> Listener" where
  "NewListener dsn schemas tables = \<lparr>li_dsn = dsn, li_schemas = schemas, li_tables = tables\<rparr>"

definition channels :: "Listener \<Rightarrow> string list" where
  "channels l = buildChannels (li_schemas l) (li_tables l)"

text \<open>
  The goroutines, with the period of those that tick.  \<^verbatim>\<open>time.NewTicker\<close> panics when the period is not
  positive, and a panic in a goroutine ends the program.  A limiter ticks every five minutes; \<open>None\<close>
  is the global one.
\<close>

datatype task = CleanupTask duration | WatcherTask duration | ListenerTask | LimiterTask "string option"

definition task_panics :: "task \<Rightarrow> bool" where
  "task_panics t = (case t of CleanupTask d \<Rightarrow> d \<le> 0 | WatcherTask d \<Rightarrow> d \<le> 0 | _ \<Rightarrow> False)"

definition limiterTasks :: "RateLimitConfig \<Rightarrow> task list" where
  "limiterTasks cfg =
     (if rl_Enabled cfg then LimiterTask None # map (\<lambda>(table, _). LimiterTask (Some table)) (rl_PerTable cfg) else [])"

section \<open>Start\<close>

record 'b process =
  pr_cfg :: Config
  pr_pool :: PoolSettings
  pr_store :: SchemaStore
  pr_manager :: "int option"
  pr_watcher :: "SchemaWatcher option"
  pr_hub :: Hub
  pr_listener :: Listener
  pr_limits :: "'b LimiterManager"
  pr_addr :: string
  pr_tasks :: "task list"

definition startManager :: "(string \<Rightarrow> string option) \<Rightarrow> TransactionsConfig \<Rightarrow> (int option \<times> task list) outcome" where
  "startManager execs t =
     (if txc_Enabled t then
        (case NewTxManager execs (txc_TTL t) of
           Inl e \<Rightarrow> Error ''failed to initialize transaction manager''
         | Inr m \<Rightarrow> Ok (Some m, [CleanupTask (txc_CleanupInterval t)]))
      else Ok (None, []))"

definition startWatcher :: "string list \<Rightarrow> HotReloadConfig \<Rightarrow> SchemaWatcher option \<times> task list" where
  "startWatcher schemas h =
     (if hr_Enabled h then
        (Some (NewWatcher schemas (hr_Interval h) (hr_AutoNotifyTriggers h)), [WatcherTask (hr_Interval h)])
      else (None, []))"

definition main_connect :: "boot \<Rightarrow> Config \<Rightarrow> unit outcome" where
  "main_connect b cfg =
     (case bt_open b (DSN cfg) of
        Some e \<Rightarrow> Error ''failed to open database''
      | None \<Rightarrow>
          (case fst (retryPingDB (bt_ping b) 15 True) of
             Some e \<Rightarrow> Error ''failed to ping database''
           | None \<Rightarrow> Ok ()))"

definition main_load :: "boot \<Rightarrow> Config \<Rightarrow> SchemaStore outcome" where
  "main_load b cfg =
     (case startup (bt_cats b) (Schemas cfg) of
        Error e \<Rightarrow> Error ''failed to introspect schema''
      | r \<Rightarrow> r)"

definition main_start :: "boot \<Rightarrow> Config \<Rightarrow> 'b process outcome" where
  "main_start b cfg =
     obind (main_connect b cfg) (\<lambda>_.
     obind (main_load b cfg) (\<lambda>store.
     obind (startManager (bt_execs b) (cfg_Transactions cfg)) (\<lambda>(txManager, cleaning).
       let schemas = Schemas cfg;
           (w, watching) = startWatcher schemas (cfg_HotReload cfg);
           listener = NewListener (DSN cfg) schemas (tablesBySchema store schemas)
       in Ok \<lparr>pr_cfg = cfg, pr_pool = poolSettings (db_Pool (cfg_Database cfg)), pr_store = store,
              pr_manager = txManager, pr_watcher = w, pr_hub = NewHub, pr_listener = listener,
              pr_limits = NewManager (cfg_RateLimit cfg), pr_addr = ServerAddr cfg,
              pr_tasks = cleaning @ watching @ ListenerTask # limiterTasks (cfg_RateLimit cfg)\<rparr>)))"

section \<open>Shutdown\<close>

text \<open>After a signal; what a stop leaves is the tasks that still run.\<close>

definition stopListener :: "task list \<Rightarrow> task list" where
  "stopListener ts = filter (\<lambda>t. t \<noteq> ListenerTask) ts"

definition stopLimiters :: "'b LimiterManager \<Rightarrow> task list \<Rightarrow> task list" where
  "stopLimiters m ts =
     filter (\<lambda>t. \<not> (t = LimiterTask None \<and> lm_global m \<noteq> None) \<and>
                 t \<notin> set (map (\<lambda>(table, _). LimiterTask (Some table)) (lm_tables m))) ts"

definition is_cleanup :: "task \<Rightarrow> bool" where
  "is_cleanup t = (case t of CleanupTask _ \<Rightarrow> True | _ \<Rightarrow> False)"

definition StopCleanup :: "task list \<Rightarrow> task list" where
  "StopCleanup ts = filter (\<lambda>t. \<not> is_cleanup t) ts"

definition main_stop :: "'b process \<Rightarrow> task list" where
  "main_stop p =
     (let ts = stopLimiters (pr_limits p) (stopListener (pr_tasks p))
      in if pr_manager p \<noteq> None then StopCleanup ts else ts)"

section \<open>The listener\<close>

text \<open>What the \<^verbatim>\<open>select\<close> of the loop receives, in the order in which it does; a reconnection gives a nil.\<close>

datatype arrival = CtxDone | StopRequested | NotifyClosed | Notified "Event option"

fun listenLoop :: "(nat list \<Rightarrow> nat list) \<Rightarrow> arrival list \<Rightarrow> Hub \<Rightarrow> Hub" where
  "listenLoop ord [] h = h"
| "listenLoop ord (CtxDone # as) h = h"
| "listenLoop ord (StopRequested # as) h = h"
| "listenLoop ord (NotifyClosed # as) h = h"
| "listenLoop ord (Notified None # as) h = listenLoop ord as h"
| "listenLoop ord (Notified (Some n) # as) h =
     listenLoop ord as (Broadcast ord \<lparr>ev_Channel = ev_Channel n, ev_Payload = ev_Payload n\<rparr> h)"

text \<open>\<open>listens\<close> is the error of the library's \<^verbatim>\<open>Listen\<close>; the first one ends the listener.\<close>

definition listening :: "(string \<Rightarrow> string option) \<Rightarrow> Listener \<Rightarrow> bool" where
  "listening listens l \<longleftrightarrow> list_all (\<lambda>ch. listens ch = None) (channels l)"

definition listen :: "(string \<Rightarrow> string option) \<Rightarrow> Listener \<Rightarrow> (nat list \<Rightarrow> nat list) \<Rightarrow> arrival list \<Rightarrow> Hub \<Rightarrow> Hub" where
  "listen listens l ord as h = (if listening listens l then listenLoop ord as h else h)"

section \<open>What a start needs\<close>

lemma main_connect_iff:
  "main_connect b cfg = Ok () \<longleftrightarrow> bt_open b (DSN cfg) = None \<and> (\<exists>i \<in> {0..14}. bt_ping b i = None)"
proof -
  obtain res calls pauses where r: "retryPingDB (bt_ping b) 15 True = (res, calls, pauses)" by (cases "retryPingDB (bt_ping b) 15 True")
  have "res = (case find (\<lambda>j. bt_ping b j = None) [0..14] of Some j \<Rightarrow> None | None \<Rightarrow> bt_ping b 14)"
    using retryPingDB_spec [of "bt_ping b" 15 True] r by (auto simp: Let_def split: option.splits)
  moreover have "find (\<lambda>j. bt_ping b j = None) [0..14] = None \<longleftrightarrow> \<not> (\<exists>i \<in> {0..14}. bt_ping b i = None)"
    by (auto simp: find_None_iff)
  ultimately have "res = None \<longleftrightarrow> (\<exists>i \<in> {0..14}. bt_ping b i = None)"
    by (cases "find (\<lambda>j. bt_ping b j = None) [0..14]") auto
  then show ?thesis by (auto simp: main_connect_def r split: option.split)
qed

lemma Introspect_readable: "(\<exists>ts. Introspect (cats s) = Ok ts) \<longleftrightarrow> schema_tables cats s \<noteq> None"
  by (simp add: schema_tables_def split: outcome.split)

lemma loadSchema_iff: "(\<exists>st. loadSchema cats s store = Ok st) \<longleftrightarrow> schema_tables cats (TrimSpace s) \<noteq> None"
  unfolding Introspect_readable [symmetric]
  by (cases "IntrospectFunctions (cats (TrimSpace s)) (TrimSpace s)") (auto simp: loadSchema_def Let_def obind_Ok_iff)

lemma loadSchemas_iff:
  "(\<exists>st. loadSchemas cats ss store = Ok st) \<longleftrightarrow> (\<forall>s \<in> set ss. schema_tables cats (TrimSpace s) \<noteq> None)"
proof (induction ss arbitrary: store)
  case (Cons s ss)
  show ?case
  proof (cases "loadSchema cats s store")
    case (Ok store')
    then show ?thesis using Cons.IH [of store'] loadSchema_iff [of cats s store] by auto
  qed (use loadSchema_iff [of cats s store] in auto)
qed simp

lemma main_load_iff: "main_load b cfg = Ok st \<longleftrightarrow> startup (bt_cats b) (Schemas cfg) = Ok st"
  by (simp add: main_load_def split: outcome.split)

lemma startManager_iff:
  "startManager execs t = Ok (m, ts) \<longleftrightarrow>
     (if txc_Enabled t then execs migrationSQL = None \<and> m = Some (txc_TTL t) \<and> ts = [CleanupTask (txc_CleanupInterval t)]
      else m = None \<and> ts = [])"
proof (cases "NewTxManager execs (txc_TTL t)")
  case (Inl e)
  then have "execs migrationSQL \<noteq> None" using NewTxManager_iff [of execs "txc_TTL t"] by fastforce
  then show ?thesis by (auto simp: startManager_def Inl)
next
  case (Inr m')
  then show ?thesis using NewTxManager_iff [of execs "txc_TTL t" m'] by (auto simp: startManager_def)
qed

text \<open>What is known of a process that runs.\<close>

definition started :: "boot \<Rightarrow> Config \<Rightarrow> 'b process \<Rightarrow> bool" where
  "started b cfg p \<longleftrightarrow>
     startup (bt_cats b) (Schemas cfg) = Ok (pr_store p) \<and> pr_cfg p = cfg \<and> pr_hub p = NewHub \<and>
     pr_manager p = (if txc_Enabled (cfg_Transactions cfg) then Some (txc_TTL (cfg_Transactions cfg)) else None) \<and>
     pr_watcher p = fst (startWatcher (Schemas cfg) (cfg_HotReload cfg)) \<and>
     pr_listener p = NewListener (DSN cfg) (Schemas cfg) (tablesBySchema (pr_store p) (Schemas cfg)) \<and>
     pr_limits p = NewManager (cfg_RateLimit cfg) \<and>
     pr_tasks p =
       (if txc_Enabled (cfg_Transactions cfg) then [CleanupTask (txc_CleanupInterval (cfg_Transactions cfg))] else []) @
       snd (startWatcher (Schemas cfg) (cfg_HotReload cfg)) @ ListenerTask # limiterTasks (cfg_RateLimit cfg)"

lemma main_start_started: "main_start b cfg = Ok p \<Longrightarrow> started b cfg p"
  by (cases "startWatcher (Schemas cfg) (cfg_HotReload cfg)")
    (auto simp: main_start_def obind_Ok_iff main_load_iff startManager_iff started_def Let_def
      split: prod.splits if_splits)

lemma main_start_iff:
  "(\<exists>p. (main_start b cfg :: 'b process outcome) = Ok p) \<longleftrightarrow>
     main_connect b cfg = Ok () \<and> (\<exists>st. main_load b cfg = Ok st) \<and>
     (\<exists>x. startManager (bt_execs b) (cfg_Transactions cfg) = Ok x)"
  by (cases "startWatcher (Schemas cfg) (cfg_HotReload cfg)") (auto simp: main_start_def obind_Ok_iff Let_def split: prod.split)

lemma startManager_Ok_iff:
  "(\<exists>x. startManager execs t = Ok x) \<longleftrightarrow> (txc_Enabled t \<longrightarrow> execs migrationSQL = None)"
  by (auto simp: startManager_iff)

section \<open>Goroutines\<close>

lemma limiterTasks_calm [simp]: "t \<in> set (limiterTasks rl) \<Longrightarrow> \<not> task_panics t"
  by (auto simp: limiterTasks_def task_panics_def split: if_splits)

lemma started_panics:
  assumes "started b cfg p"
  shows "list_ex task_panics (pr_tasks p) \<longleftrightarrow>
    txc_Enabled (cfg_Transactions cfg) \<and> txc_CleanupInterval (cfg_Transactions cfg) \<le> 0 \<or>
    hr_Enabled (cfg_HotReload cfg) \<and> hr_Interval (cfg_HotReload cfg) \<le> 0"
proof -
  have "\<not> list_ex task_panics (ListenerTask # limiterTasks (cfg_RateLimit cfg))"
    by (simp add: list_ex_iff) (simp add: task_panics_def)
  moreover have "list_ex task_panics (snd (startWatcher schemas h)) \<longleftrightarrow> hr_Enabled h \<and> hr_Interval h \<le> 0" for schemas h
    by (simp add: startWatcher_def task_panics_def)
  moreover have "list_ex task_panics (if txc_Enabled t then [CleanupTask (txc_CleanupInterval t)] else []) \<longleftrightarrow>
      txc_Enabled t \<and> txc_CleanupInterval t \<le> 0" for t
    by (simp add: task_panics_def)
  moreover have "pr_tasks p =
       (if txc_Enabled (cfg_Transactions cfg) then [CleanupTask (txc_CleanupInterval (cfg_Transactions cfg))] else []) @
       snd (startWatcher (Schemas cfg) (cfg_HotReload cfg)) @ ListenerTask # limiterTasks (cfg_RateLimit cfg)"
    using assms unfolding started_def by blast
  ultimately show ?thesis by (simp only: list_ex_append) blast
qed

text \<open>A shutdown stops every goroutine but the watcher, which ends with its context when \<^verbatim>\<open>main\<close> returns.\<close>

lemma stopLimiters_New: "stopLimiters (NewManager rl) ts = filter (\<lambda>t. t \<notin> set (limiterTasks rl)) ts"
proof -
  have "t \<in> set (limiterTasks rl) \<longleftrightarrow> t = LimiterTask None \<and> lm_global m \<noteq> None \<or>
      t \<in> set (map (\<lambda>(table, _). LimiterTask (Some table)) (lm_tables m))" if "m = NewManager rl" for t and m :: "'b LimiterManager"
    by (simp add: that limiterTasks_def NewManager_def image_image split_def)
  then show ?thesis unfolding stopLimiters_def by (intro filter_cong) auto
qed

lemma limiterTasks_kind:
  "CleanupTask d \<notin> set (limiterTasks rl)" "WatcherTask d \<notin> set (limiterTasks rl)" "ListenerTask \<notin> set (limiterTasks rl)"
  by (auto simp: limiterTasks_def)

lemma main_stop_rest:
  assumes "started b cfg p"
  shows "main_stop p = snd (startWatcher (Schemas cfg) (cfg_HotReload cfg))"
proof -
  have "filter (\<lambda>t. t \<notin> set (limiterTasks rl)) (filter (\<lambda>t. t \<noteq> ListenerTask) (limiterTasks rl)) = []" for rl
    by (simp add: filter_empty_conv)
  with assms show ?thesis
    by (cases "txc_Enabled (cfg_Transactions cfg)")
      (auto simp: main_stop_def started_def startWatcher_def stopListener_def stopLimiters_New StopCleanup_def is_cleanup_def
        limiterTasks_kind simp del: filter_filter)
qed

section \<open>The loop of the listener\<close>

text \<open>The notifications that reach the hub: those before the loop ends, without the nils.\<close>

fun delivered :: "arrival list \<Rightarrow> Event list" where
  "delivered (Notified (Some n) # as) = n # delivered as"
| "delivered (Notified None # as) = delivered as"
| "delivered _ = []"

lemma listenLoop_delivered: "listenLoop ord as h = fold (Broadcast ord) (delivered as) h"
proof -
  have "\<lparr>ev_Channel = ev_Channel n, ev_Payload = ev_Payload n\<rparr> = n" for n :: Event by simp
  then show ?thesis by (induction as arbitrary: h rule: delivered.induct) (simp_all only: listenLoop.simps delivered.simps fold.simps, simp_all)
qed

section \<open>Channels\<close>

lemma GetTable_listed: "s \<noteq> [] \<Longrightarrow> t \<in> fst ` set (TablesBySchema st s) \<longleftrightarrow> GetTable st s t \<noteq> None"
proof (cases "map_of (ss_schemas st) s")
  case (Some ts)
  assume "s \<noteq> []"
  then show ?thesis by (simp add: TablesBySchema_def GetTable_maps Some) (metis map_of_eq_None_iff option.exhaust option.simps(3))
qed (simp add: TablesBySchema_def GetTable_maps)

text \<open>
  The channels that the listener listens on: those of the tables found at startup, of the schemas
  that are configured without surrounding spaces.
\<close>

lemma startup_channels:
  assumes "started b cfg p" "[] \<notin> set (Schemas cfg)"
  shows "set (channels (pr_listener p)) =
    {channelName s t | s t. s \<in> set (Schemas cfg) \<and> s \<in> set (map TrimSpace (Schemas cfg)) \<and>
       t \<in> fst ` set (the (schema_tables (bt_cats b) s))}"
proof -
  let ?schemas = "Schemas cfg"
  have st: "startup (bt_cats b) ?schemas = Ok (pr_store p)" using assms(1) by (simp add: started_def)
  have ok: "\<exists>ts. schema_tables (bt_cats b) (TrimSpace s) = Some ts" if "s \<in> set ?schemas" for s
    using loadSchemas_iff [of "bt_cats b" ?schemas] st that unfolding startup_def by blast
  have listed: "t \<in> set (tablesBySchema (pr_store p) ?schemas s) \<longleftrightarrow>
      s \<in> set (map TrimSpace ?schemas) \<and> t \<in> fst ` set (the (schema_tables (bt_cats b) s))"
    if s: "s \<in> set ?schemas" for s t
  proof -
    have ne: "s \<noteq> []" using assms(2) s by auto
    have "t \<in> set (tablesBySchema (pr_store p) ?schemas s) \<longleftrightarrow> GetTable (pr_store p) s t \<noteq> None"
      using tablesBySchema_set [OF s] GetTable_listed [OF ne] by simp
    also have "\<dots> \<longleftrightarrow> s \<in> set (map TrimSpace ?schemas) \<and> map_of (the (schema_tables (bt_cats b) s)) t \<noteq> None"
    proof (cases "s \<in> set (map TrimSpace ?schemas)")
      case True
      then obtain ts where "schema_tables (bt_cats b) s = Some ts" using ok by force
      then show ?thesis using True by (simp add: startup_lookup [OF st ne] del: set_map)
    qed (simp add: startup_lookup [OF st ne] del: set_map)
    finally show ?thesis by (simp add: map_of_eq_None_iff)
  qed
  have "set (channels (pr_listener p)) = (\<Union>s \<in> set ?schemas. channelName s ` set (tablesBySchema (pr_store p) ?schemas s))"
    using assms(1) buildChannels_set by (simp add: started_def channels_def NewListener_def)
  also have "\<dots> = {channelName s t | s t. s \<in> set ?schemas \<and> t \<in> set (tablesBySchema (pr_store p) ?schemas s)}" by auto
  also have "\<dots> = {channelName s t | s t. s \<in> set ?schemas \<and> s \<in> set (map TrimSpace ?schemas) \<and>
      t \<in> fst ` set (the (schema_tables (bt_cats b) s))}"
    using listed by (intro Collect_cong ex_cong1) (metis (no_types, lifting))
  finally show ?thesis .
qed

section \<open>Properties\<close>


text \<open>A database that answers the third ping, and a configuration that reloads every second.\<close>

definition sample_boot :: boot where
  "sample_boot =
     \<lparr>bt_open = (\<lambda>_. None), bt_ping = (\<lambda>i. if i < 2 then Some ''connection refused'' else None),
      bt_cats = (\<lambda>_. sample_catalog), bt_execs = (\<lambda>_. None)\<rparr>"

definition sample_config :: Config where
  "sample_config =
     \<lparr>cfg_Server = \<lparr>srv_Host = ''0.0.0.0'', srv_Port = 3000\<rparr>,
      cfg_Database = \<lparr>db_Host = ''localhost'', db_Port = 5432, db_User = ''postgres'', db_Password = ''postgres'', db_Name = ''app'',
        db_Schemas = [''app'', '' app''], db_SSLMode = ''disable'',
        db_Pool = \<lparr>pool_MaxOpen = 25, pool_MaxIdle = 5, pool_ConnMaxLife = 3600000000000, pool_ConnMaxIdle = 0\<rparr>\<rparr>,
      cfg_HotReload = \<lparr>hr_Enabled = True, hr_Interval = 1000000000, hr_AutoNotifyTriggers = True\<rparr>,
      cfg_Permissions = [], cfg_RPC = [],
      cfg_Transactions = \<lparr>txc_Enabled = True, txc_TTL = 1800000000000, txc_CleanupInterval = 60000000000\<rparr>,
      cfg_RateLimit = \<lparr>rl_Enabled = False, rl_RPS = ''10'', rl_Burst = 20, rl_PerTable = []\<rparr>, cfg_HiddenTables = []\<rparr>"


end
