(* ===== verification/Params.thy ===== *)
theory Params
  imports Strconv "HOL-Library.AList" "HOL-Library.Multiset"
begin

text \<open>
  \<^verbatim>\<open>internal/query/params.go\<close>: the raw query of a request becomes a \<open>Params\<close> record of filters,
  logical groups, full-text filters, order, selection, range and count.  Every function of the
  file is translated branch by branch; an error return is \<open>Error msg\<close>.
\<close>

section \<open>Data\<close>

type_synonym Operator = string
type_synonym FilterOp = string

abbreviation "LogicalAnd \<equiv> ''and''"
abbreviation "LogicalOr \<equiv> ''or''"
abbreviation "LogicalNot \<equiv> ''not''"
abbreviation "OpEq \<equiv> ''eq''"
abbreviation "OpIn \<equiv> ''in''"
abbreviation "OpIs \<equiv> ''is''"

definition operator_SQL :: "Operator \<Rightarrow> string" where
  "operator_SQL o' =
     (if o' = ''eq'' then ''='' else if o' = ''neq'' then ''<>''
      else if o' = ''gt'' then ''>'' else if o' = ''gte'' then ''>=''
      else if o' = ''lt'' then ''<'' else if o' = ''lte'' then ''<=''
      else if o' = ''like'' then ''LIKE'' else if o' = ''ilike'' then ''ILIKE''
      else if o' = ''match'' then ''~'' else if o' = ''imatch'' then ''~*''
      else if o' = ''cs'' then ''@>'' else if o' = ''cd'' then ''<@''
      else if o' = ''ov'' then ''&&'' else if o' = ''adj'' then ''-|-''
      else if o' = ''sl'' then ''<<'' else if o' = ''sr'' then ''>>''
      else if o' = ''nsr'' then ''&<'' else if o' = ''nsl'' then ''&>''
      else ''='')"

definition isValidOperator :: "Operator \<Rightarrow> bool" where
  "isValidOperator op =
     (op \<in> {''eq'', ''neq'', ''gt'', ''gte'', ''lt'', ''lte'', ''like'', ''ilike'', ''in'', ''is'',
            ''match'', ''imatch'', ''cs'', ''cd'', ''ov'', ''adj'', ''sl'', ''sr'', ''nsr'', ''nsl''})"

record OrderItem =
  ord_Column :: string
  ord_Direction :: string
  ord_Nulls :: string

record Filter =
  flt_Column :: string
  flt_Operator :: Operator
  flt_Value :: string
  flt_Negate :: bool
  flt_Modifier :: string

datatype LogicalFilter =
  LogicalFilter (lf_Op: FilterOp) (lf_Filters: "Filter list") (lf_Logicals: "LogicalFilter list")

record Range =
  rng_Limit :: int
  rng_Offset :: int

record Embed =
  emb_Table :: string
  emb_Select :: "string list"

record FtsFilter =
  fts_Column :: string
  fts_SearchTerm :: string
  fts_Negate :: bool

record Aggregate =
  agg_Func :: string
  agg_Col :: string
  agg_Alias :: string

record Params =
  par_Filters :: "Filter list"
  par_Logicals :: "LogicalFilter list"
  par_FtsFilters :: "FtsFilter list"
  par_Order :: "OrderItem list"
  par_Select :: "string list"
  par_Embeds :: "Embed list"
  par_Aggregates :: "Aggregate list"
  par_Range :: Range
  par_Count :: string
  par_Prefer :: "string list"

definition emptyParams :: Params where
  "emptyParams =
     \<lparr>par_Filters = [], par_Logicals = [], par_FtsFilters = [], par_Order = [], par_Select = [],
      par_Embeds = [], par_Aggregates = [], par_Range = \<lparr>rng_Limit = -1, rng_Offset = 0\<rparr>,
      par_Count = '''', par_Prefer = []\<rparr>"

definition quoted :: "string \<Rightarrow> string" where
  "quoted s = [CHR 0x27] @ s @ [CHR 0x27]"

definition column_not_found :: "string \<Rightarrow> string" where
  "column_not_found col = ''column '' @ quoted col @ '' not found''"

section \<open>Column filters\<close>

text \<open>The modifier \<^verbatim>\<open>(any)\<close> or \<^verbatim>\<open>(all)\<close> is cut out of the value wherever its parentheses are the first.\<close>

definition cutModifier :: "string \<Rightarrow> string \<times> string" where
  "cutModifier value =
     (let parenIdx = IndexByte value CHR ''(''; parenEnd = IndexByte value CHR '')''
      in if 0 < parenIdx \<and> parenIdx < parenEnd then
           let potentialMod = take (nat (parenEnd - parenIdx - 1)) (slice_from value (parenIdx + 1))
           in if potentialMod = ''any'' \<or> potentialMod = ''all''
              then (potentialMod, slice_to value parenIdx @ slice_from value (parenEnd + 1))
              else ('''', value)
         else ('''', value))"

definition parseFilterWithPrefix ::
    "string \<Rightarrow> string \<Rightarrow> bool \<Rightarrow> (string \<Rightarrow> bool) \<Rightarrow> Filter outcome" where
  "parseFilterWithPrefix key value0 negate0 tableColumns =
     (if \<not> tableColumns key then Error (column_not_found key)
      else
        let negated = HasPrefix value0 ''not.'';
            negate = (if negated then \<not> negate0 else negate0);
            value1 = (if negated then drop 4 value0 else value0);
            (modifier, value) = cutModifier value1;
            dotIdx = IndexByte value CHR ''.'';
            potentialOp = slice_to value dotIdx;
            (op, val) =
              (if 0 < dotIdx \<and> isValidOperator potentialOp
               then (potentialOp, slice_from value (dotIdx + 1))
               else (OpEq, value))
        in Ok \<lparr>flt_Column = key, flt_Operator = op, flt_Value = val, flt_Negate = negate,
               flt_Modifier = modifier\<rparr>)"

definition parseFilter :: "string \<Rightarrow> string \<Rightarrow> (string \<Rightarrow> bool) \<Rightarrow> Filter outcome" where
  "parseFilter key value tableColumns = parseFilterWithPrefix key value False tableColumns"

definition parseFtsFilter :: "string \<Rightarrow> (string \<Rightarrow> bool) \<Rightarrow> FtsFilter outcome" where
  "parseFtsFilter value0 tableColumns =
     (let negate = HasPrefix value0 ''not.'';
          value = (if negate then drop 4 value0 else value0);
          dotIdx = IndexByte value CHR ''.''
      in if dotIdx \<le> 0
         then Error (''invalid _fts format: '' @ value @ '' (expected column.search_term)'')
         else
           let col = slice_to value dotIdx; searchTerm = slice_from value (dotIdx + 1)
           in if \<not> tableColumns col then Error (column_not_found col)
              else Ok \<lparr>fts_Column = col, fts_SearchTerm = searchTerm, fts_Negate = negate\<rparr>)"

section \<open>Logical groups\<close>

text \<open>
  The loop of \<^verbatim>\<open>splitLogicalConditions\<close> and \<^verbatim>\<open>splitSelectParts\<close> (the two bodies are the same text):
  a comma at depth 0 ends a part, a last empty part is dropped.
\<close>

fun splitLoop :: "string \<Rightarrow> int \<Rightarrow> string \<Rightarrow> string list \<Rightarrow> string list" where
  "splitLoop [] depth current parts = (if 0 < length current then parts @ [current] else parts)"
| "splitLoop (ch # s) depth current parts =
     (if ch = CHR ''('' then splitLoop s (depth + 1) (current @ [ch]) parts
      else if ch = CHR '')'' then splitLoop s (depth - 1) (current @ [ch]) parts
      else if ch = CHR '','' then
        (if depth = 0 then splitLoop s depth [] (parts @ [current])
         else splitLoop s depth (current @ [ch]) parts)
      else splitLoop s depth (current @ [ch]) parts)"

definition splitLogicalConditions :: "string \<Rightarrow> string list" where
  "splitLogicalConditions s = splitLoop s 0 [] []"

definition splitSelectParts :: "string \<Rightarrow> string list" where
  "splitSelectParts s = splitLoop s 0 [] []"

definition parseCondition :: "string \<Rightarrow> (string \<Rightarrow> bool) \<Rightarrow> Filter outcome" where
  "parseCondition cond0 tableColumns =
     (let negate = HasPrefix cond0 ''not.'';
          cond = (if negate then drop 4 cond0 else cond0);
          mk = (\<lambda>col op val. \<lparr>flt_Column = col, flt_Operator = op, flt_Value = val,
                              flt_Negate = negate, flt_Modifier = ''''\<rparr>)
      in (case SplitN cond CHR ''.'' 3 of
            [col, op, val] \<Rightarrow>
              (if \<not> tableColumns col then Error (column_not_found col)
               else if \<not> isValidOperator op then Error (''invalid operator '' @ quoted op)
               else Ok (mk col op val))
          | [col, val] \<Rightarrow>
              (if \<not> tableColumns col then Error (column_not_found col) else Ok (mk col OpEq val))
          | _ \<Rightarrow> Error (''invalid condition: '' @ cond)))"

text \<open>A part \<^verbatim>\<open>not.or.rest\<close> or \<^verbatim>\<open>not.and.rest\<close> opens a nested group.\<close>

definition nestedGroup :: "string \<Rightarrow> (FilterOp \<times> string) option" where
  "nestedGroup part =
     (if HasPrefix part ''not.'' then
        (case SplitN (drop 4 part) CHR ''.'' 2 of
           [op, rest] \<Rightarrow>
             (if op = ''or'' then Some (LogicalOr, rest)
              else if op = ''and'' then Some (LogicalAnd, rest) else None)
         | _ \<Rightarrow> None)
      else None)"

definition parts_size :: "string list \<Rightarrow> nat" where
  "parts_size ps = sum_list (map (\<lambda>p. Suc (length p)) ps)"

lemma parts_size_simps [simp]:
  "parts_size [] = 0" "parts_size (p # ps) = Suc (length p) + parts_size ps"
  "parts_size (ps @ qs) = parts_size ps + parts_size qs"
  by (simp_all add: parts_size_def)

lemma parts_size_splitLoop:
  "parts_size (splitLoop s d cur ps) \<le> parts_size ps + length cur + length s + 1"
proof (induction s d cur ps rule: splitLoop.induct)
  case (1 depth current parts)
  then show ?case by simp
next
  case (2 ch s depth current parts)
  then show ?case by (cases "depth = 0") auto
qed

lemma parts_size_split: "parts_size (splitLogicalConditions s) \<le> length s + 1"
  using parts_size_splitLoop [of s 0 "[]" "[]"] by (simp add: splitLogicalConditions_def)

lemma SplitN_2:
  "SplitN s c 2 = (if c \<in> set s then [takeWhile (\<lambda>x. x \<noteq> c) s, tl (dropWhile (\<lambda>x. x \<noteq> c) s)] else [s])"
  by (simp add: numeral_2_eq_2)

lemma nestedGroup_shorter: "nestedGroup part = Some (op, rest) \<Longrightarrow> length rest + 4 \<le> length part"
proof -
  assume n: "nestedGroup part = Some (op, rest)"
  then have pre: "HasPrefix part ''not.''"
    by (auto simp: nestedGroup_def split: if_splits)
  have "rest = tl (dropWhile (\<lambda>x. x \<noteq> CHR ''.'') (drop 4 part))"
    using n by (auto simp: nestedGroup_def SplitN_2 split: if_splits)
  then have "length rest \<le> length (drop 4 part)"
    using length_dropWhile_le [of "\<lambda>x. x \<noteq> CHR ''.''" "drop 4 part"] by simp
  moreover have "4 \<le> length part"
    using pre by (auto simp: HasPrefix_def dest: prefix_length_le)
  ultimately show ?thesis by simp
qed

function parseLogicalFilter ::
      "FilterOp \<Rightarrow> string \<Rightarrow> (string \<Rightarrow> bool) \<Rightarrow> LogicalFilter outcome"
  and parseLogicalParts ::
      "string list \<Rightarrow> LogicalFilter \<Rightarrow> (string \<Rightarrow> bool) \<Rightarrow> LogicalFilter outcome"
where
  "parseLogicalFilter op value tableColumns =
     parseLogicalParts (splitLogicalConditions (Trim value ''()'')) (LogicalFilter op [] []) tableColumns"
| "parseLogicalParts [] lf tableColumns = Ok lf"
| "parseLogicalParts (part0 # parts) lf tableColumns =
     (let part = TrimSpace part0
      in if part = '''' then parseLogicalParts parts lf tableColumns
         else
           (case nestedGroup part of
              Some (subOp, rest) \<Rightarrow>
                obind (parseLogicalFilter subOp rest tableColumns)
                  (\<lambda>subLf. parseLogicalParts parts
                     (LogicalFilter (lf_Op lf) (lf_Filters lf)
                       (lf_Logicals lf @ [LogicalFilter LogicalNot (lf_Filters subLf) (lf_Logicals subLf)]))
                     tableColumns)
            | None \<Rightarrow>
                obind (parseCondition part tableColumns)
                  (\<lambda>filter. parseLogicalParts parts
                     (LogicalFilter (lf_Op lf) (lf_Filters lf @ [filter]) (lf_Logicals lf))
                     tableColumns)))"
  by pat_completeness auto
termination
proof (relation "measure (\<lambda>x. case x of Inl (op, value, _) \<Rightarrow> length value + 2
                                     | Inr (parts, _, _) \<Rightarrow> parts_size parts)", goal_cases)
  case 1
  show ?case by simp
next
  case (2 op v cols)
  show ?case
    using parts_size_split [of "Trim v ''()''"] length_Trim [of v "''()''"] by simp
next
  case (5 part0 parts lf cols x x2 a b)
  then show ?case
    using nestedGroup_shorter [of x a b] length_TrimSpace [of part0] by auto
qed simp_all

declare parseLogicalFilter.simps [simp del]
declare parseLogicalParts.simps(2) [simp del]

section \<open>Selection\<close>

definition aggregateFuncs :: "string \<Rightarrow> bool" where
  "aggregateFuncs f =
     (f \<in> {''count'', ''sum'', ''avg'', ''min'', ''max'', ''count_distinct'', ''array_agg'', ''string_agg''})"

type_synonym selection = "string list \<times> Embed list \<times> Aggregate list"

definition selectPart :: "string \<Rightarrow> selection \<Rightarrow> selection" where
  "selectPart part0 sel =
     (let part = TrimSpace part0; (cols, embeds, aggregates) = sel
      in if part = '''' then sel
         else
           let parenIdx = IndexByte part CHR ''(''
           in if HasSuffix part '')'' \<and> 0 < parenIdx then
                let funcName = ToLower (slice_to part parenIdx);
                    inner = TrimSpace (butlast (slice_from part (parenIdx + 1)))
                in if aggregateFuncs funcName then
                     (cols, embeds, aggregates @
                       [\<lparr>agg_Func = funcName, agg_Col = inner,
                         agg_Alias = (if inner = ''*'' then funcName else funcName @ ''_'' @ inner)\<rparr>])
                   else
                     (cols, embeds @
                       [\<lparr>emb_Table = slice_to part parenIdx,
                         emb_Select = (if inner \<noteq> '''' \<and> inner \<noteq> ''*''
                                       then map TrimSpace (Split inner CHR '','') else [])\<rparr>],
                      aggregates)
              else (cols @ [part], embeds, aggregates))"

definition parseSelect :: "string \<Rightarrow> selection" where
  "parseSelect value = fold selectPart (splitSelectParts value) ([], [], [])"

section \<open>Order\<close>

definition orderChunk :: "string \<Rightarrow> OrderItem \<Rightarrow> OrderItem" where
  "orderChunk chunk item =
     (let c = ToLower chunk
      in if c = ''asc'' then item\<lparr>ord_Direction := ''asc''\<rparr>
         else if c = ''desc'' then item\<lparr>ord_Direction := ''desc''\<rparr>
         else if c = ''nullsfirst'' then item\<lparr>ord_Nulls := ''nulls first''\<rparr>
         else if c = ''nullslast'' then item\<lparr>ord_Nulls := ''nullslast''\<rparr>
         else item)"

definition orderPart :: "string \<Rightarrow> OrderItem option" where
  "orderPart part0 =
     (let part = TrimSpace part0
      in if part = '''' then None
         else
           let chunks = Split part CHR ''.''
           in Some (fold orderChunk (tl chunks)
                \<lparr>ord_Column = hd chunks, ord_Direction = ''asc'', ord_Nulls = ''nulls first''\<rparr>))"

definition parseOrder :: "string \<Rightarrow> OrderItem list outcome" where
  "parseOrder value = Ok (List.map_filter orderPart (Split value CHR '',''))"

section \<open>The query string\<close>

text \<open>
  \<^verbatim>\<open>splitQuery\<close> builds a map: a repeated key joins its values with an ampersand.
\<close>

definition decodeValue :: "string \<Rightarrow> string" where
  "decodeValue val =
     ReplaceAll (ReplaceAll (ReplaceAll val ''+'' '' '') ''%2C'' '','') ''%22'' [CHR 0x22]"

definition addPair :: "string \<Rightarrow> (string \<times> string) list \<Rightarrow> (string \<times> string) list" where
  "addPair pair result =
     (let idx = IndexByte pair CHR ''=''
      in if idx < 0 then result
         else
           let key = slice_to pair idx; val = decodeValue (slice_from pair (idx + 1))
           in (case map_of result key of
                 Some existing \<Rightarrow> AList.update key (existing @ ''&'' @ val) result
               | None \<Rightarrow> AList.update key val result))"

definition splitQuery :: "string \<Rightarrow> (string \<times> string) list" where
  "splitQuery query = fold addPair (Split query CHR ''&'') []"

section \<open>Parse\<close>

text \<open>One turn of the loop over the query map: one key with its value.\<close>

definition parsePair :: "(string \<Rightarrow> bool) \<Rightarrow> string \<times> string \<Rightarrow> Params \<Rightarrow> Params outcome" where
  "parsePair tableColumns kv params =
     (let (key, value) = kv
      in if key = ''_select'' then
           let (cols, embeds, aggregates) = parseSelect value
           in Ok (params\<lparr>par_Select := cols, par_Embeds := embeds, par_Aggregates := aggregates\<rparr>)
         else if key = ''_order'' then
           obind (parseOrder value) (\<lambda>items. Ok (params\<lparr>par_Order := items\<rparr>))
         else if key = ''_limit'' then
           (case Atoi value of
              None \<Rightarrow> Error (''invalid _limit: '' @ value)
            | Some v \<Rightarrow> Ok (params\<lparr>par_Range := (par_Range params)\<lparr>rng_Limit := v\<rparr>\<rparr>))
         else if key = ''_offset'' then
           (case Atoi value of
              None \<Rightarrow> Error (''invalid _offset: '' @ value)
            | Some v \<Rightarrow> Ok (params\<lparr>par_Range := (par_Range params)\<lparr>rng_Offset := v\<rparr>\<rparr>))
         else if key = ''_count'' then Ok (params\<lparr>par_Count := value\<rparr>)
         else if key = ''_or'' then
           obind (parseLogicalFilter LogicalOr value tableColumns)
             (\<lambda>lf. Ok (params\<lparr>par_Logicals := par_Logicals params @ [lf]\<rparr>))
         else if key = ''_and'' then
           obind (parseLogicalFilter LogicalAnd value tableColumns)
             (\<lambda>lf. Ok (params\<lparr>par_Logicals := par_Logicals params @ [lf]\<rparr>))
         else if key = ''_fts'' then
           obind (parseFtsFilter value tableColumns)
             (\<lambda>fts. Ok (params\<lparr>par_FtsFilters := par_FtsFilters params @ [fts]\<rparr>))
         else if HasPrefix key ''_not.'' then
           let subkey = drop 5 key
           in if subkey = ''or'' \<or> subkey = ''and'' then
                obind (parseLogicalFilter (if subkey = ''and'' then LogicalAnd else LogicalOr)
                         value tableColumns)
                  (\<lambda>lf. Ok (params\<lparr>par_Logicals := par_Logicals params @
                           [LogicalFilter LogicalNot (lf_Filters lf) (lf_Logicals lf)]\<rparr>))
              else
                obind (parseFilterWithPrefix subkey value True tableColumns)
                  (\<lambda>filter. Ok (params\<lparr>par_Filters := par_Filters params @ [filter]\<rparr>))
         else
           obind (parseFilter key value tableColumns)
             (\<lambda>filter. Ok (params\<lparr>par_Filters := par_Filters params @ [filter]\<rparr>)))"

fun parsePairs :: "(string \<Rightarrow> bool) \<Rightarrow> (string \<times> string) list \<Rightarrow> Params \<Rightarrow> Params outcome" where
  "parsePairs tableColumns [] params = Ok params"
| "parsePairs tableColumns (kv # kvs) params =
     obind (parsePair tableColumns kv params) (parsePairs tableColumns kvs)"

text \<open>
  \<open>order\<close> is the order in which the loop visits the map of pairs: Go leaves it open, and every
  permutation of the entries may occur.
\<close>

definition Parse ::
    "((string \<times> string) list \<Rightarrow> (string \<times> string) list) \<Rightarrow> string \<Rightarrow> (string \<Rightarrow> bool) \<Rightarrow> Params outcome" where
  "Parse order rawQuery tableColumns =
     (if rawQuery = '''' then Ok emptyParams
      else parsePairs tableColumns (order (splitQuery (TrimPrefix rawQuery ''?''))) emptyParams)"

definition HasCount :: "Params \<Rightarrow> bool" where
  "HasCount p = (par_Count p = ''exact'' \<or> par_Count p = ''planned'' \<or> par_Count p = ''estimated'')"

definition HasRange :: "Params \<Rightarrow> bool" where
  "HasRange p = (0 \<le> rng_Limit (par_Range p) \<or> 0 < rng_Offset (par_Range p))"

section \<open>Well-formed parameters\<close>

definition filter_ok :: "(string \<Rightarrow> bool) \<Rightarrow> Filter \<Rightarrow> bool" where
  "filter_ok cols f \<longleftrightarrow> cols (flt_Column f) \<and> isValidOperator (flt_Operator f) \<and>
     flt_Modifier f \<in> {'''', ''any'', ''all''}"

fun lf_ok :: "(string \<Rightarrow> bool) \<Rightarrow> LogicalFilter \<Rightarrow> bool" where
  "lf_ok cols (LogicalFilter op fs ls) \<longleftrightarrow> list_all (filter_ok cols) fs \<and> list_all (lf_ok cols) ls"

definition params_ok :: "(string \<Rightarrow> bool) \<Rightarrow> Params \<Rightarrow> bool" where
  "params_ok cols p \<longleftrightarrow> list_all (filter_ok cols) (par_Filters p) \<and>
     list_all (lf_ok cols) (par_Logicals p) \<and> list_all (\<lambda>f. cols (fts_Column f)) (par_FtsFilters p)"

lemma lf_ok_sel:
  "lf_ok cols lf \<longleftrightarrow> list_all (filter_ok cols) (lf_Filters lf) \<and> list_all (lf_ok cols) (lf_Logicals lf)"
  by (cases lf) simp

lemma cutModifier_cases:
  "fst (cutModifier v) \<in> {'''', ''any'', ''all''}"
  by (simp add: cutModifier_def Let_def)

lemma isValidOperator_eq [simp]: "isValidOperator ''eq''"
  by (simp add: isValidOperator_def)

lemma parseFilterWithPrefix_ok:
  "parseFilterWithPrefix key v n cols = Ok f \<Longrightarrow> filter_ok cols f \<and> flt_Column f = key"
  using cutModifier_cases [of "if HasPrefix v ''not.'' then drop 4 v else v"]
  by (auto simp: parseFilterWithPrefix_def Let_def filter_ok_def split: if_splits prod.splits)

lemma parseCondition_ok: "parseCondition c cols = Ok f \<Longrightarrow> filter_ok cols f"
  by (auto simp: parseCondition_def Let_def filter_ok_def split: if_splits list.splits)

lemma parseFtsFilter_ok: "parseFtsFilter v cols = Ok f \<Longrightarrow> cols (fts_Column f)"
  by (auto simp: parseFtsFilter_def Let_def split: if_splits)

text \<open>The loop over the parts, one rule per branch.\<close>

lemma parseLogicalParts_blank:
  "TrimSpace part = [] \<Longrightarrow> parseLogicalParts (part # parts) lf cols = parseLogicalParts parts lf cols"
  by (simp add: parseLogicalParts.simps(2))

lemma parseLogicalParts_group:
  "TrimSpace part \<noteq> [] \<Longrightarrow> nestedGroup (TrimSpace part) = Some (op, rest) \<Longrightarrow>
   parseLogicalParts (part # parts) lf cols =
     obind (parseLogicalFilter op rest cols)
       (\<lambda>sub. parseLogicalParts parts
          (LogicalFilter (lf_Op lf) (lf_Filters lf)
            (lf_Logicals lf @ [LogicalFilter LogicalNot (lf_Filters sub) (lf_Logicals sub)])) cols)"
  by (simp add: parseLogicalParts.simps(2))

lemma parseLogicalParts_condition:
  "TrimSpace part \<noteq> [] \<Longrightarrow> nestedGroup (TrimSpace part) = None \<Longrightarrow>
   parseLogicalParts (part # parts) lf cols =
     obind (parseCondition (TrimSpace part) cols)
       (\<lambda>f. parseLogicalParts parts
          (LogicalFilter (lf_Op lf) (lf_Filters lf @ [f]) (lf_Logicals lf)) cols)"
  by (simp add: parseLogicalParts.simps(2))

lemmas parseLogicalParts_rules =
  parseLogicalParts_blank parseLogicalParts_group parseLogicalParts_condition

lemma parseLogical_ok:
  "parseLogicalFilter op v cols = Ok lf \<Longrightarrow> lf_ok cols lf"
  "parseLogicalParts ps acc cols = Ok lf \<Longrightarrow> lf_ok cols acc \<Longrightarrow> lf_ok cols lf"
proof (induction op v cols and ps acc cols arbitrary: lf and lf
    rule: parseLogicalFilter_parseLogicalParts.induct)
  case (1 op v cols)
  then show ?case by (simp add: parseLogicalFilter.simps)
next
  case (2 acc cols)
  then show ?case by simp
next
  case (3 part0 parts acc cols)
  consider "TrimSpace part0 = []"
    | op rest where "TrimSpace part0 \<noteq> []" "nestedGroup (TrimSpace part0) = Some (op, rest)"
    | "TrimSpace part0 \<noteq> []" "nestedGroup (TrimSpace part0) = None"
    by (cases "nestedGroup (TrimSpace part0)") auto
  then show ?case
  proof cases
    case 1
    with 3 show ?thesis by (simp add: parseLogicalParts_blank)
  next
    case 2
    then obtain sub where sub: "parseLogicalFilter op rest cols = Ok sub"
      and rec: "parseLogicalParts parts (LogicalFilter (lf_Op acc) (lf_Filters acc)
        (lf_Logicals acc @ [LogicalFilter LogicalNot (lf_Filters sub) (lf_Logicals sub)])) cols = Ok lf"
      using "3.prems" by (auto simp: parseLogicalParts_group obind_Ok_iff)
    have "lf_ok cols sub" using "3.IH"(3) [OF refl 2(1) 2(2) refl sub] .
    then show ?thesis
      using "3.IH"(4) [OF refl 2(1) 2(2) refl sub rec] "3.prems"(2) by (simp add: lf_ok_sel)
  next
    case 3
    then obtain f where f: "parseCondition (TrimSpace part0) cols = Ok f"
      and rec: "parseLogicalParts parts
        (LogicalFilter (lf_Op acc) (lf_Filters acc @ [f]) (lf_Logicals acc)) cols = Ok lf"
      using "3.prems" by (auto simp: parseLogicalParts_condition obind_Ok_iff)
    show ?thesis
      using "3.IH"(2) [OF refl 3 f rec] parseCondition_ok [OF f] "3.prems"(2)
      by (simp add: lf_ok_sel)
  qed
qed

lemma parsePair_ok: "parsePair cols kv p = Ok q \<Longrightarrow> params_ok cols p \<Longrightarrow> params_ok cols q"
  by (cases kv)
    (auto simp: parsePair_def Let_def obind_Ok_iff params_ok_def parseFilter_def
      split: if_splits option.splits prod.splits
      dest!: parseFilterWithPrefix_ok parseFtsFilter_ok parseLogical_ok(1) simp: lf_ok_sel)

lemma parsePairs_ok: "parsePairs cols kvs p = Ok q \<Longrightarrow> params_ok cols p \<Longrightarrow> params_ok cols q"
  by (induction kvs arbitrary: p) (auto simp: obind_Ok_iff dest: parsePair_ok)

lemma emptyParams_ok [simp]: "params_ok cols emptyParams"
  by (simp add: params_ok_def emptyParams_def)

lemma Parse_ok: "Parse ord q cols = Ok p \<Longrightarrow> params_ok cols p"
  by (auto simp: Parse_def split: if_splits dest: parsePairs_ok)

section \<open>The order of the query map\<close>

text \<open>
  What one pair contributes is what it yields on its own; \<open>mergePair\<close> adds a contribution to the
  parameters read so far.
\<close>

definition mergePair :: "string \<Rightarrow> Params \<Rightarrow> Params \<Rightarrow> Params" where
  "mergePair key p c = p
     \<lparr>par_Filters := par_Filters p @ par_Filters c,
      par_Logicals := par_Logicals p @ par_Logicals c,
      par_FtsFilters := par_FtsFilters p @ par_FtsFilters c,
      par_Order := (if key = ''_order'' then par_Order c else par_Order p),
      par_Select := (if key = ''_select'' then par_Select c else par_Select p),
      par_Embeds := (if key = ''_select'' then par_Embeds c else par_Embeds p),
      par_Aggregates := (if key = ''_select'' then par_Aggregates c else par_Aggregates p),
      par_Range := \<lparr>rng_Limit = (if key = ''_limit'' then rng_Limit (par_Range c)
                                 else rng_Limit (par_Range p)),
                    rng_Offset = (if key = ''_offset'' then rng_Offset (par_Range c)
                                  else rng_Offset (par_Range p))\<rparr>,
      par_Count := (if key = ''_count'' then par_Count c else par_Count p)\<rparr>"

lemma map_outcome_obind: "map_outcome g (obind m f) = obind m (\<lambda>x. map_outcome g (f x))"
  by (cases m) auto

lemma parsePair_merge:
  "parsePair cols (key, v) p = map_outcome (mergePair key p) (parsePair cols (key, v) emptyParams)"
  by (cases p; cases "par_Range p")
    (simp add: parsePair_def mergePair_def emptyParams_def Let_def map_outcome_obind
      parseOrder_def split: option.split prod.split)

definition pair_effect :: "(string \<Rightarrow> bool) \<Rightarrow> string \<times> string \<Rightarrow> Params" where
  "pair_effect cols kv = (case parsePair cols kv emptyParams of Ok c \<Rightarrow> c | _ \<Rightarrow> emptyParams)"

definition pair_parses :: "(string \<Rightarrow> bool) \<Rightarrow> string \<times> string \<Rightarrow> bool" where
  "pair_parses cols kv \<longleftrightarrow> (\<exists>c. parsePair cols kv emptyParams = Ok c)"

lemma parsePair_Ok_iff:
  "parsePair cols kv p = Ok q \<longleftrightarrow>
     pair_parses cols kv \<and> q = mergePair (fst kv) p (pair_effect cols kv)"
  using parsePair_merge [of cols "fst kv" "snd kv" p]
  by (cases "parsePair cols kv emptyParams") (auto simp: pair_effect_def pair_parses_def)

lemma parsePairs_Ok_iff:
  "parsePairs cols kvs p = Ok q \<longleftrightarrow>
     list_all (pair_parses cols) kvs \<and>
     q = fold (\<lambda>kv p. mergePair (fst kv) p (pair_effect cols kv)) kvs p"
  by (induction kvs arbitrary: p) (auto simp: obind_Ok_iff parsePair_Ok_iff)

text \<open>The lists of the result collect every contribution; a single value comes from its own key.\<close>

lemma fold_merge_lists:
  "par_Filters (fold (\<lambda>kv p. mergePair (fst kv) p (e kv)) kvs p) =
     par_Filters p @ concat (map (\<lambda>kv. par_Filters (e kv)) kvs)"
  "par_Logicals (fold (\<lambda>kv p. mergePair (fst kv) p (e kv)) kvs p) =
     par_Logicals p @ concat (map (\<lambda>kv. par_Logicals (e kv)) kvs)"
  "par_FtsFilters (fold (\<lambda>kv p. mergePair (fst kv) p (e kv)) kvs p) =
     par_FtsFilters p @ concat (map (\<lambda>kv. par_FtsFilters (e kv)) kvs)"
  "par_Prefer (fold (\<lambda>kv p. mergePair (fst kv) p (e kv)) kvs p) = par_Prefer p"
  by (induction kvs arbitrary: p) (simp_all add: mergePair_def)

definition last_value :: "string \<Rightarrow> 'a \<Rightarrow> (string \<times> string \<Rightarrow> 'a) \<Rightarrow> (string \<times> string) list \<Rightarrow> 'a" where
  "last_value key d f kvs = fold (\<lambda>kv a. if fst kv = key then f kv else a) kvs d"

lemma last_value_distinct:
  "distinct (map fst kvs) \<Longrightarrow>
   last_value key d f kvs = (case map_of kvs key of None \<Rightarrow> d | Some v \<Rightarrow> f (key, v))"
proof (induction kvs arbitrary: d)
  case Nil
  show ?case by (simp add: last_value_def)
next
  case (Cons kv kvs)
  have "map_of kvs key = None" if "fst kv = key"
    using Cons.prems that by (auto simp: map_of_eq_None_iff)
  with Cons show ?case
    by (cases kv) (auto simp: last_value_def split: option.splits)
qed

lemma fold_merge_values:
  "par_Order (fold (\<lambda>kv p. mergePair (fst kv) p (e kv)) kvs p) =
     last_value ''_order'' (par_Order p) (\<lambda>kv. par_Order (e kv)) kvs"
  "par_Select (fold (\<lambda>kv p. mergePair (fst kv) p (e kv)) kvs p) =
     last_value ''_select'' (par_Select p) (\<lambda>kv. par_Select (e kv)) kvs"
  "par_Embeds (fold (\<lambda>kv p. mergePair (fst kv) p (e kv)) kvs p) =
     last_value ''_select'' (par_Embeds p) (\<lambda>kv. par_Embeds (e kv)) kvs"
  "par_Aggregates (fold (\<lambda>kv p. mergePair (fst kv) p (e kv)) kvs p) =
     last_value ''_select'' (par_Aggregates p) (\<lambda>kv. par_Aggregates (e kv)) kvs"
  "rng_Limit (par_Range (fold (\<lambda>kv p. mergePair (fst kv) p (e kv)) kvs p)) =
     last_value ''_limit'' (rng_Limit (par_Range p)) (\<lambda>kv. rng_Limit (par_Range (e kv))) kvs"
  "rng_Offset (par_Range (fold (\<lambda>kv p. mergePair (fst kv) p (e kv)) kvs p)) =
     last_value ''_offset'' (rng_Offset (par_Range p)) (\<lambda>kv. rng_Offset (par_Range (e kv))) kvs"
  "par_Count (fold (\<lambda>kv p. mergePair (fst kv) p (e kv)) kvs p) =
     last_value ''_count'' (par_Count p) (\<lambda>kv. par_Count (e kv)) kvs"
  by (induction kvs arbitrary: p) (simp_all add: mergePair_def last_value_def)

text \<open>Two results that differ only in the order of the filters and groups.\<close>

definition params_equiv :: "Params \<Rightarrow> Params \<Rightarrow> bool" where
  "params_equiv p q \<longleftrightarrow>
     mset (par_Filters p) = mset (par_Filters q) \<and> mset (par_Logicals p) = mset (par_Logicals q) \<and>
     mset (par_FtsFilters p) = mset (par_FtsFilters q) \<and> par_Order p = par_Order q \<and>
     par_Select p = par_Select q \<and> par_Embeds p = par_Embeds q \<and>
     par_Aggregates p = par_Aggregates q \<and> par_Range p = par_Range q \<and>
     par_Count p = par_Count q \<and> par_Prefer p = par_Prefer q"

lemma mset_concat_map_cong:
  "mset xs = mset ys \<Longrightarrow> mset (concat (map f xs)) = mset (concat (map f ys))"
  by (simp add: mset_concat comp_def flip: sum_mset_sum_list)

lemma last_value_perm:
  assumes "mset kvs = mset kvs'" "distinct (map fst kvs)"
  shows "last_value key d f kvs = last_value key d f kvs'"
proof -
  have "mset (map fst kvs) = mset (map fst kvs')" by (simp only: mset_map assms(1))
  then have d: "distinct (map fst kvs')"
    using mset_eq_imp_distinct_iff assms(2) by blast
  then have "map_of kvs = map_of kvs'"
    using map_of_inject_set [OF assms(2) d] mset_eq_setD [OF assms(1)] by blast
  with d assms(2) show ?thesis by (simp add: last_value_distinct)
qed

lemma parsePairs_perm:
  assumes "mset kvs = mset kvs'" "distinct (map fst kvs)" "parsePairs cols kvs p = Ok q"
  shows "\<exists>q'. parsePairs cols kvs' p = Ok q' \<and> params_equiv q q'"
proof -
  let ?m = "\<lambda>kvs. fold (\<lambda>kv p. mergePair (fst kv) p (pair_effect cols kv)) kvs p"
  have "params_equiv (?m kvs) (?m kvs')"
    using assms(1,2)
    by (simp add: params_equiv_def fold_merge_lists fold_merge_values 
        mset_concat_map_cong [OF assms(1)] last_value_perm [OF assms(1,2)] Range.equality)
  moreover have "parsePairs cols kvs' p = Ok (?m kvs')" and "q = ?m kvs"
    using assms(3) mset_eq_setD [OF assms(1)] by (simp_all add: parsePairs_Ok_iff list_all_iff)
  ultimately show ?thesis by blast
qed

lemma distinct_addPair: "distinct (map fst r) \<Longrightarrow> distinct (map fst (addPair pair r))"
  by (auto simp: addPair_def Let_def distinct_update split: option.splits)

lemma distinct_splitQuery: "distinct (map fst (splitQuery q))"
proof -
  have "distinct (map fst r) \<Longrightarrow> distinct (map fst (fold addPair ps r))" for ps r
    by (induction ps arbitrary: r) (auto simp: distinct_addPair)
  then show ?thesis by (simp add: splitQuery_def)
qed

section \<open>Printing and parsing filters\<close>

lemma IndexByte_split:
  assumes "c \<in> set s"
  shows "s = take (nat (IndexByte s c)) s @ c # drop (nat (IndexByte s c) + 1) s"
    and "nat (IndexByte s c) < length s"
proof -
  have split: "s = takeWhile (\<lambda>x. x \<noteq> c) s @ c # tl (dropWhile (\<lambda>x. x \<noteq> c) s)"
    using assms by (metis (mono_tags, lifting) dropWhile_eq_Nil_conv hd_dropWhile list.collapse takeWhile_dropWhile_id)
  have n: "nat (IndexByte s c) = length (takeWhile (\<lambda>x. x \<noteq> c) s)"
    using assms by (simp add: IndexByte_def)
  have "take (nat (IndexByte s c)) s = takeWhile (\<lambda>x. x \<noteq> c) s"
    unfolding n by (rule takeWhile_eq_take [symmetric])
  moreover have "drop (nat (IndexByte s c) + 1) s = tl (dropWhile (\<lambda>x. x \<noteq> c) s)"
    unfolding n by (simp add: dropWhile_eq_drop drop_Suc tl_drop del: drop_drop)
  ultimately show "s = take (nat (IndexByte s c)) s @ c # drop (nat (IndexByte s c) + 1) s"
    using split by simp
  have "length s = length (takeWhile (\<lambda>x. x \<noteq> c) s @ c # tl (dropWhile (\<lambda>x. x \<noteq> c) s))"
    using split by (rule arg_cong)
  then show "nat (IndexByte s c) < length s" unfolding n by simp
qed

lemma Contains_skip:
  "c \<notin> set u \<Longrightarrow> Contains (u @ v) (c # w) = Contains v (c # w)"
  by (induction u) auto

lemma cutModifier_id:
  assumes "\<not> Contains s ''(any)''" "\<not> Contains s ''(all)''"
  shows "cutModifier s = ('''', s)"
proof -
  let ?i = "IndexByte s CHR ''(''" and ?e = "IndexByte s CHR '')''"
  have "Contains s (CHR ''('' # take (nat (?e - ?i - 1)) (slice_from s (?i + 1)) @ '')'')"
    if ie: "0 < ?i" "?i < ?e"
  proof -
    from ie have i: "CHR ''('' \<in> set s" and e: "CHR '')'' \<in> set s"
      using IndexByte_neg [of s] by (metis less_trans not_less_iff_gr_or_eq)+
    have "s = take (nat ?i) s @ CHR ''('' # drop (nat ?i + 1) s"
      by (rule IndexByte_split(1) [OF i])
    have le: "nat ?e < length s" by (rule IndexByte_split(2) [OF e])
    have d: "drop (nat ?i + 1) s =
        take (nat ?e - nat ?i - 1) (drop (nat ?i + 1) s) @ CHR '')'' # drop (nat ?e + 1) s"
    proof -
      have "drop (nat ?i + 1) s = drop (nat ?i + 1) (take (nat ?e) s @ CHR '')'' # drop (nat ?e + 1) s)"
        using IndexByte_split(1) [OF e] by simp
      also have "\<dots> = drop (nat ?i + 1) (take (nat ?e) s) @ CHR '')'' # drop (nat ?e + 1) s"
        using ie le by simp
      finally show ?thesis by (simp add: drop_take)
    qed
    have "s = take (nat ?i) s @ (CHR ''('' # take (nat (?e - ?i - 1)) (slice_from s (?i + 1)) @ '')'')
                @ drop (nat ?e + 1) s"
      using IndexByte_split(1) [OF i] d ie
      by (simp add: slice_from_def nat_add_distrib nat_diff_distrib)
    then show ?thesis unfolding Contains_iff by blast
  qed
  then show ?thesis using assms by (auto simp: cutModifier_def Let_def)
qed

definition render_value :: "Filter \<Rightarrow> string" where
  "render_value f =
     (if flt_Negate f then ''not.'' else '''') @ flt_Operator f @
     (if flt_Modifier f = '''' then '''' else ''('' @ flt_Modifier f @ '')'') @ ''.'' @ flt_Value f"

definition renderable :: "Filter \<Rightarrow> bool" where
  "renderable f \<longleftrightarrow> isValidOperator (flt_Operator f) \<and> flt_Modifier f \<in> {'''', ''any'', ''all''} \<and>
     (flt_Modifier f = '''' \<longrightarrow> \<not> Contains (flt_Value f) ''(any)'' \<and> \<not> Contains (flt_Value f) ''(all)'')"

lemma isValidOperator_chars:
  "isValidOperator op \<Longrightarrow>
     op \<noteq> [] \<and> CHR ''('' \<notin> set op \<and> CHR '')'' \<notin> set op \<and> CHR ''.'' \<notin> set op \<and>
     CHR ''$'' \<notin> set op \<and> \<not> HasPrefix (op @ CHR ''.'' # s) ''not.'' \<and> \<not> HasPrefix (op @ CHR ''('' # s) ''not.''"
  by (simp add: isValidOperator_def, elim disjE) (simp_all add: HasPrefix_def)

lemma cutModifier_modifier:
  assumes "m = ''any'' \<or> m = ''all''" "CHR ''('' \<notin> set p" "CHR '')'' \<notin> set p" "p \<noteq> []"
  shows "cutModifier (p @ ''('' @ m @ '')'' @ v) = (m, p @ v)"
proof -
  let ?s = "p @ ''('' @ m @ '')'' @ v"
  have "CHR ''('' \<notin> set m" "CHR '')'' \<notin> set m" using assms(1) by auto
  then have i: "IndexByte ?s CHR ''('' = int (length p)"
    and e: "IndexByte ?s CHR '')'' = int (length p + 1 + length m)"
    using assms IndexByte_append [of "CHR ''(''" p "m @ '')'' @ v"]
      IndexByte_append [of "CHR '')''" "p @ ''('' @ m" v] by auto
  have "slice_from ?s (int (length p) + 1) = m @ '')'' @ v"
    and "slice_from ?s (int (length p + 1 + length m) + 1) = v"
    and "slice_to ?s (int (length p)) = p"
    by (simp_all add: slice_from_def slice_to_def nat_add_distrib)
  with i e assms(1,4) show ?thesis
    by (auto simp: cutModifier_def Let_def)
qed

lemma parseFilter_render:
  assumes "tableColumns (flt_Column f)" "renderable f"
  shows "parseFilter (flt_Column f) (render_value f) tableColumns = Ok f"
proof -
  obtain c op v n m where f: "f = \<lparr>flt_Column = c, flt_Operator = op, flt_Value = v, flt_Negate = n,
      flt_Modifier = m\<rparr>" by (cases f)
  have op: "isValidOperator op" using assms(2) by (simp add: f renderable_def)
  note ops = isValidOperator_chars [OF op]
  define rest where "rest = op @ (if m = '''' then '''' else ''('' @ m @ '')'') @ ''.'' @ v"
  have "\<not> HasPrefix rest ''not.''" using ops by (simp add: rest_def)
  then have neg: "HasPrefix (render_value f) ''not.'' = n"
    by (auto simp: f render_value_def rest_def HasPrefix_def)
  have rest: "(if n then drop 4 (render_value f) else render_value f) = rest"
    by (simp add: f render_value_def rest_def)
  have cut: "cutModifier rest = (m, op @ ''.'' @ v)"
  proof (cases "m = ''''")
    case True
    then have "\<not> Contains rest ''(any)''" "\<not> Contains rest ''(all)''"
      using assms(2) ops Contains_skip [of "CHR ''(''" "op @ ''.''" v]
      by (auto simp: f renderable_def rest_def)
    then show ?thesis using cutModifier_id True by (simp add: rest_def)
  next
    case False
    then have "m = ''any'' \<or> m = ''all''" using assms(2) by (simp add: f renderable_def)
    then show ?thesis
      using cutModifier_modifier [of m op "''.'' @ v"] ops False by (simp add: rest_def)
  qed
  have "0 < IndexByte (op @ ''.'' @ v) CHR ''.''"
    using ops IndexByte_append [of "CHR ''.''" op v] by simp
  moreover have "slice_to (op @ ''.'' @ v) (IndexByte (op @ ''.'' @ v) CHR ''.'') = op"
    "slice_from (op @ ''.'' @ v) (IndexByte (op @ ''.'' @ v) CHR ''.'' + 1) = v"
    using ops slices_append [of "CHR ''.''" op v] by auto
  moreover have "tableColumns c" using assms(1) by (simp add: f)
  ultimately have "parseFilter c (render_value f) tableColumns =
      Ok \<lparr>flt_Column = c, flt_Operator = op, flt_Value = v, flt_Negate = n, flt_Modifier = m\<rparr>"
    using op by (simp add: parseFilter_def parseFilterWithPrefix_def Let_def neg rest cut)
  then show ?thesis using f by simp
qed

text \<open>A whole query of column filters.\<close>

definition render_pair :: "Filter \<Rightarrow> string" where
  "render_pair f = flt_Column f @ ''='' @ render_value f"

definition render_query :: "Filter list \<Rightarrow> string" where
  "render_query fs = Join (map render_pair fs) ''&''"

text \<open>
  A filter a client can write without percent-encoding: the column does not look like a system
  parameter, and the reserved characters of the query syntax do not occur.
\<close>

definition query_safe :: "Filter \<Rightarrow> bool" where
  "query_safe f \<longleftrightarrow> renderable f \<and> flt_Column f \<noteq> [] \<and>
     hd (flt_Column f) \<notin> {CHR ''_'', CHR ''?''} \<and>
     {CHR ''='', CHR ''&''} \<inter> set (flt_Column f) = {} \<and>
     {CHR ''&'', CHR ''+'', CHR ''%''} \<inter> set (flt_Value f) = {}"

lemma ReplaceAll_none: "old \<noteq> [] \<Longrightarrow> hd old \<notin> set s \<Longrightarrow> ReplaceAll s old new = s"
proof (induction s)
  case Nil
  show ?case by (simp add: ReplaceAll.simps)
next
  case (Cons c s)
  then show ?case
    by (cases old) (auto simp: ReplaceAll.simps [of "c # s"])
qed

lemma decodeValue_id: "CHR ''+'' \<notin> set v \<Longrightarrow> CHR ''%'' \<notin> set v \<Longrightarrow> decodeValue v = v"
  by (simp add: decodeValue_def ReplaceAll_none)

lemma render_value_chars:
  assumes "query_safe f"
  shows "CHR ''&'' \<notin> set (render_value f)" "CHR ''+'' \<notin> set (render_value f)"
    "CHR ''%'' \<notin> set (render_value f)"
proof -
  have "CHR ''&'' \<notin> set (flt_Operator f) \<and> CHR ''+'' \<notin> set (flt_Operator f) \<and> CHR ''%'' \<notin> set (flt_Operator f)"
    using assms by (simp add: query_safe_def renderable_def isValidOperator_def) (elim conjE disjE; simp)
  moreover have "flt_Modifier f \<in> {'''', ''any'', ''all''}"
    using assms by (simp add: query_safe_def renderable_def)
  ultimately show "CHR ''&'' \<notin> set (render_value f)" "CHR ''+'' \<notin> set (render_value f)"
    "CHR ''%'' \<notin> set (render_value f)"
    using assms by (auto simp: render_value_def query_safe_def)
qed

lemma update_new: "k \<notin> fst ` set r \<Longrightarrow> AList.update k v r = r @ [(k, v)]"
  by (induction r) auto

lemma addPair_new:
  assumes "CHR ''='' \<notin> set k" "k \<notin> fst ` set r" "CHR ''+'' \<notin> set v" "CHR ''%'' \<notin> set v"
  shows "addPair (k @ ''='' @ v) r = r @ [(k, v)]"
proof -
  have "map_of r k = None" using assms(2) by (simp add: map_of_eq_None_iff)
  moreover have "\<not> IndexByte (k @ ''='' @ v) CHR ''='' < 0" by (simp add: IndexByte_neg)
  ultimately show ?thesis
    using assms slices_append [of "CHR ''=''" k v]
    by (simp add: addPair_def Let_def update_new decodeValue_id)
qed

lemma splitQuery_render:
  assumes "fs \<noteq> []" "\<forall>f \<in> set fs. query_safe f" "distinct (map flt_Column fs)"
  shows "splitQuery (render_query fs) = map (\<lambda>f. (flt_Column f, render_value f)) fs"
proof -
  have "Split (render_query fs) CHR ''&'' = map render_pair fs"
    unfolding render_query_def
    using assms(1,2) render_value_chars
    by (intro Split_Join) (auto simp: render_pair_def query_safe_def)
  moreover have "fold addPair (map render_pair gs) r = r @ map (\<lambda>f. (flt_Column f, render_value f)) gs"
    if "\<forall>f \<in> set gs. query_safe f" "distinct (map flt_Column gs)"
      "fst ` set r \<inter> flt_Column ` set gs = {}" for gs r
    using that
  proof (induction gs arbitrary: r)
    case Nil
    show ?case by simp
  next
    case (Cons f gs)
    then have "addPair (render_pair f) r = r @ [(flt_Column f, render_value f)]"
      unfolding render_pair_def
      by (intro addPair_new render_value_chars) (auto simp: query_safe_def)
    with Cons show ?case by simp
  qed
  ultimately show ?thesis using assms by (simp add: splitQuery_def)
qed

lemma query_safe_key:
  assumes "query_safe f"
  shows "parsePair cols (flt_Column f, v) p =
    obind (parseFilter (flt_Column f) v cols) (\<lambda>g. Ok (p\<lparr>par_Filters := par_Filters p @ [g]\<rparr>))"
proof -
  have "flt_Column f \<noteq> CHR ''_'' # s" for s
    using assms by (auto simp: query_safe_def)
  moreover have "\<not> HasPrefix (flt_Column f) ''_not.''"
    using calculation by (auto simp: HasPrefix_iff)
  ultimately show ?thesis by (simp add: parsePair_def)
qed

lemma parsePairs_render:
  assumes "\<forall>f \<in> set fs. query_safe f \<and> cols (flt_Column f)"
  shows "parsePairs cols (map (\<lambda>f. (flt_Column f, render_value f)) fs) p =
    Ok (p\<lparr>par_Filters := par_Filters p @ fs\<rparr>)"
  using assms
proof (induction fs arbitrary: p)
  case Nil
  show ?case by simp
next
  case (Cons f fs)
  then have "parseFilter (flt_Column f) (render_value f) cols = Ok f"
    by (intro parseFilter_render) (auto simp: query_safe_def)
  with Cons show ?case by (simp add: query_safe_key)
qed

lemma render_query_plain:
  assumes "fs \<noteq> []" "\<forall>f \<in> set fs. query_safe f"
  shows "render_query fs \<noteq> []" "TrimPrefix (render_query fs) ''?'' = render_query fs"
proof -
  obtain f gs where fs: "fs = f # gs" using assms(1) by (cases fs) auto
  obtain c cs where c: "flt_Column f = c # cs" "c \<noteq> CHR ''?''"
    using assms(2) by (cases "flt_Column f") (auto simp: fs query_safe_def)
  then have "render_query fs = c # tl (render_query fs)"
    by (simp add: fs render_query_def render_pair_def Join_Cons)
  then obtain t where "render_query fs = c # t" ..
  with c(2) show "render_query fs \<noteq> []" "TrimPrefix (render_query fs) ''?'' = render_query fs"
    by (auto simp: TrimPrefix_def HasPrefix_def)
qed

section \<open>Splitting at commas\<close>

text \<open>
  What the parsers rely on: the parts of a text, joined by commas, are the text again, up to one
  trailing comma.
\<close>

locale comma_splitter =
  fixes split :: "string \<Rightarrow> string list"
  assumes rejoin: "Join (split s) '','' = s \<or> Join (split s) '','' @ '','' = s"
begin

lemma set_part: "p \<in> set (split s) \<Longrightarrow> set p \<subseteq> set s"
proof -
  assume p: "p \<in> set (split s)"
  have "set p \<subseteq> set (Join ps '','')" if "p \<in> set ps" for ps
    using that by (induction ps) (auto simp: Join_Cons split: if_splits)
  with p have "set p \<subseteq> set (Join (split s) '','')" by blast
  also have "\<dots> \<subseteq> set s" using rejoin [of s] by (metis set_append Un_upper1 order_refl)
  finally show ?thesis .
qed

lemma length_part: "p \<in> set (split s) \<Longrightarrow> length p \<le> length s"
proof -
  assume p: "p \<in> set (split s)"
  have "length p \<le> length (Join ps '','')" if "p \<in> set ps" for ps
    using that by (induction ps) (fastforce simp: Join_Cons split: if_splits)+
  with p have "length p \<le> length (Join (split s) '','')" by blast
  also have "\<dots> \<le> length s" using rejoin [of s] by (metis length_append le_add1 order_refl)
  finally show ?thesis .
qed

end

lemma Join_snoc: "Join (ps @ [p]) sep = (if ps = [] then p else Join ps sep @ sep @ p)"
  by (simp add: Join_append)

lemma splitLoop_rejoin:
  "Join (splitLoop s d cur ps) '','' = (if ps = [] then [] else Join ps '','' @ '','') @ cur @ s \<or>
   Join (splitLoop s d cur ps) '','' @ '','' = (if ps = [] then [] else Join ps '','' @ '','') @ cur @ s"
proof (induction s d cur ps rule: splitLoop.induct)
  case (1 depth current parts)
  then show ?case by (auto simp: Join_snoc)
next
  case (2 ch s depth current parts)
  then show ?case by (cases "depth = 0") (auto simp: Join_snoc)
qed

interpretation conditions: comma_splitter splitLogicalConditions
  by unfold_locales (use splitLoop_rejoin [where ps = "[]" and cur = "[]"] in
      \<open>auto simp: splitLogicalConditions_def\<close>)

interpretation selects: comma_splitter splitSelectParts
  by unfold_locales (use splitLoop_rejoin [where ps = "[]" and cur = "[]"] in
      \<open>auto simp: splitSelectParts_def\<close>)

interpretation orders: comma_splitter "\<lambda>s. Split s CHR '',''"
  by unfold_locales simp

section \<open>Negated groups\<close>

lemma parseLogicalParts_op:
  "parseLogicalParts ps (LogicalFilter op fs ls) cols =
     map_outcome (\<lambda>lf. LogicalFilter op (lf_Filters lf) (lf_Logicals lf))
       (parseLogicalParts ps (LogicalFilter op' fs ls) cols)"
proof (induction ps arbitrary: fs ls)
  case Nil
  show ?case by simp
next
  case (Cons part ps)
  consider "TrimSpace part = []"
    | o' rest where "TrimSpace part \<noteq> []" "nestedGroup (TrimSpace part) = Some (o', rest)"
    | "TrimSpace part \<noteq> []" "nestedGroup (TrimSpace part) = None"
    by (cases "nestedGroup (TrimSpace part)") auto
  then show ?case
    using Cons.IH by cases (simp_all add: parseLogicalParts_rules map_outcome_obind)
qed

lemma parseLogicalFilter_op:
  "parseLogicalFilter op v cols =
     map_outcome (\<lambda>lf. LogicalFilter op (lf_Filters lf) (lf_Logicals lf)) (parseLogicalFilter op' v cols)"
  by (simp add: parseLogicalFilter.simps parseLogicalParts_op [of _ op _ _ _ op'])

section \<open>Printing and parsing logical groups\<close>

text \<open>The depth after a text, \<open>None\<close> when the text has a comma at depth 0.\<close>

fun level :: "int \<Rightarrow> string \<Rightarrow> int option" where
  "level d [] = Some d"
| "level d (c # s) =
     (if c = CHR ''('' then level (d + 1) s
      else if c = CHR '')'' then level (d - 1) s
      else if c = CHR '','' \<and> d = 0 then None
      else level d s)"

lemma splitLoop_append:
  "level d p = Some d' \<Longrightarrow> splitLoop (p @ s) d cur ps = splitLoop s d' (cur @ p) ps"
  by (induction p arbitrary: d cur) (auto split: if_splits)

lemma splitLoop_Join:
  "qs \<noteq> [] \<Longrightarrow> \<forall>q \<in> set qs. q \<noteq> [] \<and> level 0 q = Some 0 \<Longrightarrow>
   splitLoop (Join qs '','') 0 [] ps = ps @ qs"
proof (induction qs arbitrary: ps)
  case Nil
  then show ?case by simp
next
  case (Cons q qs)
  then show ?case
    using splitLoop_append [of 0 q 0 "[]" "[]"] splitLoop_append [of 0 q 0 "'','' @ Join qs '',''" "[]"]
    by (auto simp: Join_Cons)
qed

lemma splitLogicalConditions_Join:
  "qs \<noteq> [] \<Longrightarrow> \<forall>q \<in> set qs. q \<noteq> [] \<and> level 0 q = Some 0 \<Longrightarrow>
   splitLogicalConditions (Join qs '','') = qs"
  by (simp add: splitLogicalConditions_def splitLoop_Join)

lemma level_flat:
  "{CHR ''('', CHR '')'', CHR '',''} \<inter> set s = {} \<Longrightarrow> level d s = Some d"
  by (induction s) auto

definition render_condition :: "Filter \<Rightarrow> string" where
  "render_condition f =
     (if flt_Negate f then ''not.'' else '''') @ flt_Column f @ ''.'' @ flt_Operator f @ ''.'' @ flt_Value f"

text \<open>A text without the separators of the group syntax and without blanks.\<close>

definition word_text :: "string \<Rightarrow> bool" where
  "word_text s \<longleftrightarrow> (\<forall>c \<in> set s. c \<notin> {CHR ''('', CHR '')'', CHR '',''} \<and> \<not> is_space c)"

definition condition_safe :: "Filter \<Rightarrow> bool" where
  "condition_safe f \<longleftrightarrow> isValidOperator (flt_Operator f) \<and> flt_Modifier f = '''' \<and>
     word_text (flt_Column f) \<and> word_text (flt_Value f) \<and>
     CHR ''.'' \<notin> set (flt_Column f) \<and> flt_Column f \<notin> {'''', ''not'', ''or'', ''and''}"

lemma word_text_simps [simp]:
  "word_text []" "word_text (c # s) \<longleftrightarrow> c \<notin> {CHR ''('', CHR '')'', CHR '',''} \<and> \<not> is_space c \<and> word_text s"
  "word_text (s @ t) \<longleftrightarrow> word_text s \<and> word_text t"
  by (auto simp: word_text_def)

lemma word_text_operator: "isValidOperator op \<Longrightarrow> word_text op"
  by (simp add: isValidOperator_def, elim disjE) (simp_all add: is_space_def)

lemma word_text_condition: "condition_safe f \<Longrightarrow> word_text (render_condition f)"
  by (auto simp: render_condition_def condition_safe_def word_text_operator is_space_def)

lemma render_condition_level:
  "condition_safe f \<Longrightarrow> render_condition f \<noteq> [] \<and> level 0 (render_condition f) = Some 0"
proof -
  assume "condition_safe f"
  then have "{CHR ''('', CHR '')'', CHR '',''} \<inter> set (render_condition f) = {}"
    using word_text_condition [of f] unfolding word_text_def by blast
  then show ?thesis by (simp add: level_flat) (simp add: render_condition_def)
qed

lemma TrimSpace_condition: "condition_safe f \<Longrightarrow> TrimSpace (render_condition f) = render_condition f"
  by (rule TrimSpace_none) (use word_text_condition [of f] in \<open>simp add: word_text_def\<close>)

lemma SplitN_sep:
  assumes "c \<notin> set p"
  shows "SplitN (p @ c # s) c (Suc (Suc n)) = p # SplitN s c (Suc n)"
proof -
  have "\<forall>x \<in> set p. x \<noteq> c" using assms by auto
  then have "takeWhile (\<lambda>x. x \<noteq> c) (p @ c # s) = p" "dropWhile (\<lambda>x. x \<noteq> c) (p @ c # s) = c # s"
    by (simp_all add: takeWhile_append2 dropWhile_append2)
  then show ?thesis by simp
qed

lemma SplitN_3:
  "CHR ''.'' \<notin> set c \<Longrightarrow> CHR ''.'' \<notin> set op \<Longrightarrow>
   SplitN (c @ CHR ''.'' # op @ CHR ''.'' # v) CHR ''.'' 3 = [c, op, v]"
  by (simp add: numeral_3_eq_3 SplitN_sep del: SplitN.simps(3))

lemma SplitN_two:
  "CHR ''.'' \<notin> set c \<Longrightarrow> SplitN (c @ CHR ''.'' # v) CHR ''.'' 2 = [c, v]"
  by (simp add: numeral_2_eq_2 SplitN_sep del: SplitN.simps(3))

lemma not_prefix_column:
  assumes "CHR ''.'' \<notin> set c" "c \<noteq> ''not''"
  shows "\<not> HasPrefix (c @ CHR ''.'' # s) ''not.''"
proof
  assume "HasPrefix (c @ CHR ''.'' # s) ''not.''"
  then obtain t where t: "c @ CHR ''.'' # s = ''not'' @ CHR ''.'' # t" by (auto simp: HasPrefix_iff)
  have "CHR ''.'' \<notin> set ''not''" by simp
  from SplitN_two [OF assms(1), of s] SplitN_two [OF this, of t] assms(2) show False
    unfolding t by simp
qed

lemma parseCondition_render:
  assumes "condition_safe f" "tableColumns (flt_Column f)"
  shows "parseCondition (render_condition f) tableColumns = Ok f"
    and "nestedGroup (render_condition f) = None"
proof -
  obtain c op v n m where f: "f = \<lparr>flt_Column = c, flt_Operator = op, flt_Value = v, flt_Negate = n,
      flt_Modifier = m\<rparr>" by (cases f)
  have c: "CHR ''.'' \<notin> set c" "c \<noteq> ''not''" "c \<noteq> ''or''" "c \<noteq> ''and''" "m = ''''" "isValidOperator op"
    using assms(1) by (auto simp: f condition_safe_def)
  have op: "CHR ''.'' \<notin> set op" using isValidOperator_chars [OF c(6)] by blast
  define body where "body = c @ CHR ''.'' # op @ CHR ''.'' # v"
  have "\<not> HasPrefix body ''not.''" using not_prefix_column c by (simp add: body_def)
  then have neg: "HasPrefix (render_condition f) ''not.'' = n"
    by (auto simp: f render_condition_def body_def HasPrefix_def)
  have drop: "(if n then drop 4 (render_condition f) else render_condition f) = body"
    by (simp add: f render_condition_def body_def)
  have "SplitN body CHR ''.'' 3 = [c, op, v]"
    unfolding body_def by (rule SplitN_3 [OF c(1) op])
  moreover have "tableColumns c" using assms(2) by (simp add: f)
  ultimately have "parseCondition (render_condition f) tableColumns =
      Ok \<lparr>flt_Column = c, flt_Operator = op, flt_Value = v, flt_Negate = n, flt_Modifier = m\<rparr>"
    using c by (simp add: parseCondition_def Let_def neg drop)
  then show "parseCondition (render_condition f) tableColumns = Ok f" using f by simp
  have "SplitN body CHR ''.'' 2 = [c, op @ ''.'' @ v]"
    using SplitN_two [OF c(1)] by (simp add: body_def)
  then have "n \<Longrightarrow> SplitN (drop 4 (render_condition f)) CHR ''.'' 2 = [c, op @ ''.'' @ v]"
    using drop by simp
  with neg c show "nestedGroup (render_condition f) = None"
    by (auto simp: nestedGroup_def)
qed

lemma parseLogicalParts_render:
  assumes "\<forall>f \<in> set fs. condition_safe f \<and> tableColumns (flt_Column f)"
  shows "parseLogicalParts (map render_condition fs) lf tableColumns =
    Ok (LogicalFilter (lf_Op lf) (lf_Filters lf @ fs) (lf_Logicals lf))"
  using assms
proof (induction fs arbitrary: lf)
  case Nil
  show ?case by simp
next
  case (Cons f fs)
  then have "condition_safe f" "tableColumns (flt_Column f)" by auto
  with Cons show ?case
    using parseCondition_render [of f tableColumns] render_condition_level [of f]
    by (simp add: parseLogicalParts_condition TrimSpace_condition)
qed

lemma Trim_group:
  assumes "fs \<noteq> []" "\<forall>f \<in> set fs. condition_safe f"
  shows "Trim (''('' @ Join (map render_condition fs) '','' @ '')'') ''()'' = Join (map render_condition fs) '',''"
proof -
  have "\<forall>c \<in> set (Join (map render_condition fs) '',''). c \<notin> set ''()''"
    using assms(2) set_Join [of "map render_condition fs" "'',''"]
    by (fastforce dest: word_text_condition simp: word_text_def)
  then show ?thesis
    by (simp add: Trim_def trim_with_wrap [of _ "CHR ''(''" "CHR '')''", simplified] trim_with_none)
qed

section \<open>Properties\<close>

text \<open>
  C14. Validation: when \<^verbatim>\<open>Parse\<close> succeeds, every column of a filter, of a logical group at any depth
  and of a full-text filter is a column of the table, every operator is one the builder knows, and
  a modifier is absent, \<^verbatim>\<open>any\<close> or \<^verbatim>\<open>all\<close>.
\<close>

theorem Parse_checks_columns:
  "Parse ord q tableColumns = Ok p \<Longrightarrow> params_ok tableColumns p"
  by (rule Parse_ok)

theorem Parse_checks_columns_witness:
  "params_ok (\<lambda>c. c = ''age'') (emptyParams\<lparr>par_Filters :=
     [\<lparr>flt_Column = ''age'', flt_Operator = ''gt'', flt_Value = ''18'', flt_Negate = False,
       flt_Modifier = ''''\<rparr>]\<rparr>)"
  by (rule Parse_checks_columns [where ord = "\<lambda>kvs. kvs" and q = "''age=gt.18''"]) code_simp

text \<open>
  C15. Iteration order: Go visits the map of query pairs in an unspecified order.  Whatever
  order is taken, \<^verbatim>\<open>Parse\<close> succeeds for the same queries, and the results agree on everything but
  the order of the filters, groups and full-text filters.
\<close>

theorem Parse_order_irrelevant:
  assumes "\<And>kvs. mset (ord kvs) = mset kvs" "\<And>kvs. mset (ord' kvs) = mset kvs"
    and "Parse ord q tableColumns = Ok p"
  shows "\<exists>p'. Parse ord' q tableColumns = Ok p' \<and> params_equiv p p'"
proof (cases "q = ''''")
  case True
  with assms(3) show ?thesis by (simp add: Parse_def params_equiv_def)
next
  case False
  let ?kvs = "splitQuery (TrimPrefix q ''?'')"
  have "mset (map fst (ord ?kvs)) = mset (map fst ?kvs)" by (simp add: assms(1))
  then have "distinct (map fst (ord ?kvs))"
    using mset_eq_imp_distinct_iff distinct_splitQuery by blast
  moreover have "mset (ord ?kvs) = mset (ord' ?kvs)" by (simp add: assms(1,2))
  ultimately show ?thesis
    using parsePairs_perm assms(3) False by (simp add: Parse_def)
qed

theorem Parse_order_irrelevant_witness:
  "\<exists>p'. Parse rev ''age=gt.18&name=eq.Bo'' (\<lambda>c. c \<in> {''age'', ''name''}) = Ok p' \<and>
     par_Count p' = ''''"
proof -
  have m: "mset (id kvs) = mset kvs" "mset (rev kvs) = mset kvs" for kvs :: "(string \<times> string) list"
    by simp_all
  let ?p = "emptyParams\<lparr>par_Filters :=
    [\<lparr>flt_Column = ''age'', flt_Operator = ''gt'', flt_Value = ''18'', flt_Negate = False, flt_Modifier = []\<rparr>,
     \<lparr>flt_Column = ''name'', flt_Operator = ''eq'', flt_Value = ''Bo'', flt_Negate = False, flt_Modifier = []\<rparr>]\<rparr>"
  have p: "Parse id ''age=gt.18&name=eq.Bo'' (\<lambda>c. c \<in> {''age'', ''name''}) = Ok ?p"
    by code_simp
  have "par_Count ?p = []" by (simp add: emptyParams_def)
  with Parse_order_irrelevant [OF m p] show ?thesis
    by (auto simp: params_equiv_def)
qed

text \<open>
  C16. Round trip: a query written from a list of filters on different columns is read back as
  exactly these filters, with operator, negation, modifier and value, and nothing else is set.
\<close>

theorem Parse_render_roundtrip:
  assumes "fs \<noteq> []" "\<forall>f \<in> set fs. query_safe f \<and> tableColumns (flt_Column f)"
    and "distinct (map flt_Column fs)"
  shows "Parse (\<lambda>kvs. kvs) (render_query fs) tableColumns = Ok (emptyParams\<lparr>par_Filters := fs\<rparr>)"
proof -
  have "\<forall>f \<in> set fs. query_safe f" using assms(2) by blast
  with assms show ?thesis
    by (simp add: Parse_def render_query_plain splitQuery_render parsePairs_render)
      (simp add: emptyParams_def)
qed

theorem Parse_render_roundtrip_witness:
  "Parse (\<lambda>kvs. kvs) ''id=not.eq(any).{1,2}&name=like.a.b'' (\<lambda>c. c \<in> {''id'', ''name''}) =
     Ok (emptyParams\<lparr>par_Filters :=
       [\<lparr>flt_Column = ''id'', flt_Operator = ''eq'', flt_Value = ''{1,2}'', flt_Negate = True,
         flt_Modifier = ''any''\<rparr>,
        \<lparr>flt_Column = ''name'', flt_Operator = ''like'', flt_Value = ''a.b'', flt_Negate = False,
         flt_Modifier = ''''\<rparr>]\<rparr>)"
  using Parse_render_roundtrip [of
      "[\<lparr>flt_Column = ''id'', flt_Operator = ''eq'', flt_Value = ''{1,2}'', flt_Negate = True,
         flt_Modifier = ''any''\<rparr>,
        \<lparr>flt_Column = ''name'', flt_Operator = ''like'', flt_Value = ''a.b'', flt_Negate = False,
         flt_Modifier = ''''\<rparr>]" "\<lambda>c. c \<in> {''id'', ''name''}"]
  by (simp add: render_query_def render_pair_def render_value_def query_safe_def renderable_def
      isValidOperator_def)

text \<open>
  The negated groups \<^verbatim>\<open>_not.or\<close> and \<^verbatim>\<open>_not.and\<close> are read as the same group: \<^verbatim>\<open>Parse\<close> overwrites
  the connective by \<^verbatim>\<open>not\<close>, so which of the two was written is lost (the builder then joins the
  conditions of both with AND).
\<close>

lemma not_or_read_as_not_and:
  "parsePair tableColumns (''_not.or'', v) p = parsePair tableColumns (''_not.and'', v) p"
  by (cases "parseLogicalFilter ''and'' v tableColumns")
    (simp_all add: parsePair_def HasPrefix_def parseLogicalFilter_op [of "''or''" v tableColumns "''and''"])

text \<open>
  Splitting a logical group or a selection at its top-level commas loses nothing: the parts
  joined by commas are the text again, except that one trailing comma is dropped.
\<close>

lemma split_conditions_rejoin:
  "(Join (splitLogicalConditions s) '','' = s \<or> Join (splitLogicalConditions s) '','' @ '','' = s) \<and>
   splitSelectParts s = splitLogicalConditions s"
  using conditions.rejoin [of s] by (simp add: splitLogicalConditions_def splitSelectParts_def)

text \<open>
  C19. Round trip of logical groups: conditions written between parentheses, separated by commas,
  are read back as exactly these filters of one flat group with the given connective.
\<close>

theorem parseLogicalFilter_render:
  assumes "fs \<noteq> []" "\<forall>f \<in> set fs. condition_safe f \<and> tableColumns (flt_Column f)"
  shows "parseLogicalFilter op (''('' @ Join (map render_condition fs) '','' @ '')'') tableColumns =
    Ok (LogicalFilter op fs [])"
proof -
  have safe: "\<forall>f \<in> set fs. condition_safe f" using assms(2) by blast
  have "Trim (''('' @ Join (map render_condition fs) '','' @ '')'') ''()'' = Join (map render_condition fs) '',''"
    using safe Trim_group [OF assms(1)] by simp
  moreover have "splitLogicalConditions (Join (map render_condition fs) '','') = map render_condition fs"
    using assms(1) safe by (intro splitLogicalConditions_Join) (auto dest: render_condition_level)
  ultimately show ?thesis
    using assms(2) parseLogicalParts_render [of fs tableColumns "LogicalFilter op [] []"]
    by (simp add: parseLogicalFilter.simps)
qed

theorem parseLogicalFilter_render_witness:
  "parseLogicalFilter ''or'' ''(age.lt.18,not.name.like.Bo)'' (\<lambda>c. c \<in> {''age'', ''name''}) =
     Ok (LogicalFilter ''or''
       [\<lparr>flt_Column = ''age'', flt_Operator = ''lt'', flt_Value = ''18'', flt_Negate = False,
         flt_Modifier = ''''\<rparr>,
        \<lparr>flt_Column = ''name'', flt_Operator = ''like'', flt_Value = ''Bo'', flt_Negate = True,
         flt_Modifier = ''''\<rparr>] [])"
  using parseLogicalFilter_render [of
      "[\<lparr>flt_Column = ''age'', flt_Operator = ''lt'', flt_Value = ''18'', flt_Negate = False,
         flt_Modifier = ''''\<rparr>,
        \<lparr>flt_Column = ''name'', flt_Operator = ''like'', flt_Value = ''Bo'', flt_Negate = True,
         flt_Modifier = ''''\<rparr>]" "\<lambda>c. c \<in> {''age'', ''name''}" "''or''"]
  by (simp add: render_condition_def condition_safe_def isValidOperator_def is_space_def word_text_def)

end
