(* ===== verification/Builder.thy ===== *)
theory Builder
  imports Params Schema
begin

text \<open>
  \<^verbatim>\<open>internal/query/builder.go\<close>: SQL texts with numbered placeholders, built from parsed parameters.

  The counter \<^verbatim>\<open>*argIdx\<close> is passed in and out.  The field \<^verbatim>\<open>Table\<close> may be nil (the transaction-free
  PATCH handler builds a bare WHERE clause with no table); code that follows the nil pointer is
  \<open>Panic\<close>.  \<^verbatim>\<open>SchemaNames\<close> visits a Go map: the visiting order of each search is an argument.
\<close>

record Builder =
  bld_Table :: "Table option"
  bld_Params :: Params
  bld_SchemaName :: string
  bld_Store :: "SchemaStore option"

definition NewBuilder :: "Table option \<Rightarrow> Params \<Rightarrow> string \<Rightarrow> Builder" where
  "NewBuilder table params schemaName =
     \<lparr>bld_Table = table, bld_Params = params, bld_SchemaName = schemaName, bld_Store = None\<rparr>"

definition NewBuilderWithStore :: "Table option \<Rightarrow> Params \<Rightarrow> string \<Rightarrow> SchemaStore option \<Rightarrow> Builder" where
  "NewBuilderWithStore table params schemaName store =
     \<lparr>bld_Table = table, bld_Params = params, bld_SchemaName = schemaName, bld_Store = store\<rparr>"

type_synonym clause = "string \<times> string list \<times> nat"
type_synonym query = "string \<times> string list"

definition Placeholder :: "nat \<Rightarrow> string" where
  "Placeholder idx = CHR ''$'' # nat_text idx"

lemma Placeholder_dollar: "Placeholder = dollar"
  by (simp add: fun_eq_iff Placeholder_def dollar_def)

text \<open>\<open>Panic\<close> when the table pointer is nil.\<close>

definition with_table :: "Builder \<Rightarrow> (Table \<Rightarrow> 'a outcome) \<Rightarrow> 'a outcome" where
  "with_table b f = (case bld_Table b of None \<Rightarrow> Panic | Some t \<Rightarrow> f t)"

section \<open>Names\<close>

definition qualifiedTable :: "Builder \<Rightarrow> Table \<Rightarrow> string" where
  "qualifiedTable b t =
     (if bld_SchemaName b \<noteq> '''' \<and> bld_SchemaName b \<noteq> ''public''
      then bld_SchemaName b @ ''.'' @ tbl_Name t
      else tbl_Name t)"

definition ftsLanguage :: "Table \<Rightarrow> string" where
  "ftsLanguage t = (if tbl_FTSLanguage t \<noteq> '''' then tbl_FTSLanguage t else ''english'')"

section \<open>Conditions\<close>

definition parseInStep :: "char \<Rightarrow> string list \<times> int \<times> string \<Rightarrow> string list \<times> int \<times> string" where
  "parseInStep ch st =
     (let (vals, depth, current) = st
      in if ch = CHR 0x22 then (vals, depth + 1, current)
         else if ch = CHR '','' then
           (if depth = 0 then (vals @ [TrimSpace current], depth, '''')
            else (vals, depth, current @ [ch]))
         else (vals, depth, current @ [ch]))"

definition parseInValues :: "string \<Rightarrow> string list" where
  "parseInValues value0 =
     (let (vals, depth, current) = fold parseInStep (Trim value0 ''()'') ([], 0, '''')
      in if 0 < length current then vals @ [TrimSpace current] else vals)"

definition buildFilterCondition :: "Filter \<Rightarrow> nat \<Rightarrow> clause outcome" where
  "buildFilterCondition f argIdx =
     (let col = flt_Column f
      in if flt_Operator f = OpIs then
           let val = ToLower (flt_Value f)
           in if val = ''null'' then
                Ok ((if flt_Negate f then col @ '' IS NOT NULL'' else col @ '' IS NULL''), [], argIdx)
              else if val = ''true'' \<or> val = ''false'' then
                Ok ((if flt_Negate f then col @ '' IS NOT '' @ ToUpper val
                     else col @ '' IS '' @ ToUpper val), [], argIdx)
              else Error (''invalid IS value: '' @ flt_Value f @ '' (use true, false, or null)'')
         else if flt_Operator f = OpIn then
           let vals = parseInValues (flt_Value f);
               placeholders = map Placeholder [argIdx ..< argIdx + length vals];
               cond = col @ '' IN ('' @ Join placeholders '', '' @ '')''
           in Ok ((if flt_Negate f then ''NOT ('' @ cond @ '')'' else cond), vals, argIdx + length vals)
         else
           let sqlOp = operator_SQL (flt_Operator f);
               sqlOp' = (if flt_Modifier f \<noteq> '''' then sqlOp @ '' '' @ ToUpper (flt_Modifier f) else sqlOp);
               cond = col @ '' '' @ sqlOp' @ '' '' @ Placeholder argIdx
           in Ok ((if flt_Negate f then ''NOT ('' @ cond @ '')'' else cond), [flt_Value f], argIdx + 1))"

text \<open>
  The loops of \<^verbatim>\<open>buildWhere\<close> and \<^verbatim>\<open>buildLogicalCondition\<close>: one condition per element, the
  arguments appended, the counter threaded, the first error returned.
\<close>

fun buildEach ::
    "('a \<Rightarrow> nat \<Rightarrow> clause outcome) \<Rightarrow> 'a list \<Rightarrow> nat \<Rightarrow> (string list \<times> string list \<times> nat) outcome" where
  "buildEach build [] argIdx = Ok ([], [], argIdx)"
| "buildEach build (x # xs) argIdx =
     obind (build x argIdx) (\<lambda>(condition, conditionArgs, argIdx').
       obind (buildEach build xs argIdx') (\<lambda>(conditions, args, argIdx'').
         Ok (condition # conditions, conditionArgs @ args, argIdx'')))"

lemma buildEach_cong [fundef_cong]:
  "xs = ys \<Longrightarrow> i = j \<Longrightarrow> (\<And>x k. x \<in> set ys \<Longrightarrow> f x k = g x k) \<Longrightarrow> buildEach f xs i = buildEach g ys j"
proof (induction xs arbitrary: ys i j)
  case Nil
  then show ?case by auto
next
  case (Cons x xs)
  then have "buildEach f xs k = buildEach g xs k" for k by auto
  then have "buildEach f xs = buildEach g xs" by blast
  with Cons.prems show ?case by auto
qed

lemma lf_Logicals_smaller: "l \<in> set (lf_Logicals lf) \<Longrightarrow> size l < size lf"
proof -
  assume "l \<in> set (lf_Logicals lf)"
  then have "size l \<le> size_list size (lf_Logicals lf)"
    by (rule size_list_estimation') simp
  then show ?thesis by (cases lf) simp
qed

function buildLogicalCondition :: "LogicalFilter \<Rightarrow> nat \<Rightarrow> clause outcome" where
  "buildLogicalCondition lf argIdx =
     obind (buildEach buildFilterCondition (lf_Filters lf) argIdx) (\<lambda>(conditions1, args1, argIdx1).
     obind (buildEach buildLogicalCondition (lf_Logicals lf) argIdx1) (\<lambda>(conditions2, args2, argIdx2).
       let conditions = conditions1 @ conditions2;
           joiner = (if lf_Op lf = LogicalOr then '' OR '' else '' AND '');
           result = ''('' @ Join conditions joiner @ '')''
       in if conditions = [] then Ok ('''', [], argIdx2)
          else Ok ((if lf_Op lf = LogicalNot then ''NOT '' @ result else result), args1 @ args2, argIdx2)))"
  by pat_completeness auto
termination
  by (relation "measure (\<lambda>(lf, _). size lf)") (auto dest: lf_Logicals_smaller)

declare buildLogicalCondition.simps [simp del]

definition buildFtsCondition :: "Builder \<Rightarrow> FtsFilter \<Rightarrow> nat \<Rightarrow> clause outcome" where
  "buildFtsCondition b fts argIdx =
     with_table b (\<lambda>t.
       let lang = (if tbl_FTSLanguage t = '''' then ''english'' else tbl_FTSLanguage t);
           cond = fts_Column fts @ '' @@ plainto_tsquery('' @ quoted lang @ '', '' @ Placeholder argIdx @ '')''
       in Ok ((if fts_Negate fts then ''NOT ('' @ cond @ '')'' else cond), [fts_SearchTerm fts], argIdx + 1))"

definition buildWhere :: "Builder \<Rightarrow> nat \<Rightarrow> clause outcome" where
  "buildWhere b argIdx =
     (let p = bld_Params b
      in obind (buildEach buildFilterCondition (par_Filters p) argIdx) (\<lambda>(conditions1, args1, argIdx1).
         obind (buildEach buildLogicalCondition (par_Logicals p) argIdx1) (\<lambda>(conditions2, args2, argIdx2).
         obind (buildEach (buildFtsCondition b) (par_FtsFilters p) argIdx2) (\<lambda>(conditions3, args3, argIdx3).
           let conditions = conditions1 @ conditions2 @ conditions3
           in if conditions = [] then Ok ('''', [], argIdx3)
              else Ok (Join conditions '' AND '', args1 @ args2 @ args3, argIdx3)))))"

definition BuildWherePublic :: "Builder \<Rightarrow> nat \<Rightarrow> clause outcome" where
  "BuildWherePublic b argIdx = buildWhere b argIdx"

text \<open>What the statements do with it: append the clause and its arguments when there is one.\<close>

definition addWhere :: "Builder \<Rightarrow> string \<Rightarrow> nat \<Rightarrow> query outcome" where
  "addWhere b query argIdx =
     obind (buildWhere b argIdx) (\<lambda>(whereClause, whereArgs, argIdx').
       Ok (if whereClause \<noteq> '''' then (query @ '' WHERE '' @ whereClause, whereArgs) else (query, [])))"

section \<open>Order, aggregates and embeds\<close>

definition buildOrderItem :: "Builder \<Rightarrow> Table \<Rightarrow> OrderItem \<Rightarrow> string" where
  "buildOrderItem b t item =
     (let col = (case par_FtsFilters (bld_Params b) of
                   fts # _ \<Rightarrow>
                     (if ord_Column item = ''_rank''
                      then ''ts_rank('' @ fts_Column fts @ '', plainto_tsquery('' @ quoted (ftsLanguage t) @ '', $1))''
                      else ord_Column item)
                 | [] \<Rightarrow> ord_Column item)
      in col @ '' '' @ ToUpper (ord_Direction item) @
         (if ord_Nulls item \<noteq> '''' then '' '' @ ToUpper (ord_Nulls item) else ''''))"

definition buildOrderBy :: "Builder \<Rightarrow> Table \<Rightarrow> string" where
  "buildOrderBy b t = Join (map (buildOrderItem b t) (par_Order (bld_Params b))) '', ''"

definition buildAggregateSelect :: "Builder \<Rightarrow> Table \<Rightarrow> Aggregate \<Rightarrow> string" where
  "buildAggregateSelect b t agg =
     ToUpper (agg_Func agg) @ ''('' @
     (if agg_Col agg \<noteq> ''*'' then qualifiedTable b t @ ''.'' @ agg_Col agg else agg_Col agg) @
     '') AS '' @ agg_Alias agg"

text \<open>The table of an embed: in the default schema, else in the first schema that has it.\<close>

fun firstTable :: "SchemaStore \<Rightarrow> string list \<Rightarrow> string \<Rightarrow> Table option" where
  "firstTable store [] name = None"
| "firstTable store (s # ss) name =
     (case GetTable store s name of Some t \<Rightarrow> Some t | None \<Rightarrow> firstTable store ss name)"

definition embedTable :: "(string list \<Rightarrow> string list) \<Rightarrow> SchemaStore \<Rightarrow> string \<Rightarrow> Table option" where
  "embedTable ord store name =
     (case GetTable store '''' name of
        Some t \<Rightarrow> Some t
      | None \<Rightarrow> firstTable store (ord (SchemaNames store)) name)"

definition jsonCol :: "string \<Rightarrow> string \<Rightarrow> string" where
  "jsonCol table col = quoted col @ '', '' @ table @ ''.'' @ col"

definition buildEmbedSelect :: "(string list \<Rightarrow> string list) \<Rightarrow> Builder \<Rightarrow> Embed \<Rightarrow> string" where
  "buildEmbedSelect ord b emb =
     (case bld_Store b of
        None \<Rightarrow> ''NULL''
      | Some store \<Rightarrow>
          (case embedTable ord store (emb_Table emb) of
             None \<Rightarrow> ''NULL''
           | Some refTable \<Rightarrow>
               let cols = (if emb_Select emb = [] then map col_Name (OrderedColumns refTable)
                           else filter (\<lambda>c. map_of (tbl_Columns refTable) c \<noteq> None) (emb_Select emb));
                   jsonCols = map (jsonCol (emb_Table emb)) cols
               in if jsonCols = [] then ''NULL''
                  else ''json_build_object('' @ Join jsonCols '', '' @ '') AS '' @ emb_Table emb))"

definition joinText :: "Table \<Rightarrow> Embed \<Rightarrow> string \<Rightarrow> string" where
  "joinText refTable emb onClause =
     ''LEFT JOIN '' @ QualifiedName refTable @ '' AS '' @ emb_Table emb @ '' ON '' @ onClause"

text \<open>The join of one embed: a key of this table to the other, else a key of the other to this one.\<close>

definition embedJoin :: "(string list \<Rightarrow> string list) \<Rightarrow> Builder \<Rightarrow> Table \<Rightarrow> SchemaStore \<Rightarrow> Embed \<Rightarrow> string option" where
  "embedJoin ord b t store emb =
     (case embedTable ord store (emb_Table emb) of
        None \<Rightarrow> None
      | Some refTable \<Rightarrow>
          (case find (\<lambda>f. fk_RefTable f = emb_Table emb) (tbl_ForeignKeys t) of
             Some fk \<Rightarrow>
               Some (joinText refTable emb
                 (qualifiedTable b t @ ''.'' @ fk_ColumnName fk @ '' = '' @ emb_Table emb @ ''.'' @ fk_RefColumn fk))
           | None \<Rightarrow>
               (case find (\<lambda>f. fk_RefTable f = tbl_Name t) (tbl_ForeignKeys refTable) of
                  Some f \<Rightarrow>
                    Some (joinText refTable emb
                      (qualifiedTable b t @ ''.'' @ tbl_PK t @ '' = '' @ emb_Table emb @ ''.'' @ fk_RefColumn f))
                | None \<Rightarrow> None)))"

definition buildEmbedJoins :: "(nat \<Rightarrow> string list \<Rightarrow> string list) \<Rightarrow> Builder \<Rightarrow> Table \<Rightarrow> string \<times> string list" where
  "buildEmbedJoins ord b t =
     (case bld_Store b of
        None \<Rightarrow> ('''', [])
      | Some store \<Rightarrow>
          (Join (List.map_filter (\<lambda>(i, emb). embedJoin (ord i) b t store emb)
                  (enumerate 0 (par_Embeds (bld_Params b)))) '' '', []))"

section \<open>Statements\<close>

definition selects_columns :: "Params \<Rightarrow> bool" where
  "selects_columns p \<longleftrightarrow> 0 < length (par_Select p) \<or> 0 < length (par_Embeds p) \<or> 0 < length (par_Aggregates p)"

text \<open>The rank of a full-text filter is put in front of the selected columns.\<close>

fun addRanks :: "Builder \<Rightarrow> Table \<Rightarrow> FtsFilter list \<Rightarrow> string \<Rightarrow> nat \<Rightarrow> clause" where
  "addRanks b t [] query argIdx = (query, [], argIdx)"
| "addRanks b t (fts # ftss) query argIdx =
     (let rankExpr = ''ts_rank('' @ fts_Column fts @ '', plainto_tsquery('' @ quoted (ftsLanguage t) @ '', '' @
                     Placeholder argIdx @ '')) AS _rank'';
          query' = (if selects_columns (bld_Params b)
                    then replace_first query ''SELECT '' (''SELECT '' @ rankExpr @ '', '')
                    else ''SELECT '' @ rankExpr @ '', '' @ drop (length ''SELECT '') query);
          (q, args, i) = addRanks b t ftss query' (argIdx + 1)
      in (q, fts_SearchTerm fts # args, i))"

definition selectList :: "(nat \<Rightarrow> string list \<Rightarrow> string list) \<Rightarrow> Builder \<Rightarrow> Table \<Rightarrow> string outcome" where
  "selectList ord b t =
     (let p = bld_Params b
      in if selects_columns p then
           (case find (\<lambda>col. map_of (tbl_Columns t) col = None) (par_Select p) of
              Some col \<Rightarrow> Error (column_not_found col)
            | None \<Rightarrow>
                Ok (Join (map (\<lambda>col. qualifiedTable b t @ ''.'' @ col) (par_Select p) @
                          map (\<lambda>(i, emb). buildEmbedSelect (ord i) b emb) (enumerate 0 (par_Embeds p)) @
                          map (buildAggregateSelect b t) (par_Aggregates p)) '', ''))
         else Ok (qualifiedTable b t @ ''.*''))"

text \<open>\<open>ordS\<close> and \<open>ordJ\<close> are the visiting orders of the schema map, per embed, in the two searches.\<close>

definition BuildSelect ::
    "(nat \<Rightarrow> string list \<Rightarrow> string list) \<Rightarrow> (nat \<Rightarrow> string list \<Rightarrow> string list) \<Rightarrow> Builder \<Rightarrow> query outcome" where
  "BuildSelect ordS ordJ b =
     with_table b (\<lambda>t.
       obind (selectList ordS b t) (\<lambda>sel.
         let p = bld_Params b;
             (query1, rankArgs, argIdx1) = addRanks b t (par_FtsFilters p) (''SELECT '' @ sel) 1;
             query2 = query1 @ '' FROM '' @ qualifiedTable b t;
             (joins, joinArgs) = buildEmbedJoins ordJ b t;
             query3 = (if joins \<noteq> '''' then query2 @ '' '' @ joins else query2);
             args3 = (if joins \<noteq> '''' then rankArgs @ joinArgs else rankArgs)
         in obind (addWhere b query3 argIdx1) (\<lambda>(query4, whereArgs).
              let query5 = (if 0 < length (par_Order p) then query4 @ '' ORDER BY '' @ buildOrderBy b t else query4);
                  query6 = (if 0 \<le> rng_Limit (par_Range p)
                            then query5 @ '' LIMIT '' @ Itoa (rng_Limit (par_Range p)) else query5);
                  query7 = (if 0 < rng_Offset (par_Range p)
                            then query6 @ '' OFFSET '' @ Itoa (rng_Offset (par_Range p)) else query6)
              in Ok (query7, args3 @ whereArgs))))"

definition BuildCount :: "Builder \<Rightarrow> query outcome" where
  "BuildCount b =
     with_table b (\<lambda>t. addWhere b (''SELECT count('' @ ''*) FROM '' @ qualifiedTable b t) 1)"

definition rowText :: "nat \<Rightarrow> nat \<Rightarrow> string" where
  "rowText argIdx n = ''('' @ Join (map Placeholder [argIdx ..< argIdx + n]) '', '' @ '')''"

fun rowTexts :: "nat \<Rightarrow> nat \<Rightarrow> nat \<Rightarrow> string list" where
  "rowTexts argIdx n 0 = []"
| "rowTexts argIdx n (Suc rows) = rowText argIdx n # rowTexts (argIdx + n) n rows"

definition insertText :: "Builder \<Rightarrow> Table \<Rightarrow> string list \<Rightarrow> int \<Rightarrow> string" where
  "insertText b t columns rowCount =
     ''INSERT INTO '' @ qualifiedTable b t @ '' ('' @ Join columns '', '' @ '') VALUES '' @
     Join (rowTexts 1 (length columns) (nat rowCount)) '', ''"

definition BuildInsert :: "Builder \<Rightarrow> string list \<Rightarrow> int \<Rightarrow> query outcome" where
  "BuildInsert b columns rowCount =
     (if length columns = 0 \<or> rowCount = 0 then Error ''empty insert''
      else with_table b (\<lambda>t. Ok (insertText b t columns rowCount, [])))"

definition BuildUpsert :: "Builder \<Rightarrow> string list \<Rightarrow> string list \<Rightarrow> int \<Rightarrow> query outcome" where
  "BuildUpsert b columns conflictCols rowCount =
     (if length columns = 0 \<or> rowCount = 0 then Error ''empty upsert''
      else if length conflictCols = 0 then Error ''empty conflict columns''
      else with_table b (\<lambda>t.
        let setClauses = map (\<lambda>col. col @ '' = EXCLUDED.'' @ col)
                           (filter (\<lambda>col. \<not> list_ex (\<lambda>cc. col = cc) conflictCols) columns);
            onConflict = (if 0 < length setClauses
                          then '' ON CONFLICT ('' @ Join conflictCols '', '' @ '') DO UPDATE SET '' @ Join setClauses '', ''
                          else '' ON CONFLICT ('' @ Join conflictCols '', '' @ '') DO NOTHING'')
        in Ok (insertText b t columns rowCount @ onConflict, [])))"

definition setTexts :: "nat \<Rightarrow> string list \<Rightarrow> string list" where
  "setTexts argIdx columns = map (\<lambda>(i, col). col @ '' = '' @ Placeholder i) (enumerate argIdx columns)"

definition BuildUpdate :: "Builder \<Rightarrow> string list \<Rightarrow> query outcome" where
  "BuildUpdate b columns =
     (if length columns = 0 then Error ''empty update''
      else with_table b (\<lambda>t.
        addWhere b (''UPDATE '' @ qualifiedTable b t @ '' SET '' @ Join (setTexts 1 columns) '', '')
          (1 + length columns)))"

definition BuildDelete :: "Builder \<Rightarrow> query outcome" where
  "BuildDelete b =
     with_table b (\<lambda>t.
       obind (buildWhere b 1) (\<lambda>(whereClause, whereArgs, argIdx).
         Ok (if whereClause \<noteq> '''' then ''DELETE FROM '' @ qualifiedTable b t @ '' WHERE '' @ whereClause
             else ''DELETE FROM '' @ qualifiedTable b t, whereArgs)))"

section \<open>Numbering\<close>

text \<open>
  A clause built from counter \<open>i\<close> uses exactly the placeholders from \<open>i\<close> up to the new counter,
  in order, and has one argument for each.
\<close>

definition numbered :: "nat \<Rightarrow> clause \<Rightarrow> bool" where
  "numbered i cl \<longleftrightarrow> (case cl of (c, as, i') \<Rightarrow> i' = i + length as \<and> dollars c = [i ..< i'])"

lemma plain_operator_SQL [simp]: "plain (operator_SQL op)"
  by (simp add: operator_SQL_def)

lemma plain_Placeholders: "dollars (Join (map Placeholder ns) '', '') = ns"
  by (simp add: dollars_Join Placeholder_dollar comp_def)

lemma seamless_space [simp]: "seamless ('' '' @ s)" "seamless ('')'' @ s)" "seamless ('', '' @ s)"
  by simp_all

lemma numbered_filter:
  assumes "plain (flt_Column f)" "plain (flt_Modifier f)" "buildFilterCondition f i = Ok cl"
  shows "numbered i cl"
proof -
  have tail: "dollars (s @ '')'') = dollars s" for s by (simp add: dollars_append_plain)
  show ?thesis
    using assms
    by (auto simp: buildFilterCondition_def Let_def numbered_def dollars_append dollars_plain_append
        Placeholder_dollar plain_ToUpper dollars_Join comp_def tail split: if_splits)
qed

text \<open>The same of a list of conditions.\<close>

definition numbered_list :: "nat \<Rightarrow> string list \<times> string list \<times> nat \<Rightarrow> bool" where
  "numbered_list i cl \<longleftrightarrow> (case cl of (cs, as, i') \<Rightarrow>
     i' = i + length as \<and> concat (map dollars cs) = [i ..< i'])"

lemma upt_chain: "[i ..< i + m] @ [i + m ..< i + m + n] = [i ..< i + m + n]"
  by (rule upt_add_eq_append [symmetric]) simp

lemma numbered_list_append:
  "numbered_list i (cs1, as1, i1) \<Longrightarrow> numbered_list i1 (cs2, as2, i2) \<Longrightarrow>
   numbered_list i (cs1 @ cs2, as1 @ as2, i2)"
  using upt_chain [of i "length as1" "length as2"]
  by (simp add: numbered_list_def)

lemma numbered_list_Cons:
  "numbered i (c, as1, i1) \<Longrightarrow> numbered_list i1 (cs, as2, i2) \<Longrightarrow>
   numbered_list i (c # cs, as1 @ as2, i2)"
  using numbered_list_append [of i "[c]" as1 i1 cs as2 i2]
  by (simp add: numbered_def) (simp add: numbered_list_def)

lemma numbered_list_Nil: "numbered_list i ([], as, i') \<longleftrightarrow> as = [] \<and> i' = i"
  by (cases as) (auto simp: numbered_list_def)

lemma buildEach_numbered:
  "\<forall>x \<in> set xs. \<forall>k cl. build x k = Ok cl \<longrightarrow> numbered k cl \<Longrightarrow>
   buildEach build xs i = Ok cl \<Longrightarrow> numbered_list i cl"
proof (induction xs arbitrary: i cl)
  case Nil
  then show ?case by (auto simp: numbered_list_Nil)
next
  case (Cons x xs)
  from Cons.prems(2) obtain c as1 i1 cs as2 i2 where 1: "build x i = Ok (c, as1, i1)"
    and 2: "buildEach build xs i1 = Ok (cs, as2, i2)" and cl: "cl = (c # cs, as1 @ as2, i2)"
    by (auto simp: obind_Ok_iff)
  show ?case
    unfolding cl using Cons.prems(1) 1 Cons.IH [OF _ 2] by (intro numbered_list_Cons) auto
qed

text \<open>A group, from its list of conditions.\<close>

definition group_text :: "FilterOp \<Rightarrow> string list \<Rightarrow> string" where
  "group_text op cs =
     (if cs = [] then [] else (if op = LogicalNot then ''NOT '' else []) @
        ''('' @ Join cs (if op = LogicalOr then '' OR '' else '' AND '') @ '')'')"

lemma buildLogicalCondition_Ok:
  "buildLogicalCondition lf i = Ok cl \<longleftrightarrow>
   (\<exists>cs1 as1 i1 cs2 as2 i2. buildEach buildFilterCondition (lf_Filters lf) i = Ok (cs1, as1, i1) \<and>
      buildEach buildLogicalCondition (lf_Logicals lf) i1 = Ok (cs2, as2, i2) \<and>
      cl = (group_text (lf_Op lf) (cs1 @ cs2), if cs1 @ cs2 = [] then [] else as1 @ as2, i2))"
  by (subst buildLogicalCondition.simps) (auto simp: obind_Ok_iff group_text_def Let_def)

lemma numbered_group: "numbered_list i (cs, as, i') \<Longrightarrow> numbered i (group_text op cs, if cs = [] then [] else as, i')"
  by (auto simp: numbered_list_Nil)
    (auto simp: numbered_def numbered_list_def group_text_def dollars_append dollars_plain_append dollars_Join)

lemma numbered_logical:
  "lf_ok plain lf \<Longrightarrow> buildLogicalCondition lf i = Ok cl \<Longrightarrow> numbered i cl"
proof (induction lf i arbitrary: cl rule: buildLogicalCondition.induct)
  case (1 lf i)
  have fs: "\<forall>f \<in> set (lf_Filters lf). plain (flt_Column f) \<and> plain (flt_Modifier f)"
    and ls: "\<forall>l \<in> set (lf_Logicals lf). lf_ok plain l"
    using "1.prems"(1) by (auto simp: lf_ok_sel [of _ lf] list_all_iff filter_ok_def)
  from "1.prems"(2) obtain cs1 as1 i1 cs2 as2 i2
    where 1: "buildEach buildFilterCondition (lf_Filters lf) i = Ok (cs1, as1, i1)"
      and 2: "buildEach buildLogicalCondition (lf_Logicals lf) i1 = Ok (cs2, as2, i2)"
      and cl: "cl = (group_text (lf_Op lf) (cs1 @ cs2), if cs1 @ cs2 = [] then [] else as1 @ as2, i2)"
    unfolding buildLogicalCondition_Ok by blast
  have "numbered_list i (cs1, as1, i1)"
    using fs by (intro buildEach_numbered [OF _ 1]) (auto intro: numbered_filter)
  moreover have "numbered_list i1 (cs2, as2, i2)"
    using ls "1.IH" [OF 1 refl] by (intro buildEach_numbered [OF _ 2]) auto
  ultimately show ?case
    unfolding cl by (intro numbered_group numbered_list_append)
qed

definition fts_ok :: "Builder \<Rightarrow> FtsFilter \<Rightarrow> bool" where
  "fts_ok b f \<longleftrightarrow> plain (fts_Column f) \<and> (\<forall>t. bld_Table b = Some t \<longrightarrow> plain (tbl_FTSLanguage t))"

lemma numbered_fts: "fts_ok b f \<Longrightarrow> buildFtsCondition b f i = Ok cl \<Longrightarrow> numbered i cl"
  by (auto simp: buildFtsCondition_def with_table_def numbered_def Let_def fts_ok_def quoted_def
      dollars_append dollars_plain_append Placeholder_dollar split: option.splits if_splits)

section \<open>Meaning\<close>

text \<open>
  The conditions of SQL that the builder writes, their texts, and their truth values.  SQL has
  three truth values; \<open>None\<close> is \<^emph>\<open>unknown\<close>.  What a comparison, an \<^verbatim>\<open>IS\<close> test and a full-text
  match yield on the row at hand is the database's business and a parameter (\<open>row\<close>).
\<close>

record row =
  row_cmp :: "string \<Rightarrow> string \<Rightarrow> string \<Rightarrow> bool option"
  row_is :: "string \<Rightarrow> string \<Rightarrow> bool"
  row_fts :: "string \<Rightarrow> string \<Rightarrow> string \<Rightarrow> bool option"

definition k_not :: "bool option \<Rightarrow> bool option" where
  "k_not = map_option Not"

definition k_and :: "bool option list \<Rightarrow> bool option" where
  "k_and ts = (if Some False \<in> set ts then Some False else if None \<in> set ts then None else Some True)"

definition k_or :: "bool option list \<Rightarrow> bool option" where
  "k_or ts = k_not (k_and (map k_not ts))"

datatype cond =
    Compare string string nat
  | InList string "nat list"
  | Is string string
  | IsNot string string
  | Match string string nat
  | Negation cond
  | AllOf "cond list"
  | AnyOf "cond list"
  | NotAllOf "cond list"

fun sql :: "cond \<Rightarrow> string" where
  "sql (Compare col op n) = col @ '' '' @ op @ '' '' @ dollar n"
| "sql (InList col ns) = col @ '' IN ('' @ Join (map dollar ns) '', '' @ '')''"
| "sql (Is col lit) = col @ '' IS '' @ lit"
| "sql (IsNot col lit) = col @ '' IS NOT '' @ lit"
| "sql (Match col lang n) = col @ '' @@ plainto_tsquery('' @ quoted lang @ '', '' @ dollar n @ '')''"
| "sql (Negation d) = ''NOT ('' @ sql d @ '')''"
| "sql (AllOf ds) = ''('' @ Join (map sql ds) '' AND '' @ '')''"
| "sql (AnyOf ds) = ''('' @ Join (map sql ds) '' OR '' @ '')''"
| "sql (NotAllOf ds) = ''NOT ('' @ Join (map sql ds) '' AND '' @ '')''"

fun truth :: "row \<Rightarrow> (nat \<Rightarrow> string) \<Rightarrow> cond \<Rightarrow> bool option" where
  "truth r \<beta> (Compare col op n) = row_cmp r col op (\<beta> n)"
| "truth r \<beta> (InList col ns) = k_or (map (\<lambda>n. row_cmp r col ''='' (\<beta> n)) ns)"
| "truth r \<beta> (Is col lit) = Some (row_is r col lit)"
| "truth r \<beta> (IsNot col lit) = Some (\<not> row_is r col lit)"
| "truth r \<beta> (Match col lang n) = row_fts r col lang (\<beta> n)"
| "truth r \<beta> (Negation d) = k_not (truth r \<beta> d)"
| "truth r \<beta> (AllOf ds) = k_and (map (truth r \<beta>) ds)"
| "truth r \<beta> (AnyOf ds) = k_or (map (truth r \<beta>) ds)"
| "truth r \<beta> (NotAllOf ds) = k_not (k_and (map (truth r \<beta>) ds))"

text \<open>The operators that may stand in a text, and the conditions over columns \<open>cols\<close>.\<close>

definition sql_operator :: "string \<Rightarrow> bool" where
  "sql_operator s \<longleftrightarrow> (\<exists>op m. isValidOperator op \<and> m \<in> {'''', '' ANY'', '' ALL''} \<and> s = operator_SQL op @ m)"

fun cond_ok :: "(string \<Rightarrow> bool) \<Rightarrow> cond \<Rightarrow> bool" where
  "cond_ok cols (Compare col op n) \<longleftrightarrow> cols col \<and> sql_operator op"
| "cond_ok cols (InList col ns) \<longleftrightarrow> cols col \<and> ns \<noteq> []"
| "cond_ok cols (Is col lit) \<longleftrightarrow> cols col \<and> lit \<in> {''NULL'', ''TRUE'', ''FALSE''}"
| "cond_ok cols (IsNot col lit) \<longleftrightarrow> cols col \<and> lit \<in> {''NULL'', ''TRUE'', ''FALSE''}"
| "cond_ok cols (Match col lang n) \<longleftrightarrow> cols col"
| "cond_ok cols (Negation d) \<longleftrightarrow> cond_ok cols d"
| "cond_ok cols (AllOf ds) \<longleftrightarrow> ds \<noteq> [] \<and> list_all (cond_ok cols) ds"
| "cond_ok cols (AnyOf ds) \<longleftrightarrow> ds \<noteq> [] \<and> list_all (cond_ok cols) ds"
| "cond_ok cols (NotAllOf ds) \<longleftrightarrow> ds \<noteq> [] \<and> list_all (cond_ok cols) ds"

text \<open>What the parameters mean, with no SQL text and no placeholder.\<close>

definition negated_if :: "bool \<Rightarrow> bool option \<Rightarrow> bool option" where
  "negated_if n t = (if n then k_not t else t)"

definition filter_means :: "row \<Rightarrow> Filter \<Rightarrow> bool option" where
  "filter_means r f = negated_if (flt_Negate f)
     (if flt_Operator f = ''is'' then Some (row_is r (flt_Column f) (ToUpper (ToLower (flt_Value f))))
      else if flt_Operator f = ''in'' then
        k_or (map (row_cmp r (flt_Column f) ''='') (parseInValues (flt_Value f)))
      else row_cmp r (flt_Column f)
             (operator_SQL (flt_Operator f) @
              (if flt_Modifier f = '''' then '''' else '' '' @ ToUpper (flt_Modifier f))) (flt_Value f))"

fun logical_means :: "row \<Rightarrow> LogicalFilter \<Rightarrow> bool option" where
  "logical_means r (LogicalFilter op fs ls) =
     (let ts = map (filter_means r) fs @ map (logical_means r) ls
      in if op = LogicalOr then k_or ts else negated_if (op = LogicalNot) (k_and ts))"

definition fts_means :: "row \<Rightarrow> Table \<Rightarrow> FtsFilter \<Rightarrow> bool option" where
  "fts_means r t f =
     negated_if (fts_Negate f) (row_fts r (fts_Column f) (ftsLanguage t) (fts_SearchTerm f))"

definition where_means :: "row \<Rightarrow> Table \<Rightarrow> Params \<Rightarrow> bool option" where
  "where_means r t p =
     k_and (map (filter_means r) (par_Filters p) @ map (logical_means r) (par_Logicals p) @
            map (fts_means r t) (par_FtsFilters p))"

text \<open>No empty IN list and no empty group.\<close>

definition filter_solid :: "(string \<Rightarrow> bool) \<Rightarrow> Filter \<Rightarrow> bool" where
  "filter_solid cols f \<longleftrightarrow> filter_ok cols f \<and> (flt_Operator f = ''in'' \<longrightarrow> parseInValues (flt_Value f) \<noteq> [])"

fun lf_solid :: "(string \<Rightarrow> bool) \<Rightarrow> LogicalFilter \<Rightarrow> bool" where
  "lf_solid cols (LogicalFilter op fs ls) \<longleftrightarrow>
     (fs \<noteq> [] \<or> ls \<noteq> []) \<and> list_all (filter_solid cols) fs \<and> list_all (lf_solid cols) ls"

definition params_solid :: "(string \<Rightarrow> bool) \<Rightarrow> Params \<Rightarrow> bool" where
  "params_solid cols p \<longleftrightarrow> list_all (filter_solid cols) (par_Filters p) \<and>
     list_all (lf_solid cols) (par_Logicals p) \<and> list_all (\<lambda>f. cols (fts_Column f)) (par_FtsFilters p)"

definition binds :: "(nat \<Rightarrow> string) \<Rightarrow> nat \<Rightarrow> string list \<Rightarrow> bool" where
  "binds \<beta> i as \<longleftrightarrow> map \<beta> [i ..< i + length as] = as"

lemma binds_Nil [simp]: "binds \<beta> i []"
  by (simp add: binds_def)

lemma binds_one [simp]: "binds \<beta> i [a] \<longleftrightarrow> \<beta> i = a"
  by (simp add: binds_def)

lemma binds_append: "binds \<beta> i (as @ bs) \<longleftrightarrow> binds \<beta> i as \<and> binds \<beta> (i + length as) bs"
proof -
  have "[i ..< i + length (as @ bs)] = [i ..< i + length as] @ [i + length as ..< i + length as + length bs]"
    by (simp only: upt_chain length_append add.assoc [symmetric])
  then have "map \<beta> [i ..< i + length (as @ bs)] =
      map \<beta> [i ..< i + length as] @ map \<beta> [i + length as ..< i + length as + length bs]" by simp
  then show ?thesis unfolding binds_def by (metis append_eq_append_conv length_map length_upt diff_add_inverse)
qed

text \<open>A clause denotes \<open>m\<close>: it is the text of a condition whose truth, under its arguments, is \<open>m\<close>.\<close>

definition denotes :: "(string \<Rightarrow> bool) \<Rightarrow> (row \<Rightarrow> bool option) \<Rightarrow> nat \<Rightarrow> clause \<Rightarrow> bool" where
  "denotes cols m i cl \<longleftrightarrow> (case cl of (c, as, i') \<Rightarrow> i' = i + length as \<and>
     (\<exists>d. c = sql d \<and> cond_ok cols d \<and> (\<forall>r \<beta>. binds \<beta> i as \<longrightarrow> truth r \<beta> d = m r)))"

lemma k_not_simps [simp]: "k_not (Some b) = Some (\<not> b)" "k_not None = None" "k_not (k_not t) = t"
  by (simp_all add: k_not_def option.map_comp comp_def option.map_ident)

lemma buildEach_denotes:
  assumes "\<forall>x \<in> set xs. \<forall>k cl. build x k = Ok cl \<longrightarrow> denotes cols (\<lambda>r. m r x) k cl"
    and "buildEach build xs i = Ok (cs, as, i')"
  shows "i' = i + length as \<and> (\<exists>ds. cs = map sql ds \<and> list_all (cond_ok cols) ds \<and>
    (\<forall>r \<beta>. binds \<beta> i as \<longrightarrow> map (truth r \<beta>) ds = map (m r) xs))"
  using assms
proof (induction xs arbitrary: i cs as)
  case Nil
  then show ?case by simp
next
  case (Cons x xs)
  from Cons.prems(2) obtain c as1 i1 cs2 as2 where 1: "build x i = Ok (c, as1, i1)"
    and 2: "buildEach build xs i1 = Ok (cs2, as2, i')" and cs: "cs = c # cs2" "as = as1 @ as2"
    by (auto simp: obind_Ok_iff)
  have "denotes cols (\<lambda>r. m r x) i (c, as1, i1)" using Cons.prems(1) 1 by simp
  then obtain d where d: "i1 = i + length as1" "c = sql d" "cond_ok cols d"
      "\<And>r \<beta>. binds \<beta> i as1 \<Longrightarrow> truth r \<beta> d = m r x"
    by (auto simp: denotes_def)
  have "\<forall>x \<in> set xs. \<forall>k cl. build x k = Ok cl \<longrightarrow> denotes cols (\<lambda>r. m r x) k cl"
    using Cons.prems(1) by simp
  from Cons.IH [OF this 2] obtain ds where ds: "i' = i1 + length as2" "cs2 = map sql ds"
      "list_all (cond_ok cols) ds" "\<And>r \<beta>. binds \<beta> i1 as2 \<Longrightarrow> map (truth r \<beta>) ds = map (m r) xs"
    by auto
  have "cs = map sql (d # ds)" using cs d ds by simp
  moreover have "list_all (cond_ok cols) (d # ds)" using d ds by simp
  moreover have "\<forall>r \<beta>. binds \<beta> i as \<longrightarrow> map (truth r \<beta>) (d # ds) = map (m r) (x # xs)"
    using d ds by (simp add: cs binds_append)
  moreover have "i' = i + length as" using d ds cs by simp
  ultimately show ?case by blast
qed

lemma buildEach_length: "buildEach build xs i = Ok (cs, as, i') \<Longrightarrow> length cs = length xs"
  by (induction xs arbitrary: i cs as) (auto simp: obind_Ok_iff)

lemma ToUpper_literals [simp]:
  "ToUpper ''null'' = ''NULL''" "ToUpper ''true'' = ''TRUE''" "ToUpper ''false'' = ''FALSE''"
  "ToUpper ''any'' = ''ANY''" "ToUpper ''all'' = ''ALL''"
  by code_simp+

lemma denotesI:
  "i' = i + length as \<Longrightarrow> c = sql d \<Longrightarrow> cond_ok cols d \<Longrightarrow>
   (\<And>r \<beta>. binds \<beta> i as \<Longrightarrow> truth r \<beta> d = m r) \<Longrightarrow> denotes cols m i (c, as, i')"
  by (auto simp: denotes_def)

lemma denotes_negation:
  "denotes cols m i (c, as, i') \<Longrightarrow>
   denotes cols (\<lambda>r. negated_if n (m r)) i (if n then ''NOT ('' @ c @ '')'' else c, as, i')"
  by (auto simp: denotes_def negated_if_def) (rule_tac x = "Negation d" in exI, simp)

lemma filter_operator:
  "filter_ok cols f \<Longrightarrow> sql_operator (operator_SQL (flt_Operator f) @
     (if flt_Modifier f = [] then [] else '' '' @ ToUpper (flt_Modifier f)))"
  by (auto simp: filter_ok_def sql_operator_def)

lemma denotes_filter:
  assumes "filter_solid cols f" "buildFilterCondition f i = Ok cl"
  shows "denotes cols (\<lambda>r. filter_means r f) i cl"
proof -
  have ok: "filter_ok cols f" "cols (flt_Column f)"
    using assms(1) by (auto simp: filter_solid_def filter_ok_def)
  consider (literal) "flt_Operator f = ''is''" | (inlist) "flt_Operator f = ''in''"
    | (cmp) "flt_Operator f \<noteq> ''is''" "flt_Operator f \<noteq> ''in''" by blast
  then show ?thesis
  proof cases
    case literal
    define lit where "lit = ToUpper (ToLower (flt_Value f))"
    have lit: "lit \<in> {''NULL'', ''TRUE'', ''FALSE''}"
      and cl: "cl = (sql (if flt_Negate f then IsNot (flt_Column f) lit else Is (flt_Column f) lit), [], i)"
      using assms(2) literal by (auto simp: buildFilterCondition_def Let_def lit_def split: if_splits)
    show ?thesis
      unfolding cl using lit ok literal
      by (intro denotesI [OF _ refl]) (auto simp: filter_means_def negated_if_def lit_def)
  next
    case inlist
    let ?vs = "parseInValues (flt_Value f)" and ?col = "flt_Column f"
    let ?d = "InList ?col [i ..< i + length ?vs]"
    have "denotes cols (\<lambda>r. k_or (map (row_cmp r ?col ''='') ?vs)) i (sql ?d, ?vs, i + length ?vs)"
    proof (rule denotesI [OF _ refl])
      show "cond_ok cols ?d" using assms(1) ok inlist by (simp add: filter_solid_def)
      fix r :: row and \<beta>
      assume "binds \<beta> i ?vs"
      then have "map (row_cmp r ?col ''='') (map \<beta> [i ..< i + length ?vs]) = map (row_cmp r ?col ''='') ?vs"
        by (simp only: binds_def)
      then show "truth r \<beta> ?d = k_or (map (row_cmp r ?col ''='') ?vs)" by (simp add: comp_def)
    qed simp
    from denotes_negation [OF this, of "flt_Negate f"] show ?thesis
      using assms(2) inlist by (auto simp: buildFilterCondition_def Let_def Placeholder_dollar filter_means_def)
  next
    case cmp
    let ?op = "operator_SQL (flt_Operator f) @
      (if flt_Modifier f = [] then [] else '' '' @ ToUpper (flt_Modifier f))"
    have "denotes cols (\<lambda>r. row_cmp r (flt_Column f) ?op (flt_Value f)) i
        (sql (Compare (flt_Column f) ?op i), [flt_Value f], i + 1)"
      using ok filter_operator [of cols f] by (intro denotesI [OF _ refl]) auto
    from denotes_negation [OF this, of "flt_Negate f"] show ?thesis
      using assms(2) cmp
      by (auto simp: buildFilterCondition_def Let_def Placeholder_dollar filter_means_def split: if_splits)
  qed
qed

lemma denotes_group:
  assumes "i' = i + length as" "ds \<noteq> []" "list_all (cond_ok cols) ds"
    and "\<And>r \<beta>. binds \<beta> i as \<Longrightarrow> map (truth r \<beta>) ds = ts r"
  shows "denotes cols (\<lambda>r. if op = LogicalOr then k_or (ts r) else negated_if (op = LogicalNot) (k_and (ts r)))
    i (group_text op (map sql ds), as, i')"
proof -
  let ?d = "(if op = LogicalOr then AnyOf ds else if op = LogicalNot then NotAllOf ds else AllOf ds)"
  have "group_text op (map sql ds) = sql ?d" using assms(2) by (simp add: group_text_def)
  with assms show ?thesis by (intro denotesI [of _ _ _ _ ?d]) (auto simp: negated_if_def)
qed

lemma logical_means_sel:
  "logical_means r lf =
     (let ts = map (filter_means r) (lf_Filters lf) @ map (logical_means r) (lf_Logicals lf)
      in if lf_Op lf = LogicalOr then k_or ts else negated_if (lf_Op lf = LogicalNot) (k_and ts))"
  by (cases lf) (simp add: Let_def)

lemma lf_solid_sel:
  "lf_solid cols lf \<longleftrightarrow> (lf_Filters lf \<noteq> [] \<or> lf_Logicals lf \<noteq> []) \<and>
     list_all (filter_solid cols) (lf_Filters lf) \<and> list_all (lf_solid cols) (lf_Logicals lf)"
  by (cases lf) simp

lemma denotes_logical:
  "lf_solid cols lf \<Longrightarrow> buildLogicalCondition lf i = Ok cl \<Longrightarrow> denotes cols (\<lambda>r. logical_means r lf) i cl"
proof (induction lf i arbitrary: cl rule: buildLogicalCondition.induct)
  case (1 lf i)
  have fs: "\<forall>f \<in> set (lf_Filters lf). filter_solid cols f"
    and ls: "\<forall>l \<in> set (lf_Logicals lf). lf_solid cols l" and ne: "lf_Filters lf \<noteq> [] \<or> lf_Logicals lf \<noteq> []"
    using "1.prems"(1) by (auto simp: lf_solid_sel [of _ lf] list_all_iff)
  from "1.prems"(2) obtain cs1 as1 i1 cs2 as2 i2
    where 1: "buildEach buildFilterCondition (lf_Filters lf) i = Ok (cs1, as1, i1)"
      and 2: "buildEach buildLogicalCondition (lf_Logicals lf) i1 = Ok (cs2, as2, i2)"
      and cl: "cl = (group_text (lf_Op lf) (cs1 @ cs2), if cs1 @ cs2 = [] then [] else as1 @ as2, i2)"
    unfolding buildLogicalCondition_Ok by blast
  have "\<forall>f \<in> set (lf_Filters lf). \<forall>k cl. buildFilterCondition f k = Ok cl \<longrightarrow>
      denotes cols (\<lambda>r. filter_means r f) k cl"
    using fs denotes_filter by blast
  from buildEach_denotes [OF this 1] obtain ds1 where ds1: "i1 = i + length as1" "cs1 = map sql ds1"
      "list_all (cond_ok cols) ds1"
      "\<And>r \<beta>. binds \<beta> i as1 \<Longrightarrow> map (truth r \<beta>) ds1 = map (filter_means r) (lf_Filters lf)"
    by auto
  have "\<forall>l \<in> set (lf_Logicals lf). \<forall>k cl. buildLogicalCondition l k = Ok cl \<longrightarrow>
      denotes cols (\<lambda>r. logical_means r l) k cl"
    using ls "1.IH" [OF 1 refl refl] by blast
  from buildEach_denotes [OF this 2] obtain ds2 where ds2: "i2 = i1 + length as2" "cs2 = map sql ds2"
      "list_all (cond_ok cols) ds2"
      "\<And>r \<beta>. binds \<beta> i1 as2 \<Longrightarrow> map (truth r \<beta>) ds2 = map (logical_means r) (lf_Logicals lf)"
    by auto
  let ?ts = "\<lambda>r. map (filter_means r) (lf_Filters lf) @ map (logical_means r) (lf_Logicals lf)"
  have all: "map (truth r \<beta>) (ds1 @ ds2) = ?ts r" if "binds \<beta> i (as1 @ as2)" for r \<beta>
    using that ds1 ds2 by (simp add: binds_append)
  have len: "length (ds1 @ ds2) = length (lf_Filters lf) + length (lf_Logicals lf)"
    using buildEach_length [OF 1] buildEach_length [OF 2] ds1(2) ds2(2) by simp
  then have nonempty: "ds1 @ ds2 \<noteq> []" using ne by auto
  have "denotes cols (\<lambda>r. logical_means r lf) i (group_text (lf_Op lf) (map sql (ds1 @ ds2)), as1 @ as2, i2)"
    unfolding logical_means_sel [of _ lf] Let_def
    using ds1 ds2 nonempty by (intro denotes_group all) auto
  moreover have "cl = (group_text (lf_Op lf) (map sql (ds1 @ ds2)), as1 @ as2, i2)"
  proof -
    have "cs1 @ cs2 = map sql (ds1 @ ds2)" using ds1(2) ds2(2) by simp
    then show ?thesis unfolding cl using nonempty by (metis map_is_Nil_conv)
  qed
  ultimately show ?case by simp
qed

lemma denotes_fts:
  assumes "cols (fts_Column f)" "bld_Table b = Some t" "buildFtsCondition b f i = Ok cl"
  shows "denotes cols (\<lambda>r. fts_means r t f) i cl"
proof -
  have "denotes cols (\<lambda>r. row_fts r (fts_Column f) (ftsLanguage t) (fts_SearchTerm f)) i
      (sql (Match (fts_Column f) (ftsLanguage t) i), [fts_SearchTerm f], i + 1)"
    using assms(1) by (intro denotesI [OF _ refl]) auto
  from denotes_negation [OF this, of "fts_Negate f"] show ?thesis
    using assms(2,3)
    by (auto simp: buildFtsCondition_def with_table_def Let_def ftsLanguage_def Placeholder_dollar
        fts_means_def split: if_splits)
qed

section \<open>Values stay out of the text\<close>

text \<open>
  The shape of a request: its parameters with every value erased that goes to the database as an
  argument.  An \<^verbatim>\<open>is\<close> filter keeps its literal and an \<^verbatim>\<open>in\<close> filter the number of its values.
\<close>

definition filter_shape :: "Filter \<Rightarrow> Filter" where
  "filter_shape f = f\<lparr>flt_Value :=
     (if flt_Operator f = ''is'' then ToLower (flt_Value f)
      else if flt_Operator f = ''in'' then nat_text (length (parseInValues (flt_Value f))) else [])\<rparr>"

fun lf_shape :: "LogicalFilter \<Rightarrow> LogicalFilter" where
  "lf_shape (LogicalFilter op fs ls) = LogicalFilter op (map filter_shape fs) (map lf_shape ls)"

definition fts_shape :: "FtsFilter \<Rightarrow> FtsFilter" where
  "fts_shape f = f\<lparr>fts_SearchTerm := []\<rparr>"

definition params_shape :: "Params \<Rightarrow> Params" where
  "params_shape p = p\<lparr>par_Filters := map filter_shape (par_Filters p),
     par_Logicals := map lf_shape (par_Logicals p), par_FtsFilters := map fts_shape (par_FtsFilters p)\<rparr>"

definition same_text :: "('c \<times> string list \<times> nat) outcome \<Rightarrow> ('c \<times> string list \<times> nat) outcome \<Rightarrow> bool" where
  "same_text m m' \<longleftrightarrow> (\<forall>c as j. m = Ok (c, as, j) \<longrightarrow> (\<exists>as'. m' = Ok (c, as', j) \<and> length as' = length as))"

lemma same_textD: "same_text m m' \<Longrightarrow> m = Ok (c, as, j) \<Longrightarrow> \<exists>as'. m' = Ok (c, as', j) \<and> length as' = length as"
  by (simp add: same_text_def)

lemma same_text_filter:
  assumes "filter_shape f = filter_shape g"
  shows "same_text (buildFilterCondition f i) (buildFilterCondition g i)"
proof -
  have eq: "flt_Column g = flt_Column f" "flt_Operator g = flt_Operator f" "flt_Negate g = flt_Negate f"
      "flt_Modifier g = flt_Modifier f"
    using arg_cong [OF assms, of flt_Column] arg_cong [OF assms, of flt_Operator]
      arg_cong [OF assms, of flt_Negate] arg_cong [OF assms, of flt_Modifier]
    by (simp_all add: filter_shape_def)
  have "flt_Operator f = ''is'' \<Longrightarrow> ToLower (flt_Value g) = ToLower (flt_Value f)"
    and "flt_Operator f = ''in'' \<Longrightarrow> length (parseInValues (flt_Value g)) = length (parseInValues (flt_Value f))"
    using arg_cong [OF assms, of flt_Value] eq by (auto simp: filter_shape_def nat_text_inj)
  then show ?thesis
    by (auto simp: same_text_def buildFilterCondition_def Let_def eq)
qed

lemma same_text_each:
  "map shape xs = map shape ys \<Longrightarrow>
   \<forall>x \<in> set xs. \<forall>y k. shape x = shape y \<longrightarrow> same_text (build x k) (build y k) \<Longrightarrow>
   same_text (buildEach build xs i) (buildEach build ys i)"
proof (induction xs arbitrary: ys i)
  case Nil
  then show ?case by (simp add: same_text_def)
next
  case (Cons x xs)
  then obtain y ys' where ys: "ys = y # ys'" and xy: "shape x = shape y" "map shape xs = map shape ys'"
    by (cases ys) auto
  show ?case
    unfolding same_text_def
  proof (intro allI impI)
    fix cs as j
    assume "buildEach build (x # xs) i = Ok (cs, as, j)"
    then obtain c as1 i1 cs2 as2 where 1: "build x i = Ok (c, as1, i1)"
      and 2: "buildEach build xs i1 = Ok (cs2, as2, j)" and cs: "cs = c # cs2" "as = as1 @ as2"
      by (auto simp: obind_Ok_iff)
    have "same_text (build x i) (build y i)" using Cons.prems(2) xy(1) by simp
    from same_textD [OF this 1] obtain as1' where first: "build y i = Ok (c, as1', i1)" "length as1' = length as1"
      by blast
    have "same_text (buildEach build xs i1) (buildEach build ys' i1)"
      using Cons.IH [OF xy(2)] Cons.prems(2) by simp
    from same_textD [OF this 2] obtain as2'
      where "buildEach build ys' i1 = Ok (cs2, as2', j)" "length as2' = length as2"
      by blast
    with first show "\<exists>as'. buildEach build ys i = Ok (cs, as', j) \<and> length as' = length as"
      by (simp add: ys cs)
  qed
qed

lemma lf_shape_sel:
  "lf_shape lf = LogicalFilter (lf_Op lf) (map filter_shape (lf_Filters lf)) (map lf_shape (lf_Logicals lf))"
  by (cases lf) simp

lemma same_text_logical:
  "lf_shape lf = lf_shape lg \<Longrightarrow> same_text (buildLogicalCondition lf i) (buildLogicalCondition lg i)"
proof (induction lf i arbitrary: lg rule: buildLogicalCondition.induct)
  case (1 lf i)
  have eq: "lf_Op lg = lf_Op lf" "map filter_shape (lf_Filters lf) = map filter_shape (lf_Filters lg)"
    "map lf_shape (lf_Logicals lf) = map lf_shape (lf_Logicals lg)"
    using "1.prems" by (simp_all add: lf_shape_sel [of lf] lf_shape_sel [of lg])
  show ?case
    unfolding same_text_def
  proof (intro allI impI)
    fix c as j
    assume "buildLogicalCondition lf i = Ok (c, as, j)"
    then obtain cs1 as1 i1 cs2 as2
      where 1: "buildEach buildFilterCondition (lf_Filters lf) i = Ok (cs1, as1, i1)"
        and 2: "buildEach buildLogicalCondition (lf_Logicals lf) i1 = Ok (cs2, as2, j)"
        and c: "c = group_text (lf_Op lf) (cs1 @ cs2)" "as = (if cs1 @ cs2 = [] then [] else as1 @ as2)"
      unfolding buildLogicalCondition_Ok by blast
    from same_text_each [OF eq(2)] same_text_filter 1 obtain as1'
      where first: "buildEach buildFilterCondition (lf_Filters lg) i = Ok (cs1, as1', i1)" "length as1' = length as1"
      by (blast dest: same_textD)
    from same_text_each [OF eq(3)] "1.IH" [OF 1 refl refl] 2 obtain as2'
      where second: "buildEach buildLogicalCondition (lf_Logicals lg) i1 = Ok (cs2, as2', j)" "length as2' = length as2"
      by (blast dest: same_textD)
    have "buildLogicalCondition lg i = Ok (c, if cs1 @ cs2 = [] then [] else as1' @ as2', j)"
      unfolding buildLogicalCondition_Ok [of lg] c eq using first(1) second(1) by blast
    with first second show "\<exists>as'. buildLogicalCondition lg i = Ok (c, as', j) \<and> length as' = length as"
      by (simp add: c)
  qed
qed

lemma same_text_fts:
  assumes "fts_shape f = fts_shape g"
  shows "same_text (buildFtsCondition b f i) (buildFtsCondition b g i)"
proof -
  have "fts_Column g = fts_Column f" "fts_Negate g = fts_Negate f"
    using arg_cong [OF assms, of fts_Column] arg_cong [OF assms, of fts_Negate]
    by (simp_all add: fts_shape_def)
  then show ?thesis
    by (auto simp: same_text_def buildFtsCondition_def with_table_def Let_def split: option.splits)
qed

section \<open>The contract of a clause builder\<close>

text \<open>
  What \<^verbatim>\<open>buildWhere\<close> needs of the builder of one kind of condition: it numbers its placeholders
  from the counter, its text says what the condition means, and its text depends on the shape
  alone.  The three kinds of conditions satisfy it; the loops inherit it.
\<close>

locale clause_builder =
  fixes build :: "'a \<Rightarrow> nat \<Rightarrow> clause outcome"
    and named :: "'a \<Rightarrow> bool"
    and solid :: "(string \<Rightarrow> bool) \<Rightarrow> 'a \<Rightarrow> bool"
    and means :: "row \<Rightarrow> 'a \<Rightarrow> bool option"
    and shape :: "'a \<Rightarrow> 'b"
  assumes numbering: "named x \<Longrightarrow> build x i = Ok cl \<Longrightarrow> numbered i cl"
    and meaning: "solid cols x \<Longrightarrow> build x i = Ok cl \<Longrightarrow> denotes cols (\<lambda>r. means r x) i cl"
    and oblivious: "shape x = shape y \<Longrightarrow> same_text (build x i) (build y i)"
begin

lemma each_numbered:
  "list_all named xs \<Longrightarrow> buildEach build xs i = Ok cl \<Longrightarrow> numbered_list i cl"
  by (rule buildEach_numbered) (auto simp: list_all_iff intro: numbering)

lemma each_means:
  assumes "list_all (solid cols) xs" "buildEach build xs i = Ok (cs, as, i')"
  obtains ds where "i' = i + length as" "cs = map sql ds" "list_all (cond_ok cols) ds"
    "\<And>r \<beta>. binds \<beta> i as \<Longrightarrow> map (truth r \<beta>) ds = map (means r) xs"
proof -
  have "\<forall>x \<in> set xs. \<forall>k cl. build x k = Ok cl \<longrightarrow> denotes cols (\<lambda>r. means r x) k cl"
    using assms(1) by (auto simp: list_all_iff intro: meaning)
  from buildEach_denotes [OF this assms(2)] that show ?thesis by blast
qed

lemma each_oblivious:
  "map shape xs = map shape ys \<Longrightarrow> same_text (buildEach build xs i) (buildEach build ys i)"
  by (rule same_text_each) (auto intro: oblivious)

end

interpretation filters: clause_builder buildFilterCondition "filter_ok plain" filter_solid filter_means filter_shape
  by unfold_locales
    (auto simp: filter_ok_def intro: numbered_filter denotes_filter same_text_filter)

interpretation logicals: clause_builder buildLogicalCondition "lf_ok plain" lf_solid logical_means lf_shape
  by unfold_locales (auto intro: numbered_logical denotes_logical same_text_logical)

definition bld_fts_means :: "Builder \<Rightarrow> row \<Rightarrow> FtsFilter \<Rightarrow> bool option" where
  "bld_fts_means b r f = (case bld_Table b of None \<Rightarrow> None | Some t \<Rightarrow> fts_means r t f)"

interpretation ftss: clause_builder "buildFtsCondition b" "fts_ok b" "\<lambda>cols f. cols (fts_Column f)"
    "bld_fts_means b" fts_shape for b
proof unfold_locales
  fix cols and f :: FtsFilter and i cl
  assume cols: "cols (fts_Column f)" and cl: "buildFtsCondition b f i = Ok cl"
  then obtain t where "bld_Table b = Some t"
    by (auto simp: buildFtsCondition_def with_table_def split: option.splits)
  with cols cl denotes_fts [of cols f b _ i cl] show "denotes cols (\<lambda>r. bld_fts_means b r f) i cl"
    by (auto simp: bld_fts_means_def)
qed (auto intro: numbered_fts same_text_fts)

section \<open>The WHERE clause\<close>

lemma buildWhere_eq:
  "buildEach buildFilterCondition (par_Filters (bld_Params b)) i = Ok (cs1, as1, i1) \<Longrightarrow>
   buildEach buildLogicalCondition (par_Logicals (bld_Params b)) i1 = Ok (cs2, as2, i2) \<Longrightarrow>
   buildEach (buildFtsCondition b) (par_FtsFilters (bld_Params b)) i2 = Ok (cs3, as3, i3) \<Longrightarrow>
   buildWhere b i = Ok (Join (cs1 @ cs2 @ cs3) '' AND '',
     if cs1 @ cs2 @ cs3 = [] then [] else as1 @ as2 @ as3, i3)"
  by (simp add: buildWhere_def Let_def)

lemma buildWhere_OkE:
  assumes "buildWhere b i = Ok cl"
  obtains cs1 as1 i1 cs2 as2 i2 cs3 as3 i3
  where "buildEach buildFilterCondition (par_Filters (bld_Params b)) i = Ok (cs1, as1, i1)"
    and "buildEach buildLogicalCondition (par_Logicals (bld_Params b)) i1 = Ok (cs2, as2, i2)"
    and "buildEach (buildFtsCondition b) (par_FtsFilters (bld_Params b)) i2 = Ok (cs3, as3, i3)"
    and "cl = (Join (cs1 @ cs2 @ cs3) '' AND '', if cs1 @ cs2 @ cs3 = [] then [] else as1 @ as2 @ as3, i3)"
proof -
  from assms obtain cs1 as1 i1 cs2 as2 i2 cs3 as3 i3
    where e: "buildEach buildFilterCondition (par_Filters (bld_Params b)) i = Ok (cs1, as1, i1)"
      "buildEach buildLogicalCondition (par_Logicals (bld_Params b)) i1 = Ok (cs2, as2, i2)"
      "buildEach (buildFtsCondition b) (par_FtsFilters (bld_Params b)) i2 = Ok (cs3, as3, i3)"
    by (auto simp: buildWhere_def Let_def obind_Ok_iff)
  with buildWhere_eq [OF e] assms that show ?thesis by simp
qed

definition params_named :: "Builder \<Rightarrow> bool" where
  "params_named b \<longleftrightarrow> params_ok plain (bld_Params b) \<and>
     (\<forall>t. bld_Table b = Some t \<longrightarrow> plain (tbl_FTSLanguage t))"

lemma numbered_list_Join:
  "numbered_list i (cs, as, i') \<Longrightarrow>
   numbered i (Join cs '' AND '', if cs = [] then [] else as, i')"
  by (auto simp: numbered_list_Nil) (auto simp: numbered_def numbered_list_def dollars_Join)

lemma buildWhere_numbered:
  assumes "params_named b" "buildWhere b i = Ok cl"
  shows "numbered i cl"
proof -
  from assms(2) obtain cs1 as1 i1 cs2 as2 i2 cs3 as3 i3
    where 1: "buildEach buildFilterCondition (par_Filters (bld_Params b)) i = Ok (cs1, as1, i1)"
      and 2: "buildEach buildLogicalCondition (par_Logicals (bld_Params b)) i1 = Ok (cs2, as2, i2)"
      and 3: "buildEach (buildFtsCondition b) (par_FtsFilters (bld_Params b)) i2 = Ok (cs3, as3, i3)"
      and cl: "cl = (Join (cs1 @ cs2 @ cs3) '' AND '',
          if cs1 @ cs2 @ cs3 = [] then [] else as1 @ as2 @ as3, i3)"
    by (rule buildWhere_OkE)
  have ok: "list_all (filter_ok plain) (par_Filters (bld_Params b))"
    "list_all (lf_ok plain) (par_Logicals (bld_Params b))" "list_all (fts_ok b) (par_FtsFilters (bld_Params b))"
    using assms(1) by (auto simp: params_named_def params_ok_def fts_ok_def list_all_iff)
  show ?thesis
    unfolding cl
    using filters.each_numbered [OF ok(1) 1] logicals.each_numbered [OF ok(2) 2]
      ftss.each_numbered [OF ok(3) 3]
    by (blast intro: numbered_list_Join numbered_list_append)
qed

lemma addWhere_numbered:
  assumes "params_named b" "addWhere b q i = Ok (q', as)"
  shows "dollars q' = dollars q @ [i ..< i + length as] \<and> (\<exists>s. q' = q @ s \<and> seamless s)"
proof -
  from assms(2) obtain w as1 i1 where w: "buildWhere b i = Ok (w, as1, i1)"
    and q: "(q', as) = (if w \<noteq> [] then (q @ '' WHERE '' @ w, as1) else (q, []))"
    by (auto simp: addWhere_def obind_Ok_iff)
  have "numbered i (w, as1, i1)" by (rule buildWhere_numbered [OF assms(1) w])
  with q show ?thesis
    by (auto simp: numbered_def dollars_append dollars_plain_append split: if_splits)
qed

end
