(* ===== verification/Statements.thy ===== *)
theory Statements
  imports Builder
begin

text \<open>
  The statements of \<^verbatim>\<open>internal/query/builder.go\<close> as a whole: what \<^verbatim>\<open>BuildSelect\<close>, \<^verbatim>\<open>BuildInsert\<close>,
  \<^verbatim>\<open>BuildUpsert\<close> and \<^verbatim>\<open>BuildUpdate\<close> promise of their placeholders, that the WHERE clause means what
  the request asks for, and that values stay out of the text.
\<close>

lemma seamless_Itoa: "seamless ('' LIMIT '' @ s)" "seamless ('' OFFSET '' @ s)" "seamless ('' ORDER BY '' @ s)"
  by simp_all

section \<open>Inserts and updates\<close>

lemma dollars_rowText: "dollars (rowText i n) = [i ..< i + n]"
  by (simp add: rowText_def dollars_append dollars_plain_append plain_Placeholders)

lemma dollars_rowTexts: "dollars (Join (rowTexts i n rows) '', '') = [i ..< i + rows * n]"
proof (induction rows arbitrary: i)
  case Nil: 0
  show ?case by simp
next
  case (Suc rows)
  then show ?case
    using upt_chain [of i n "rows * n"]
    by (auto simp: Join_Cons dollars_append dollars_plain_append dollars_rowText add.assoc)
      (cases rows; simp add: dollars_rowText)
qed

lemma length_rowTexts [simp]: "length (rowTexts i n rows) = rows"
  by (induction rows arbitrary: i) auto

definition names_plain :: "Builder \<Rightarrow> bool" where
  "names_plain b \<longleftrightarrow> plain (bld_SchemaName b) \<and>
     (\<forall>t. bld_Table b = Some t \<longrightarrow> plain (tbl_Name t) \<and> plain (tbl_FTSLanguage t))"

lemma plain_qualifiedTable: "names_plain b \<Longrightarrow> bld_Table b = Some t \<Longrightarrow> plain (qualifiedTable b t)"
  by (auto simp: names_plain_def qualifiedTable_def)

lemma dollars_insertText:
  assumes "names_plain b" "bld_Table b = Some t" "\<forall>c \<in> set columns. plain c"
  shows "dollars (insertText b t columns rowCount) = [1 ..< 1 + nat rowCount * length columns]"
proof -
  have "plain (Join columns '', '')" using assms(3) by (simp add: plain_Join)
  then show ?thesis
    using plain_qualifiedTable [OF assms(1,2)]
    by (simp add: insertText_def dollars_append dollars_plain_append dollars_rowTexts)
qed

lemma setTexts_simps [simp]:
  "setTexts i [] = []" "setTexts i (c # cs) = (c @ '' = '' @ Placeholder i) # setTexts (Suc i) cs"
  by (simp_all add: setTexts_def)

lemma dollars_setTexts:
  "\<forall>c \<in> set columns. plain c \<Longrightarrow> dollars (Join (setTexts i columns) '', '') = [i ..< i + length columns]"
proof -
  have "\<forall>c \<in> set columns. plain c \<Longrightarrow> concat (map dollars (setTexts i columns)) = [i ..< i + length columns]"
    by (induction columns arbitrary: i)
      (simp_all add: dollars_append dollars_plain_append Placeholder_dollar upt_conv_Cons
        del: upt_Suc)
  then show "\<forall>c \<in> set columns. plain c \<Longrightarrow>
      dollars (Join (setTexts i columns) '', '') = [i ..< i + length columns]"
    by (simp add: dollars_Join)
qed

section \<open>Selections\<close>

text \<open>
  The names of the catalogue, and the names that reach the text of a selection without a check
  against the table (order columns, aggregates, the tables of embeds), are free of placeholder signs.
\<close>

definition table_plain :: "Table \<Rightarrow> bool" where
  "table_plain t \<longleftrightarrow> plain (tbl_Name t) \<and> plain (tbl_SchemaName t) \<and> plain (tbl_PK t) \<and>
     plain (tbl_FTSLanguage t) \<and>
     list_all (\<lambda>(k, c). plain k \<and> plain (col_Name c)) (tbl_Columns t) \<and>
     list_all (\<lambda>f. plain (fk_ColumnName f) \<and> plain (fk_RefColumn f)) (tbl_ForeignKeys t)"

definition store_plain :: "SchemaStore \<Rightarrow> bool" where
  "store_plain ss \<longleftrightarrow> list_all (\<lambda>(_, ts). list_all (\<lambda>(_, t). table_plain t) ts) (ss_schemas ss)"

definition select_plain :: "Builder \<Rightarrow> bool" where
  "select_plain b \<longleftrightarrow> (let p = bld_Params b in
     plain (bld_SchemaName b) \<and> (\<forall>t. bld_Table b = Some t \<longrightarrow> table_plain t) \<and>
     (\<forall>ss. bld_Store b = Some ss \<longrightarrow> store_plain ss) \<and>
     list_all (\<lambda>a. plain (agg_Func a) \<and> plain (agg_Col a) \<and> plain (agg_Alias a)) (par_Aggregates p) \<and>
     list_all (\<lambda>o'. plain (ord_Column o') \<and> plain (ord_Direction o') \<and> plain (ord_Nulls o')) (par_Order p) \<and>
     list_all (\<lambda>e. plain (emb_Table e)) (par_Embeds p))"

lemma select_plain_names: "select_plain b \<Longrightarrow> names_plain b"
  by (auto simp: select_plain_def names_plain_def table_plain_def Let_def)

lemma GetTable_plain: "store_plain ss \<Longrightarrow> GetTable ss s n = Some t \<Longrightarrow> table_plain t"
  by (fastforce simp: GetTable_def get2_def store_plain_def list_all_iff split: option.splits dest!: map_of_SomeD)

lemma firstTable_plain: "store_plain ss \<Longrightarrow> firstTable ss names n = Some t \<Longrightarrow> table_plain t"
  by (induction names) (auto split: option.splits dest: GetTable_plain)

lemma embedTable_plain: "store_plain ss \<Longrightarrow> embedTable ord ss n = Some t \<Longrightarrow> table_plain t"
  by (auto simp: embedTable_def split: option.splits dest: GetTable_plain firstTable_plain)

lemma plain_QualifiedName: "table_plain t \<Longrightarrow> plain (QualifiedName t)"
  by (simp add: table_plain_def QualifiedName_def)

lemma in_map_filter: "y \<in> set (List.map_filter f xs) \<longleftrightarrow> (\<exists>x \<in> set xs. f x = Some y)"
  by (induction xs) (auto simp: List.map_filter_simps split: option.splits)

lemma OrderedColumns_plain: "table_plain t \<Longrightarrow> c \<in> set (OrderedColumns t) \<Longrightarrow> plain (col_Name c)"
  by (fastforce simp: OrderedColumns_def in_map_filter table_plain_def list_all_iff dest: map_of_SomeD)

lemma plain_quoted [simp]: "plain (quoted s) \<longleftrightarrow> plain s"
  by (auto simp: quoted_def)

lemma plain_embedSelect:
  assumes "select_plain b" "plain (emb_Table e)"
  shows "plain (buildEmbedSelect ord b e)"
proof (cases "bld_Store b")
  case None
  then show ?thesis by (simp add: buildEmbedSelect_def)
next
  case (Some ss)
  then have ss: "store_plain ss" using assms(1) by (simp add: select_plain_def Let_def)
  show ?thesis
  proof (cases "embedTable ord ss (emb_Table e)")
    case None
    with Some show ?thesis by (simp add: buildEmbedSelect_def)
  next
    case (Some t)
    have t: "table_plain t" by (rule embedTable_plain [OF ss Some])
    have "map_of (tbl_Columns t) c = Some x \<Longrightarrow> plain c" for c x
      using t by (fastforce simp: table_plain_def list_all_iff dest: map_of_SomeD)
    then have "\<forall>c \<in> set (if emb_Select e = [] then map col_Name (OrderedColumns t)
        else filter (\<lambda>c. map_of (tbl_Columns t) c \<noteq> None) (emb_Select e)). plain c"
      using OrderedColumns_plain [OF t] by auto
    then show ?thesis
      using Some \<open>bld_Store b = Some ss\<close> assms(2)
      by (auto simp: buildEmbedSelect_def Let_def jsonCol_def intro!: plain_Join)
  qed
qed

lemma plain_embedJoin:
  assumes "select_plain b" "bld_Table b = Some t" "store_plain ss" "plain (emb_Table e)"
    and "embedJoin ord b t ss e = Some j"
  shows "plain j"
proof -
  have t: "table_plain t" using assms(1,2) by (simp add: select_plain_def Let_def)
  have q: "plain (qualifiedTable b t)" by (rule plain_qualifiedTable [OF select_plain_names [OF assms(1)] assms(2)])
  from assms(5) obtain r where r: "embedTable ord ss (emb_Table e) = Some r"
    by (auto simp: embedJoin_def split: option.splits)
  have pr: "table_plain r" by (rule embedTable_plain [OF assms(3) r])
  have fk: "plain (fk_ColumnName f) \<and> plain (fk_RefColumn f)"
    if "table_plain u" "find P (tbl_ForeignKeys u) = Some f" for u P f
    using that by (auto simp: find_Some_iff table_plain_def list_all_length)
  show ?thesis
    using assms(4,5) t pr q r plain_QualifiedName [OF pr] fk [OF t] fk [OF pr]
    by (auto simp: embedJoin_def joinText_def table_plain_def split: option.splits)
qed

lemma plain_embedJoins:
  assumes "select_plain b" "bld_Table b = Some t"
  shows "plain (fst (buildEmbedJoins ord b t))"
proof (cases "bld_Store b")
  case None
  then show ?thesis by (simp add: buildEmbedJoins_def)
next
  case (Some ss)
  then have ss: "store_plain ss" and es: "\<forall>e \<in> set (par_Embeds (bld_Params b)). plain (emb_Table e)"
    using assms(1) by (auto simp: select_plain_def Let_def list_all_iff)
  have "\<forall>j \<in> set (List.map_filter (\<lambda>(i, e). embedJoin (ord i) b t ss e)
      (enumerate 0 (par_Embeds (bld_Params b)))). plain j"
    using es by (auto simp: in_map_filter in_set_enumerate_eq)
      (metis nth_mem plain_embedJoin [OF assms ss])
  then show ?thesis using Some by (simp add: buildEmbedJoins_def plain_Join)
qed

lemma plain_selectList:
  assumes "select_plain b" "bld_Table b = Some t" "selectList ord b t = Ok sel"
  shows "plain sel"
proof -
  let ?p = "bld_Params b"
  have q: "plain (qualifiedTable b t)"
    by (rule plain_qualifiedTable [OF select_plain_names [OF assms(1)] assms(2)])
  have agg: "\<forall>a \<in> set (par_Aggregates ?p). plain (buildAggregateSelect b t a)"
    using assms(1) q by (auto simp: select_plain_def Let_def list_all_iff buildAggregateSelect_def)
  have emb: "\<forall>x \<in> set (enumerate 0 (par_Embeds ?p)). plain (buildEmbedSelect (ord (fst x)) b (snd x))"
    using assms(1) by (auto simp: select_plain_def Let_def list_all_iff in_set_enumerate_eq
        intro!: plain_embedSelect)
  have cols: "\<forall>c \<in> set (par_Select ?p). plain c" if "find (\<lambda>c. map_of (tbl_Columns t) c = None) (par_Select ?p) = None"
    using that assms(1,2)
    by (fastforce simp: find_None_iff select_plain_def Let_def table_plain_def list_all_iff dest: map_of_SomeD)
  show ?thesis
    using assms(3) agg emb cols q
    by (fastforce simp: selectList_def Let_def split: if_splits option.splits intro!: plain_Join)
qed

lemma dollars_order:
  assumes "select_plain b" "bld_Table b = Some t" "params_named b"
  shows "\<exists>m. dollars (buildOrderBy b t) = replicate m 1 \<and> (0 < m \<longrightarrow> par_FtsFilters (bld_Params b) \<noteq> [])"
proof -
  let ?p = "bld_Params b"
  have lang: "plain (ftsLanguage t)"
    using assms(1,2) by (simp add: select_plain_def Let_def table_plain_def ftsLanguage_def)
  have item: "dollars (buildOrderItem b t x) \<in> {[], [1]} \<and>
      (dollars (buildOrderItem b t x) = [1] \<longrightarrow> par_FtsFilters ?p \<noteq> [])" if "x \<in> set (par_Order ?p)" for x
  proof -
    have x: "plain (ord_Column x)" "plain (ord_Direction x)" "plain (ord_Nulls x)"
      using assms(1) that by (auto simp: select_plain_def Let_def list_all_iff)
    have one: "text_nat ''1'' = 1" "is_digit CHR ''1''" by code_simp+
    show ?thesis
      using x lang assms(3)
      by (cases "par_FtsFilters ?p")
        (auto simp: buildOrderItem_def dollars_plain_append one params_named_def params_ok_def)
  qed
  have "\<exists>m. concat (map (\<lambda>x. dollars (buildOrderItem b t x)) xs) = replicate m 1 \<and>
      (0 < m \<longrightarrow> par_FtsFilters ?p \<noteq> [])" if "set xs \<subseteq> set (par_Order ?p)" for xs
    using that
  proof (induction xs)
    case Nil
    show ?case by simp
  next
    case (Cons x xs)
    then obtain m where "concat (map (\<lambda>x. dollars (buildOrderItem b t x)) xs) = replicate m 1"
        "0 < m \<longrightarrow> par_FtsFilters ?p \<noteq> []" by auto
    with item [of x] Cons.prems show ?case
      by (auto intro: exI [of _ m] exI [of _ "Suc m"])
  qed
  from this [of "par_Order ?p"] show ?thesis
    by (simp add: buildOrderBy_def dollars_Join comp_def)
qed

lemma addRanks_spec:
  "addRanks b t ftss (''SELECT '' @ q) i = (q', as, i') \<Longrightarrow>
   i' = i + length as \<and> length as = length ftss \<and> (\<exists>r. q' = ''SELECT '' @ r @ q \<and>
     ((\<forall>f \<in> set ftss. plain (fts_Column f)) \<and> plain (ftsLanguage t) \<longrightarrow>
       (\<forall>z. dollars (r @ z) = rev [i ..< i'] @ dollars z)))"
proof (induction ftss arbitrary: q i as)
  case Nil
  then show ?case by auto
next
  case (Cons f fs)
  define rk where "rk = ''ts_rank('' @ fts_Column f @ '', plainto_tsquery('' @ quoted (ftsLanguage t) @ '', '' @
    Placeholder i @ '')) AS _rank, ''"
  have "addRanks b t (f # fs) (''SELECT '' @ q) i =
      (case addRanks b t fs (''SELECT '' @ rk @ q) (i + 1) of (q2, as2, i2) \<Rightarrow> (q2, fts_SearchTerm f # as2, i2))"
    using replace_first_prefix [of "''SELECT ''" q] by (simp add: rk_def Let_def)
  then obtain as2 where rec: "addRanks b t fs (''SELECT '' @ rk @ q) (i + 1) = (q', as2, i')"
    and as: "as = fts_SearchTerm f # as2"
    using Cons.prems by (auto split: prod.splits)
  from Cons.IH [OF rec] obtain r where r: "i' = i + 1 + length as2" "length as2 = length fs"
      "q' = ''SELECT '' @ r @ rk @ q"
      "(\<forall>f \<in> set fs. plain (fts_Column f)) \<and> plain (ftsLanguage t) \<longrightarrow>
       (\<forall>z. dollars (r @ z) = rev [i + 1 ..< i'] @ dollars z)"
    by blast
  have rk: "plain (fts_Column f) \<Longrightarrow> plain (ftsLanguage t) \<Longrightarrow> dollars (rk @ z) = i # dollars z" for z
    by (simp add: rk_def dollars_append dollars_plain_append quoted_def Placeholder_dollar)
  have "rev [i ..< i'] = rev [i + 1 ..< i'] @ [i]" using r(1) by (simp add: upt_conv_Cons del: upt_Suc)
  then show ?case
    using r rk by (intro conjI exI [of _ "r @ rk"]) (auto simp: as)
qed

section \<open>Whole statements\<close>

text \<open>What follows the WHERE clause of a selection.\<close>

definition select_tail :: "Builder \<Rightarrow> Table \<Rightarrow> string" where
  "select_tail b t =
     (let p = bld_Params b in
      (if 0 < length (par_Order p) then '' ORDER BY '' @ buildOrderBy b t else []) @
      (if 0 \<le> rng_Limit (par_Range p) then '' LIMIT '' @ Itoa (rng_Limit (par_Range p)) else []) @
      (if 0 < rng_Offset (par_Range p) then '' OFFSET '' @ Itoa (rng_Offset (par_Range p)) else []))"

definition join_text :: "(nat \<Rightarrow> string list \<Rightarrow> string list) \<Rightarrow> Builder \<Rightarrow> Table \<Rightarrow> string" where
  "join_text ord b t = (let j = fst (buildEmbedJoins ord b t) in if j \<noteq> [] then '' '' @ j else [])"

lemma snd_buildEmbedJoins [simp]: "snd (buildEmbedJoins ord b t) = []"
  by (simp add: buildEmbedJoins_def split: option.splits)

lemma addRanks_snd: "snd (addRanks b t ftss q i) = (map fts_SearchTerm ftss, i + length ftss)"
proof (induction ftss arbitrary: q i)
  case (Cons f fs)
  obtain x where "addRanks b t (f # fs) q i =
      (case addRanks b t fs x (i + 1) of (q, as, i) \<Rightarrow> (q, fts_SearchTerm f # as, i))"
    by (simp add: Let_def)
  with Cons.IH [of x "i + 1"] show ?case by (auto split: prod.splits)
qed simp

lemma BuildSelect_eq:
  "bld_Table b = Some t \<Longrightarrow> BuildSelect ordS ordJ b =
     obind (selectList ordS b t) (\<lambda>sel.
       let ftss = par_FtsFilters (bld_Params b); q = fst (addRanks b t ftss (''SELECT '' @ sel) 1) in
       obind (addWhere b (q @ '' FROM '' @ qualifiedTable b t @ join_text ordJ b t) (1 + length ftss))
         (\<lambda>(q', as). Ok (q' @ select_tail b t, map fts_SearchTerm ftss @ as)))"
proof -
  assume t: "bld_Table b = Some t"
  obtain j ja where j: "buildEmbedJoins ordJ b t = (j, ja)" by fastforce
  have ja: "ja = []" using snd_buildEmbedJoins [of ordJ b t] j by simp
  have "obind m (\<lambda>x. f x) = obind m g" if "\<And>x. f x = g x" for m and f g :: "'x \<Rightarrow> 'y outcome"
    using that by (cases m) auto
  note obind_ext = this
  show ?thesis
    using addRanks_snd [of b t "par_FtsFilters (bld_Params b)"]
    by (simp add: BuildSelect_def with_table_def t j ja join_text_def select_tail_def Let_def)
      (auto intro!: obind_ext split: prod.splits simp: prod_eq_iff)
qed

lemma dollars_tail:
  assumes "select_plain b" "bld_Table b = Some t" "params_named b"
  shows "\<exists>m. dollars (select_tail b t) = replicate m 1 \<and> (0 < m \<longrightarrow> par_FtsFilters (bld_Params b) \<noteq> [])"
    and "seamless (select_tail b t)"
proof -
  from dollars_order [OF assms] obtain m where
    m: "dollars (buildOrderBy b t) = replicate m 1" "0 < m \<longrightarrow> par_FtsFilters (bld_Params b) \<noteq> []" by blast
  show "\<exists>m. dollars (select_tail b t) = replicate m 1 \<and> (0 < m \<longrightarrow> par_FtsFilters (bld_Params b) \<noteq> [])"
    using m by (auto simp: select_tail_def Let_def dollars_append dollars_plain_append)
  show "seamless (select_tail b t)"
    by (simp add: select_tail_def Let_def)
qed

lemma dollars_select:
  assumes "select_plain b" "params_named b" "BuildSelect ordS ordJ b = Ok (q, as)"
  defines "k \<equiv> length (par_FtsFilters (bld_Params b))"
  shows "\<exists>m. dollars q = rev [1 ..< 1 + k] @ [1 + k ..< 1 + length as] @ replicate m 1 \<and>
    k \<le> length as \<and> (0 < m \<longrightarrow> 0 < k)"
proof -
  let ?p = "bld_Params b"
  from assms(3) obtain t where t: "bld_Table b = Some t"
    by (auto simp: BuildSelect_def with_table_def split: option.splits)
  from assms(3) obtain sel q' as'
    where sel: "selectList ordS b t = Ok sel"
      and w: "addWhere b (fst (addRanks b t (par_FtsFilters ?p) (''SELECT '' @ sel) 1) @ '' FROM '' @
        qualifiedTable b t @ join_text ordJ b t) (1 + k) = Ok (q', as')"
      and q: "q = q' @ select_tail b t" and as: "as = map fts_SearchTerm (par_FtsFilters ?p) @ as'"
    unfolding BuildSelect_eq [OF t] k_def by (auto simp: obind_Ok_iff Let_def)
  obtain head ra ri where head: "addRanks b t (par_FtsFilters ?p) (''SELECT '' @ sel) 1 = (head, ra, ri)"
    by (metis prod_cases3)
  from addRanks_spec [OF head] have ri: "ri = 1 + k" by (auto simp: k_def)
  from addRanks_spec [OF head] obtain r where r: "head = ''SELECT '' @ r @ sel"
      "(\<forall>f \<in> set (par_FtsFilters ?p). plain (fts_Column f)) \<and> plain (ftsLanguage t) \<longrightarrow>
       (\<forall>z. dollars (r @ z) = rev [1 ..< ri] @ dollars z)" by blast
  have plain_fts: "(\<forall>f \<in> set (par_FtsFilters ?p). plain (fts_Column f)) \<and> plain (ftsLanguage t)"
    using assms(2) t by (auto simp: params_named_def params_ok_def list_all_iff ftsLanguage_def)
  have names: "plain sel" "plain (qualifiedTable b t)" "plain (join_text ordJ b t)"
    using plain_selectList [OF assms(1) t sel] plain_qualifiedTable [OF select_plain_names [OF assms(1)] t]
      plain_embedJoins [OF assms(1) t] by (auto simp: join_text_def Let_def)
  have "dollars (head @ '' FROM '' @ qualifiedTable b t @ join_text ordJ b t) = rev [1 ..< 1 + k]"
    using r plain_fts names ri by (simp add: dollars_plain_append)
  with addWhere_numbered [OF assms(2) w] head have "dollars q' = rev [1 ..< 1 + k] @ [1 + k ..< 1 + k + length as']"
    by simp
  with dollars_tail [OF assms(1) t assms(2)] show ?thesis
    by (auto simp: q as k_def dollars_append add.assoc)
qed

text \<open>Two builders that differ in values only.\<close>

lemma buildWhere_oblivious:
  assumes "params_shape (bld_Params b) = params_shape p"
  shows "same_text (buildWhere b i) (buildWhere (b\<lparr>bld_Params := p\<rparr>) i)"
  unfolding same_text_def
proof (intro allI impI)
  fix c as j
  let ?b = "b\<lparr>bld_Params := p\<rparr>"
  have eq: "map filter_shape (par_Filters (bld_Params b)) = map filter_shape (par_Filters p)"
    "map lf_shape (par_Logicals (bld_Params b)) = map lf_shape (par_Logicals p)"
    "map fts_shape (par_FtsFilters (bld_Params b)) = map fts_shape (par_FtsFilters p)"
    using arg_cong [OF assms, of par_Filters] arg_cong [OF assms, of par_Logicals]
      arg_cong [OF assms, of par_FtsFilters] by (simp_all add: params_shape_def)
  have fts: "buildFtsCondition ?b = buildFtsCondition b"
    by (simp add: fun_eq_iff buildFtsCondition_def with_table_def)
  assume "buildWhere b i = Ok (c, as, j)"
  then obtain cs1 as1 i1 cs2 as2 i2 cs3 as3 i3
    where w: "buildEach buildFilterCondition (par_Filters (bld_Params b)) i = Ok (cs1, as1, i1)"
      "buildEach buildLogicalCondition (par_Logicals (bld_Params b)) i1 = Ok (cs2, as2, i2)"
      "buildEach (buildFtsCondition b) (par_FtsFilters (bld_Params b)) i2 = Ok (cs3, as3, i3)"
      and c: "(c, as, j) = (Join (cs1 @ cs2 @ cs3) '' AND '', if cs1 @ cs2 @ cs3 = [] then [] else as1 @ as2 @ as3, i3)"
    by (rule buildWhere_OkE)
  from same_textD [OF filters.each_oblivious [OF eq(1)] w(1)] obtain bs1
    where 1: "buildEach buildFilterCondition (par_Filters p) i = Ok (cs1, bs1, i1)" "length bs1 = length as1" by blast
  from same_textD [OF logicals.each_oblivious [OF eq(2)] w(2)] obtain bs2
    where 2: "buildEach buildLogicalCondition (par_Logicals p) i1 = Ok (cs2, bs2, i2)" "length bs2 = length as2" by blast
  from same_textD [OF ftss.each_oblivious [OF eq(3)] w(3)] obtain bs3
    where 3: "buildEach (buildFtsCondition b) (par_FtsFilters p) i2 = Ok (cs3, bs3, i3)" "length bs3 = length as3" by blast
  have "buildWhere ?b i = Ok (Join (cs1 @ cs2 @ cs3) '' AND '',
      if cs1 @ cs2 @ cs3 = [] then [] else bs1 @ bs2 @ bs3, i3)"
    using 1(1) 2(1) 3(1) by (intro buildWhere_eq) (simp_all add: fts)
  then show "\<exists>as'. buildWhere ?b i = Ok (c, as', j) \<and> length as' = length as"
    using c 1(2) 2(2) 3(2) by auto
qed

lemma addWhere_oblivious:
  assumes "params_shape (bld_Params b) = params_shape p" "addWhere b q i = Ok (q', as)"
  shows "\<exists>as'. addWhere (b\<lparr>bld_Params := p\<rparr>) q i = Ok (q', as') \<and> length as' = length as"
proof -
  from assms(2) obtain w as1 i1 where w: "buildWhere b i = Ok (w, as1, i1)"
    and q: "(q', as) = (if w \<noteq> [] then (q @ '' WHERE '' @ w, as1) else (q, []))"
    by (auto simp: addWhere_def obind_Ok_iff)
  from same_textD [OF buildWhere_oblivious [OF assms(1)] w] q show ?thesis
    by (auto simp: addWhere_def split: if_splits)
qed

lemma shape_sels:
  assumes "params_shape p = params_shape p'"
  shows "par_Select p' = par_Select p" "par_Embeds p' = par_Embeds p" "par_Aggregates p' = par_Aggregates p"
    "par_Order p' = par_Order p" "par_Range p' = par_Range p"
    "map fts_Column (par_FtsFilters p') = map fts_Column (par_FtsFilters p)"
proof -
  show "par_Select p' = par_Select p" "par_Embeds p' = par_Embeds p" "par_Aggregates p' = par_Aggregates p"
    "par_Order p' = par_Order p" "par_Range p' = par_Range p"
    using arg_cong [OF assms, of par_Select] arg_cong [OF assms, of par_Embeds]
      arg_cong [OF assms, of par_Aggregates] arg_cong [OF assms, of par_Order] arg_cong [OF assms, of par_Range]
    by (simp_all add: params_shape_def)
  have "map fts_Column (map fts_shape (par_FtsFilters p)) = map fts_Column (map fts_shape (par_FtsFilters p'))"
    using arg_cong [OF assms, of par_FtsFilters] by (simp add: params_shape_def)
  then show "map fts_Column (par_FtsFilters p') = map fts_Column (par_FtsFilters p)"
    by (simp add: comp_def fts_shape_def)
qed

lemma addRanks_oblivious:
  assumes "map fts_Column gs = map fts_Column fs" "selects_columns (bld_Params b') = selects_columns (bld_Params b)"
  shows "fst (addRanks b' t gs q i) = fst (addRanks b t fs q i)"
  using assms(1)
proof (induction fs arbitrary: gs q i)
  case Nil
  then show ?case by simp
next
  case (Cons f fs)
  then obtain g gs' where gs: "gs = g # gs'" "fts_Column g = fts_Column f" "map fts_Column gs' = map fts_Column fs"
    by (cases gs) auto
  show ?case
    using Cons.IH [OF gs(3)] assms(2) by (simp add: gs Let_def case_prod_unfold)
qed

lemma BuildSelect_oblivious:
  assumes "params_shape (bld_Params b) = params_shape p" "BuildSelect ordS ordJ b = Ok (q, as)"
  shows "\<exists>as'. BuildSelect ordS ordJ (b\<lparr>bld_Params := p\<rparr>) = Ok (q, as') \<and> length as' = length as"
proof -
  let ?b = "b\<lparr>bld_Params := p\<rparr>"
  note same = shape_sels [OF assms(1)]
  from assms(2) obtain t where t: "bld_Table b = Some t"
    by (auto simp: BuildSelect_def with_table_def split: option.splits)
  then have t': "bld_Table ?b = Some t" by simp
  have len: "length (par_FtsFilters p) = length (par_FtsFilters (bld_Params b))"
    using same(6) by (metis length_map)
  have sc: "selects_columns p = selects_columns (bld_Params b)"
    using same by (simp add: selects_columns_def)
  have qt: "qualifiedTable ?b = qualifiedTable b" by (simp add: fun_eq_iff qualifiedTable_def)
  have es: "buildEmbedSelect ord ?b = buildEmbedSelect ord b" for ord
    by (simp add: fun_eq_iff buildEmbedSelect_def)
  have ag: "buildAggregateSelect ?b = buildAggregateSelect b"
    by (simp add: fun_eq_iff buildAggregateSelect_def qt)
  have sel: "selectList ordS ?b t = selectList ordS b t"
    by (simp add: selectList_def qt es ag same sc Let_def split: option.split)
  have "buildOrderItem ?b t x = buildOrderItem b t x" for x
    using same(6) by (cases "par_FtsFilters p"; cases "par_FtsFilters (bld_Params b)")
      (auto simp: buildOrderItem_def)
  then have "buildOrderItem ?b t = buildOrderItem b t" by blast
  then have tail: "select_tail ?b t = select_tail b t"
    by (simp add: select_tail_def buildOrderBy_def same Let_def)
  have "embedJoin ord ?b = embedJoin ord b" for ord
    by (simp add: fun_eq_iff embedJoin_def qt split: option.split)
  then have jn: "join_text ordJ ?b t = join_text ordJ b t"
    by (simp add: join_text_def buildEmbedJoins_def same split: option.split)
  have rk: "fst (addRanks ?b t (par_FtsFilters p) q i) = fst (addRanks b t (par_FtsFilters (bld_Params b)) q i)" for q i
    using same(6) sc by (intro addRanks_oblivious) simp_all
  from assms(2) obtain sl q' as'
    where sl: "selectList ordS b t = Ok sl"
      and w: "addWhere b (fst (addRanks b t (par_FtsFilters (bld_Params b)) (''SELECT '' @ sl) 1) @ '' FROM '' @
        qualifiedTable b t @ join_text ordJ b t) (1 + length (par_FtsFilters (bld_Params b))) = Ok (q', as')"
      and q: "q = q' @ select_tail b t" and as: "as = map fts_SearchTerm (par_FtsFilters (bld_Params b)) @ as'"
    unfolding BuildSelect_eq [OF t] by (auto simp: obind_Ok_iff Let_def)
  from addWhere_oblivious [OF assms(1) w] obtain as2
    where w': "addWhere ?b (fst (addRanks b t (par_FtsFilters (bld_Params b)) (''SELECT '' @ sl) 1) @ '' FROM '' @
        qualifiedTable b t @ join_text ordJ b t) (1 + length (par_FtsFilters (bld_Params b))) = Ok (q', as2)"
      and l: "length as2 = length as'" by blast
  have "BuildSelect ordS ordJ ?b = Ok (q, map fts_SearchTerm (par_FtsFilters p) @ as2)"
    unfolding BuildSelect_eq [OF t'] sel sl tail jn qt using w' by (simp add: rk len q Let_def)
  then show ?thesis using l len by (simp add: as)
qed

section \<open>Lists of values\<close>

lemma buildEach_Nil_args: "buildEach build xs i = Ok (cs, as, i') \<Longrightarrow> cs = [] \<Longrightarrow> as = []"
  by (cases xs) (auto simp: obind_Ok_iff)

lemma fold_parseIn_word:
  "word_text v \<Longrightarrow> CHR 0x22 \<notin> set v \<Longrightarrow> fold parseInStep v (vs, d, cur) = (vs, d, cur @ v)"
  by (induction v arbitrary: cur) (auto simp: parseInStep_def)

lemma fold_parseIn_quoted:
  "0 < d \<Longrightarrow> \<exists>d' cur'. 0 < d' \<and> fold parseInStep s (vs, d, cur) = (vs, d', cur')"
  by (induction s arbitrary: d cur) (auto simp: parseInStep_def)

lemma fold_parseIn_Join:
  "vs \<noteq> [] \<Longrightarrow> \<forall>v \<in> set vs. word_text v \<and> CHR 0x22 \<notin> set v \<Longrightarrow>
   fold parseInStep (Join vs '','') (us, 0, []) = (us @ map TrimSpace (butlast vs), 0, last vs)"
proof (induction vs arbitrary: us)
  case (Cons v vs)
  then show ?case
    by (cases "vs = []") (simp_all add: Join_Cons fold_parseIn_word, simp add: parseInStep_def)
qed simp

lemma TrimSpace_word: "word_text v \<Longrightarrow> TrimSpace v = v"
  by (rule TrimSpace_none) (simp add: word_text_def)

text \<open>The conditions of a WHERE clause, and what they mean.\<close>

lemma buildWhere_denotes:
  assumes "params_solid cols (bld_Params b)" "bld_Table b = Some t" "buildWhere b i = Ok (w, as, i')"
  shows "i' = i + length as \<and> (\<exists>ds. w = Join (map sql ds) '' AND '' \<and> list_all (cond_ok cols) ds \<and>
    (\<forall>r \<beta>. binds \<beta> i as \<longrightarrow> k_and (map (truth r \<beta>) ds) = where_means r t (bld_Params b)))"
proof -
  let ?p = "bld_Params b"
  from assms(3) obtain cs1 as1 i1 cs2 as2 i2 cs3 as3 i3
    where w: "buildEach buildFilterCondition (par_Filters ?p) i = Ok (cs1, as1, i1)"
      "buildEach buildLogicalCondition (par_Logicals ?p) i1 = Ok (cs2, as2, i2)"
      "buildEach (buildFtsCondition b) (par_FtsFilters ?p) i2 = Ok (cs3, as3, i3)"
      and c: "(w, as, i') = (Join (cs1 @ cs2 @ cs3) '' AND '',
        if cs1 @ cs2 @ cs3 = [] then [] else as1 @ as2 @ as3, i3)"
    by (rule buildWhere_OkE)
  have ok: "list_all (filter_solid cols) (par_Filters ?p)" "list_all (lf_solid cols) (par_Logicals ?p)"
    "list_all (\<lambda>f. cols (fts_Column f)) (par_FtsFilters ?p)"
    using assms(1) by (simp_all add: params_solid_def)
  from filters.each_means [OF ok(1) w(1)] obtain ds1 where d1: "i1 = i + length as1" "cs1 = map sql ds1"
      "list_all (cond_ok cols) ds1" "\<And>r \<beta>. binds \<beta> i as1 \<Longrightarrow> map (truth r \<beta>) ds1 = map (filter_means r) (par_Filters ?p)"
    by blast
  from logicals.each_means [OF ok(2) w(2)] obtain ds2 where d2: "i2 = i1 + length as2" "cs2 = map sql ds2"
      "list_all (cond_ok cols) ds2" "\<And>r \<beta>. binds \<beta> i1 as2 \<Longrightarrow> map (truth r \<beta>) ds2 = map (logical_means r) (par_Logicals ?p)"
    by blast
  from ftss.each_means [OF ok(3) w(3)] obtain ds3 where d3: "i3 = i2 + length as3" "cs3 = map sql ds3"
      "list_all (cond_ok cols) ds3" "\<And>r \<beta>. binds \<beta> i2 as3 \<Longrightarrow> map (truth r \<beta>) ds3 = map (bld_fts_means b r) (par_FtsFilters ?p)"
    by blast
  have "as = as1 @ as2 @ as3"
    using c buildEach_Nil_args [OF w(1)] buildEach_Nil_args [OF w(2)] buildEach_Nil_args [OF w(3)]
    by (auto split: if_splits)
  moreover have "bld_fts_means b = (\<lambda>r. fts_means r t)" using assms(2) by (simp add: fun_eq_iff bld_fts_means_def)
  ultimately show ?thesis
    using c d1 d2 d3
    by (intro conjI exI [of _ "ds1 @ ds2 @ ds3"]) (auto simp: where_means_def binds_append add.assoc)
qed

section \<open>Properties\<close>

text \<open>A table and a request for the examples.\<close>

definition posts :: Table where
  "posts = \<lparr>tbl_Name = ''posts'', tbl_SchemaName = ''blog'', tbl_Columns = [], tbl_ColumnOrder = [],
     tbl_PK = ''id'', tbl_IsView = False, tbl_ForeignKeys = [], tbl_UniqueConstraints = [],
     tbl_AllowedMethods = None, tbl_DenyMethods = [], tbl_FTSLanguage = ''french''\<rparr>"

definition search_posts :: "string \<Rightarrow> Params" where
  "search_posts v = emptyParams\<lparr>
     par_Filters := [\<lparr>flt_Column = ''id'', flt_Operator = ''gt'', flt_Value = v, flt_Negate = False,
       flt_Modifier = []\<rparr>],
     par_FtsFilters := [\<lparr>fts_Column = ''title'', fts_SearchTerm = ''cat'', fts_Negate = True\<rparr>],
     par_Order := [\<lparr>ord_Column = ''_rank'', ord_Direction = ''desc'', ord_Nulls = []\<rparr>],
     par_Range := \<lparr>rng_Limit = 5, rng_Offset = 10\<rparr>\<rparr>"

fun is_Ok :: "'a outcome \<Rightarrow> bool" where
  "is_Ok (Ok _) = True"
| "is_Ok _ = False"

lemma is_Ok_iff: "is_Ok m \<longleftrightarrow> (\<exists>x. m = Ok x)"
  by (cases m) auto





text \<open>
  C3. No value reaches the SQL text: two requests of the same shape (equal but for the values that
  are passed as arguments) get the same text and the same number of arguments.  So the text of a
  selection cannot be changed through a filter value or a search term.
\<close>

theorem BuildSelect_values_not_in_text:
  assumes "params_shape (bld_Params b) = params_shape p" "BuildSelect ordS ordJ b = Ok (q, as)"
  shows "\<exists>as'. BuildSelect ordS ordJ (b\<lparr>bld_Params := p\<rparr>) = Ok (q, as') \<and> length as' = length as"
  by (rule BuildSelect_oblivious [OF assms])

theorem BuildSelect_values_not_in_text_witness:
  "\<exists>q as as'. BuildSelect (\<lambda>_ ns. ns) (\<lambda>_ ns. ns) (NewBuilder (Some posts) (search_posts ''7'') ''blog'') = Ok (q, as) \<and>
     BuildSelect (\<lambda>_ ns. ns) (\<lambda>_ ns. ns) (NewBuilder (Some posts) (search_posts ''7; DROP TABLE posts'') ''blog'') = Ok (q, as')"
proof -
  let ?b = "NewBuilder (Some posts) (search_posts ''7'') ''blog''"
    and ?p = "search_posts ''7; DROP TABLE posts''"
  have "is_Ok (BuildSelect (\<lambda>_ ns. ns) (\<lambda>_ ns. ns) ?b)" by code_simp
  then obtain q as where r: "BuildSelect (\<lambda>_ ns. ns) (\<lambda>_ ns. ns) ?b = Ok (q, as)" by (auto simp: is_Ok_iff)
  have "params_shape (bld_Params ?b) = params_shape ?p"
    by (simp add: NewBuilder_def search_posts_def params_shape_def filter_shape_def)
  from BuildSelect_values_not_in_text [OF this r] r show ?thesis by (auto simp: NewBuilder_def)
qed

text \<open>
  Inserts and upserts number their placeholders row by row, 1 to rows times columns, with no
  number skipped or used twice, and return no arguments of their own: the caller's flattened rows
  fit.  An empty column list or no rows is an error.
\<close>

lemma BuildInsert_placeholders:
  assumes "names_plain b" "\<forall>c \<in> set columns \<union> set conflictCols. plain c"
    and "BuildInsert b columns n = Ok (q, as) \<or> BuildUpsert b columns conflictCols n = Ok (q, as)"
  shows "dollars q = [1 ..< 1 + nat n * length columns] \<and> as = [] \<and> columns \<noteq> [] \<and> n \<noteq> 0"
proof -
  from assms(3) obtain t where t: "bld_Table b = Some t"
    by (auto simp: BuildInsert_def BuildUpsert_def with_table_def split: if_splits option.splits)
  have ins: "dollars (insertText b t columns n) = [1 ..< 1 + nat n * length columns]"
    using assms(2) by (intro dollars_insertText [OF assms(1) t]) auto
  have "plain (Join conflictCols '', '')"
    using assms(2) by (intro plain_Join) auto
  moreover have "plain (Join (map (\<lambda>col. col @ '' = EXCLUDED.'' @ col)
      (filter (\<lambda>col. \<not> list_ex (\<lambda>cc. col = cc) conflictCols) columns)) '', '')"
    using assms(2) by (intro plain_Join) auto
  ultimately show ?thesis
    using assms(3) ins
    by (auto simp: BuildInsert_def BuildUpsert_def with_table_def t Let_def dollars_append dollars_plain_append
        split: if_splits)
qed

lemma BuildInsert_placeholders_example:
  "\<exists>q. BuildUpsert (NewBuilder (Some posts) emptyParams ''blog'') [''id'', ''title''] [''id''] 2 = Ok (q, []) \<and>
     dollars q = [1 ..< 5]"
proof -
  let ?b = "NewBuilder (Some posts) emptyParams ''blog''"
    and ?q = "''INSERT INTO blog.posts (id, title) VALUES ($1, $2), ($3, $4) ON CONFLICT (id) DO UPDATE SET title = EXCLUDED.title''"
  have "names_plain ?b" by (simp add: names_plain_def NewBuilder_def posts_def)
  moreover have "\<forall>c \<in> set [''id'', ''title''] \<union> set [''id'']. plain c" by simp
  moreover have r: "BuildUpsert ?b [''id'', ''title''] [''id''] 2 = Ok (?q, [])" by code_simp
  ultimately have "dollars ?q = [1 ..< 1 + nat 2 * length [''id'', ''title'']]"
    using BuildInsert_placeholders [of ?b "[''id'', ''title'']" "[''id'']" 2 ?q "[]"] by blast
  moreover have "1 + nat 2 * length [''id'', ''title''] = 5" by simp
  ultimately show ?thesis using r by metis
qed

text \<open>
  An update numbers the SET columns from 1, then the WHERE clause: the caller passes the new
  values in column order, then the arguments returned.
\<close>

lemma BuildUpdate_placeholders:
  assumes "names_plain b" "params_ok plain (bld_Params b)" "\<forall>c \<in> set columns. plain c"
    and "BuildUpdate b columns = Ok (q, as)"
  shows "dollars q = [1 ..< 1 + (length columns + length as)] \<and> columns \<noteq> []"
proof -
  from assms(4) obtain t where t: "bld_Table b = Some t" and ne: "columns \<noteq> []"
    by (auto simp: BuildUpdate_def with_table_def split: if_splits option.splits)
  have named: "params_named b" using assms(1,2) by (auto simp: params_named_def names_plain_def)
  from assms(4) have "addWhere b (''UPDATE '' @ qualifiedTable b t @ '' SET '' @ Join (setTexts 1 columns) '', '')
      (1 + length columns) = Ok (q, as)"
    using ne by (simp add: BuildUpdate_def with_table_def t)
  from addWhere_numbered [OF named this]
  have "dollars q = [1 ..< 1 + length columns] @ [1 + length columns ..< 1 + length columns + length as]"
    using plain_qualifiedTable [OF assms(1) t] dollars_setTexts [OF assms(3)]
    by (simp add: dollars_plain_append)
  with upt_chain [of 1 "length columns" "length as"] ne show ?thesis by (simp add: add.assoc)
qed

lemma BuildUpdate_placeholders_example:
  "dollars ''UPDATE posts SET title = $1, body = $2 WHERE id > $3'' = [1, 2, 3]"
proof -
  let ?b = "NewBuilder (Some posts) ((search_posts ''7'')\<lparr>par_FtsFilters := []\<rparr>) []"
  have "names_plain ?b" by (simp add: names_plain_def NewBuilder_def posts_def)
  moreover have "params_ok plain (bld_Params ?b)"
    by (simp add: NewBuilder_def search_posts_def emptyParams_def params_ok_def filter_ok_def isValidOperator_def)
  moreover have "\<forall>c \<in> set [''title'', ''body'']. plain c" by simp
  moreover have "BuildUpdate ?b [''title'', ''body''] = Ok (''UPDATE posts SET title = $1, body = $2 WHERE id > $3'', [''7''])"
    by code_simp
  ultimately show ?thesis
    using BuildUpdate_placeholders [of ?b "[''title'', ''body'']" _ "[''7'']"] by (simp add: upt_rec)
qed

text \<open>
  A list of values for \<^verbatim>\<open>in\<close> is split at its commas when no value has a double quote; from the
  first double quote on nothing is split any more, because the quote count only grows (the
  closing quote does not end the quoting).
\<close>

lemma parseInValues_spec:
  "(vs \<noteq> [] \<and> (\<forall>v \<in> set vs. v \<noteq> [] \<and> word_text v \<and> CHR 0x22 \<notin> set v) \<longrightarrow>
      parseInValues (''('' @ Join vs '','' @ '')'') = vs) \<and>
   length (parseInValues (''('' @ CHR 0x22 # s @ '')'')) \<le> 1"
proof (intro conjI impI)
  assume h: "vs \<noteq> [] \<and> (\<forall>v \<in> set vs. v \<noteq> [] \<and> word_text v \<and> CHR 0x22 \<notin> set v)"
  have "\<forall>c \<in> set (Join vs '',''). c \<notin> set ''()''"
    using h set_Join [of vs "'',''"] by (fastforce simp: word_text_def)
  then have "Trim (''('' @ Join vs '','' @ '')'') ''()'' = Join vs '',''"
    by (simp add: Trim_def trim_with_wrap [of _ "CHR ''(''" "CHR '')''", simplified] trim_with_none)
  moreover have "map TrimSpace vs = vs"
    using h by (simp add: map_idI TrimSpace_word)
  ultimately show "parseInValues (''('' @ Join vs '','' @ '')'') = vs"
    using h fold_parseIn_Join [of vs "[]"]
    by (auto simp: parseInValues_def Let_def map_butlast [symmetric])
      (metis append_butlast_last_id last_map map_butlast)+
next
  have "trim_with (\<lambda>c. c \<in> set ''()'') (CHR ''('' # CHR 0x22 # s @ [CHR '')'']) =
      rev (dropWhile (\<lambda>c. c \<in> set ''()'') (rev s @ [CHR 0x22]))"
    by (simp add: trim_with_def)
  also have "\<dots> = CHR 0x22 # rev (dropWhile (\<lambda>c. c \<in> set ''()'') (rev s))"
    by (cases "dropWhile (\<lambda>c. c \<in> set ''()'') (rev s) = []") (auto simp: dropWhile_append)
  finally obtain u where u: "Trim (''('' @ CHR 0x22 # s @ '')'') ''()'' = CHR 0x22 # u"
    by (auto simp: Trim_def)
  obtain d cur where "fold parseInStep u ([], 1, []) = ([], d, cur)"
    using fold_parseIn_quoted [of 1 u "[]" "[]"] by auto
  then show "length (parseInValues (''('' @ CHR 0x22 # s @ '')'')) \<le> 1"
    unfolding parseInValues_def u by (simp add: parseInStep_def)
qed

lemma parseInValues_spec_example: "parseInValues ''(draft,live)'' = [''draft'', ''live'']"
  using parseInValues_spec [of "[''draft'', ''live'']" "[]"] by (simp add: word_text_def is_space_def)

end
