(* ===== verification/Response.thy ===== *)
theory Response
  imports Http
begin

text \<open>
  \<^verbatim>\<open>internal/response/response.go\<close>: rows as JSON or CSV, the answers to writes, and the range
  headers.  Integers are 64 bits wide, so sums wrap.
\<close>

section \<open>Rows\<close>

text \<open>
  What a query gives: the column names or an error, the rows in order (\<open>Inl\<close>: \<^verbatim>\<open>Scan\<close> fails), and the
  error that ended the iteration, if one did.
\<close>

record rowset =
  rw_cols :: "string + string list"
  rw_rows :: "(string + val list) list"
  rw_err :: "string option"

definition jsonCell :: "json_lib \<Rightarrow> val \<Rightarrow> val" where
  "jsonCell js v =
     (case v of
        VBytes b \<Rightarrow> (case js_decode js b of Inr j \<Rightarrow> j | Inl _ \<Rightarrow> VStr b)
      | _ \<Rightarrow> v)"

definition jsonRow :: "json_lib \<Rightarrow> string list \<Rightarrow> val list \<Rightarrow> (string \<times> val) list" where
  "jsonRow js columns vals = fold (\<lambda>(c, v). AList.update c (jsonCell js v)) (zip columns vals) []"

fun jsonRows :: "json_lib \<Rightarrow> string list \<Rightarrow> (string + val list) list \<Rightarrow> string + val list" where
  "jsonRows js columns [] = Inr []"
| "jsonRows js columns (Inl e # rows) = Inl e"
| "jsonRows js columns (Inr vals # rows) =
     (case jsonRows js columns rows of Inl e \<Rightarrow> Inl e | Inr rest \<Rightarrow> Inr (VObj (jsonRow js columns vals) # rest))"

text \<open>The profile header is empty (\<^verbatim>\<open>c.GetString\<close> of a key nobody sets); a nil slice is printed as null.\<close>

definition WriteJSON :: "json_lib \<Rightarrow> string list \<Rightarrow> (string + val list) list \<Rightarrow> response \<Rightarrow> response" where
  "WriteJSON js columns rows rs0 =
     (let rs = set_header ''Content-Profile'' [] (set_header ''Content-Type'' ''application/json'' rs0)
      in (case jsonRows js columns rows of
            Inl e \<Rightarrow> c_JSON 500 (obj_text [(''code'', ''PGRST100''), (''message'', ''Failed to scan row''), (''details'', e)]) rs
          | Inr results \<Rightarrow> c_JSON 200 (if results = [] then VNil else VArr results) rs))"

definition WriteSingularJSON :: "(string \<times> val) list \<Rightarrow> response \<Rightarrow> response" where
  "WriteSingularJSON row rs = c_JSON 200 (VObj row) (set_header ''Content-Type'' ''application/vnd.pgrst.object+json'' rs)"

section \<open>CSV\<close>

text \<open>The writer of \<^verbatim>\<open>encoding/csv\<close>: a field is quoted when it has to be.\<close>

definition fieldNeedsQuotes :: "string \<Rightarrow> bool" where
  "fieldNeedsQuotes field \<longleftrightarrow> field \<noteq> [] \<and>
     (field = [CHR 0x5C, CHR ''.''] \<or> (\<exists>c \<in> set field. c \<in> {CHR 0x0A, CHR 0x0D, CHR 0x22, CHR '',''}) \<or> is_space (hd field))"

fun csvEscape :: "string \<Rightarrow> string" where
  "csvEscape [] = []"
| "csvEscape (c # cs) = (if c = CHR 0x22 then [CHR 0x22, CHR 0x22] else [c]) @ csvEscape cs"

definition csvField :: "string \<Rightarrow> string" where
  "csvField field = (if fieldNeedsQuotes field then CHR 0x22 # csvEscape field @ [CHR 0x22] else field)"

definition csvLine :: "string list \<Rightarrow> string" where
  "csvLine cells = Join (map csvField cells) '','' @ [CHR 0x0A]"

definition csvCell :: "json_lib \<Rightarrow> val \<Rightarrow> string" where
  "csvCell js v = (case v of VNil \<Rightarrow> [] | VBytes b \<Rightarrow> b | VTime t \<Rightarrow> js_time js t | _ \<Rightarrow> fmtV v)"

text \<open>The records up to the first row that cannot be scanned.\<close>

fun csvRecords :: "json_lib \<Rightarrow> (string + val list) list \<Rightarrow> string list list" where
  "csvRecords js [] = []"
| "csvRecords js (Inl e # rows) = []"
| "csvRecords js (Inr vals # rows) = map (csvCell js) vals # csvRecords js rows"

definition csvText :: "json_lib \<Rightarrow> string list \<Rightarrow> (string + val list) list \<Rightarrow> string" where
  "csvText js columns rows = concat (map csvLine (columns # csvRecords js rows))"

definition WriteCSV :: "json_lib \<Rightarrow> request \<Rightarrow> string list \<Rightarrow> (string + val list) list \<Rightarrow> response \<Rightarrow> response" where
  "WriteCSV js rq columns rows rs =
     (set_header ''Content-Disposition'' (''attachment; filename='' @ Param rq ''table'' @ ''.csv'')
       (set_header ''Content-Type'' ''text/csv'' rs))\<lparr>rs_Body := Text (csvText js columns rows)\<rparr>"

definition WriteCSVWriter :: "json_lib \<Rightarrow> string list \<Rightarrow> rowset \<Rightarrow> string \<times> string option" where
  "WriteCSVWriter js columns rs =
     (csvText js columns (rw_rows rs),
      (case find (\<lambda>r. \<exists>e. r = Inl e) (rw_rows rs) of Some (Inl e) \<Rightarrow> Some e | _ \<Rightarrow> rw_err rs))"

section \<open>Answers to writes\<close>

definition containsPrefer :: "string list \<Rightarrow> string \<Rightarrow> bool" where
  "containsPrefer prefer v = list_ex (\<lambda>p. Contains p v) prefer"

definition write_answer :: "int \<Rightarrow> int \<Rightarrow> string \<Rightarrow> int \<Rightarrow> string list \<Rightarrow> response" where
  "write_answer with_body without verb count prefer =
     (if containsPrefer prefer ''return=representation'' then
        c_JSON with_body (obj_text [(''message'', Itoa count @ '' row(s) '' @ verb)])
          (set_header ''Content-Type'' ''application/json'' new_response)
      else c_Status without new_response)"

definition WriteInserted :: "int \<Rightarrow> string list \<Rightarrow> response" where
  "WriteInserted = write_answer 201 201 ''inserted''"

definition WriteUpdated :: "int \<Rightarrow> string list \<Rightarrow> response" where
  "WriteUpdated = write_answer 200 204 ''updated''"

definition WriteDeleted :: "int \<Rightarrow> string list \<Rightarrow> response" where
  "WriteDeleted = write_answer 200 204 ''deleted''"

section \<open>Ranges\<close>

definition rangeText :: "int \<Rightarrow> int \<Rightarrow> int \<Rightarrow> string" where
  "rangeText from to totalN = Itoa from @ ''-'' @ Itoa to @ ''/'' @ Itoa totalN"

definition SetContentRange :: "int \<Rightarrow> int \<Rightarrow> int \<Rightarrow> response \<Rightarrow> response" where
  "SetContentRange from to totalN rs =
     (let rs1 = set_header ''Range-Unit'' ''items'' (set_header ''Content-Range'' (rangeText from to totalN) rs)
      in if 0 < totalN then set_header ''X-Total-Count'' (Itoa totalN) rs1 else rs1)"

definition rangeLast :: "int \<Rightarrow> int \<Rightarrow> int \<Rightarrow> int" where
  "rangeLast limit offset totalN =
     (let last = int64 (int64 (offset + limit) - 1)
      in if 0 < totalN \<and> totalN \<le> last then totalN - 1 else last)"

definition SetRangeHeaders :: "int \<Rightarrow> int \<Rightarrow> int \<Rightarrow> response \<Rightarrow> response" where
  "SetRangeHeaders limit offset totalN rs =
     (if 0 \<le> limit then SetContentRange offset (rangeLast limit offset totalN) totalN rs else rs)"

text \<open>\<^verbatim>\<open>ParseRangeHeader\<close> returns limit, offset and whether there is a range.\<close>

definition ParseRangeHeader :: "string \<Rightarrow> int \<times> int \<times> bool" where
  "ParseRangeHeader rangeHeader =
     (if rangeHeader = [] then (-1, 0, False)
      else
        (case SplitN rangeHeader CHR ''='' 2 of
           [unit, rest] \<Rightarrow>
             (if unit \<noteq> ''items'' then (-1, 0, False)
              else
                (case Split rest CHR ''-'' of
                   [a, b] \<Rightarrow>
                     (case Atoi a of
                        None \<Rightarrow> (-1, 0, False)
                      | Some start \<Rightarrow>
                          (case Atoi b of
                             None \<Rightarrow> (-1, 0, False)
                           | Some stop \<Rightarrow>
                               if stop < start then (-1, 0, False)
                               else (int64 (int64 (stop - start) + 1), start, True)))
                 | _ \<Rightarrow> (-1, 0, False)))
         | _ \<Rightarrow> (-1, 0, False)))"

definition CalculateRange :: "int \<Rightarrow> int \<Rightarrow> int \<Rightarrow> int \<times> int" where
  "CalculateRange limit offset totalN =
     (if limit < 0 then (0, totalN)
      else
        let from = offset; to0 = int64 (offset + limit);
            to = (if 0 < totalN \<and> totalN < to0 then totalN else to0)
        in if totalN < from then (totalN, totalN) else (from, to))"

definition MustParseInt :: "string \<Rightarrow> int \<Rightarrow> int" where
  "MustParseInt s defaultVal = (if s = [] then defaultVal else (case Atoi s of None \<Rightarrow> defaultVal | Some v \<Rightarrow> v))"

definition MaxInt :: "int \<Rightarrow> int \<Rightarrow> int" where
  "MaxInt a b = (if b < a then a else b)"

definition MinInt :: "int \<Rightarrow> int \<Rightarrow> int" where
  "MinInt a b = (if a < b then a else b)"

section \<open>Reading CSV back\<close>

text \<open>A reader for the format of RFC 4180, one state per kind of position.\<close>

datatype position = Fresh | Bare | Quoted | Closing

fun read_csv_from :: "position \<Rightarrow> string \<Rightarrow> string list \<Rightarrow> string \<Rightarrow> string list list" where
  "read_csv_from p cur cells [] = (if p = Fresh \<and> cells = [] then [] else [cells @ [cur]])"
| "read_csv_from p cur cells (c # cs) =
     (if p = Quoted then
        (if c = CHR 0x22 then read_csv_from Closing cur cells cs else read_csv_from Quoted (cur @ [c]) cells cs)
      else if c = CHR 0x22 \<and> p = Closing then read_csv_from Quoted (cur @ [c]) cells cs
      else if c = CHR 0x22 \<and> p = Fresh then read_csv_from Quoted cur cells cs
      else if c = CHR '','' then read_csv_from Fresh [] (cells @ [cur]) cs
      else if c = CHR 0x0A then (cells @ [cur]) # read_csv_from Fresh [] [] cs
      else read_csv_from Bare (cur @ [c]) cells cs)"

definition read_csv :: "string \<Rightarrow> string list list" where
  "read_csv s = read_csv_from Fresh [] [] s"

lemma read_quoted:
  "read_csv_from Quoted cur cells (csvEscape f @ CHR 0x22 # rest) = read_csv_from Closing (cur @ f) cells rest"
  by (induction f arbitrary: cur) auto

lemma read_bare:
  "\<forall>c \<in> set f. c \<noteq> CHR '','' \<and> c \<noteq> CHR 0x0A \<and> c \<noteq> CHR 0x22 \<Longrightarrow> p = Fresh \<or> p = Bare \<Longrightarrow>
   read_csv_from p cur cells (f @ rest) = read_csv_from (if f = [] then p else Bare) (cur @ f) cells rest"
  by (induction f arbitrary: cur p) auto

lemma read_field:
  assumes "sep = CHR '','' \<or> sep = CHR 0x0A"
  shows "read_csv_from Fresh [] cells (csvField f @ sep # rest) =
    (if sep = CHR '','' then read_csv_from Fresh [] (cells @ [f]) rest
     else (cells @ [f]) # read_csv_from Fresh [] [] rest)"
proof (cases "fieldNeedsQuotes f")
  case True
  then show ?thesis using assms by (auto simp: csvField_def read_quoted)
next
  case False
  then have "\<forall>c \<in> set f. c \<noteq> CHR '','' \<and> c \<noteq> CHR 0x0A \<and> c \<noteq> CHR 0x22"
    by (auto simp: fieldNeedsQuotes_def)
  then show ?thesis
    using False assms read_bare [of f Fresh "[]" cells "sep # rest"] by (auto simp: csvField_def)
qed

lemma read_line:
  "fs \<noteq> [] \<Longrightarrow> read_csv_from Fresh [] cells (csvLine fs @ rest) = (cells @ fs) # read_csv_from Fresh [] [] rest"
proof (induction fs arbitrary: cells)
  case (Cons f fs)
  show ?case
  proof (cases "fs = []")
    case True
    then show ?thesis using read_field [of "CHR 0x0A" cells f rest] by (simp add: csvLine_def)
  next
    case False
    then have "csvLine (f # fs) = csvField f @ CHR '','' # csvLine fs" by (simp add: csvLine_def Join_Cons)
    then show ?thesis
      using read_field [of "CHR '',''" cells f "csvLine fs @ rest"] Cons.IH [OF False] by simp
  qed
qed simp

lemma read_lines: "\<forall>fs \<in> set recs. fs \<noteq> [] \<Longrightarrow> read_csv (concat (map csvLine recs)) = recs"
  by (induction recs) (auto simp: read_csv_def read_line)


definition plain_json :: json_lib where
  "plain_json = \<lparr>js_decode = (\<lambda>s. Inr (VStr s)), js_encode = fmtV, js_time = Itoa\<rparr>"


section \<open>Ranges\<close>



lemma ParseRangeHeader_cases:
  assumes "ParseRangeHeader h = (limit, offset, True)"
  obtains a b start stop where "h = ''items='' @ a @ ''-'' @ b" "CHR ''-'' \<notin> set a" "CHR ''-'' \<notin> set b"
    "Atoi a = Some start" "Atoi b = Some stop" "start \<le> stop" "limit = int64 (int64 (stop - start) + 1)" "offset = start"
proof -
  from assms obtain rest where r: "SplitN h CHR ''='' 2 = [''items'', rest]"
    by (auto simp: ParseRangeHeader_def split: if_splits list.splits option.splits)
  then have h: "h = ''items='' @ rest" using SplitN_2_iff [of h "CHR ''=''"] by simp
  from assms r obtain a b where s: "Split rest CHR ''-'' = [a, b]"
    by (auto simp: ParseRangeHeader_def split: if_splits list.splits option.splits)
  then have "rest = a @ ''-'' @ b" using Join_Split [of rest "CHR ''-''"] by simp
  moreover have "CHR ''-'' \<notin> set a" "CHR ''-'' \<notin> set b" using Split_no_sep [of _ rest "CHR ''-''"] s by auto
  moreover obtain start stop where "Atoi a = Some start" "Atoi b = Some stop" "start \<le> stop"
    "limit = int64 (int64 (stop - start) + 1)" "offset = start"
    using assms r s by (auto simp: ParseRangeHeader_def split: if_splits option.splits)
  ultimately show ?thesis using that h by blast
qed

text \<open>
  C26. The \<^verbatim>\<open>Range\<close> request header.  A range written \<^verbatim>\<open>items=a-b\<close> is read as the offset \<open>a\<close> and the limit
  \<open>b - a + 1\<close>; whatever is sent, an accepted range starts at a non-negative offset, has a positive
  limit and ends within 64 bits, but for the whole range \<^verbatim>\<open>0-9223372036854775807\<close>, whose limit wraps
  to the smallest integer; a header that is not accepted leaves limit and offset unset.
\<close>

theorem ParseRangeHeader_spec:
  "(0 \<le> a \<and> a \<le> b \<and> in_int64 b \<longrightarrow>
      ParseRangeHeader (''items='' @ Itoa a @ ''-'' @ Itoa b) = (int64 (b - a + 1), a, True)) \<and>
   (case ParseRangeHeader h of (limit, offset, ok) \<Rightarrow>
      if ok then 0 \<le> offset \<and> (1 \<le> limit \<and> offset + limit \<le> 2 ^ 63 \<or> limit = - (2 ^ 63) \<and> offset = 0)
      else limit = -1 \<and> offset = 0)"
proof
  show "0 \<le> a \<and> a \<le> b \<and> in_int64 b \<longrightarrow>
      ParseRangeHeader (''items='' @ Itoa a @ ''-'' @ Itoa b) = (int64 (b - a + 1), a, True)"
  proof
    assume h: "0 \<le> a \<and> a \<le> b \<and> in_int64 b"
    then have r: "in_int64 a" "in_int64 (b - a)" by (auto simp: in_int64_def)
    have digits: "CHR ''-'' \<notin> set (Itoa i)" if "0 \<le> i" for i
      using that nat_text_digits [of "nat i"] by (auto simp: Itoa_def)
    have "SplitN (''items='' @ Itoa a @ ''-'' @ Itoa b) CHR ''='' 2 = [''items'', Itoa a @ ''-'' @ Itoa b]"
      by (simp add: SplitN_2_iff)
    moreover have "Split (Itoa a @ ''-'' @ Itoa b) CHR ''-'' = [Itoa a, Itoa b]"
      using h Split_append_sep [OF digits, of a "Itoa b"] Split_no_occurrence [OF digits, of b] by simp
    ultimately show "ParseRangeHeader (''items='' @ Itoa a @ ''-'' @ Itoa b) = (int64 (b - a + 1), a, True)"
      using h r by (simp add: ParseRangeHeader_def Atoi_Itoa)
  qed
next
  obtain limit offset ok where p: "ParseRangeHeader h = (limit, offset, ok)" by (cases "ParseRangeHeader h")
  show "case ParseRangeHeader h of (limit, offset, ok) \<Rightarrow>
      if ok then 0 \<le> offset \<and> (1 \<le> limit \<and> offset + limit \<le> 2 ^ 63 \<or> limit = - (2 ^ 63) \<and> offset = 0)
      else limit = -1 \<and> offset = 0"
  proof (cases ok)
    case False
    with p show ?thesis by (auto simp: ParseRangeHeader_def split: if_splits list.splits option.splits)
  next
    case True
    with p obtain a b start stop where r: "CHR ''-'' \<notin> set a" "Atoi a = Some start" "Atoi b = Some stop"
      "start \<le> stop" "limit = int64 (int64 (stop - start) + 1)" "offset = start"
      by (auto elim: ParseRangeHeader_cases)
    have pos: "0 \<le> start" "stop < 2 ^ 63" "in_int64 (stop - start)"
      using Atoi_nonneg [OF r(2,1)] Atoi_in_int64 [OF r(3)] r(4) by (auto simp: in_int64_def)
    show ?thesis
    proof (cases "stop - start = 2 ^ 63 - 1")
      case True
      then have "start = 0" "limit = int64 (2 ^ 63)" using pos r(5) by auto
      moreover have "int64 (2 ^ 63) = - (2 ^ 63)" by (simp add: int64_def)
      ultimately show ?thesis using p \<open>ok\<close> r(6) by simp
    next
      case False
      then have "in_int64 (stop - start + 1)" using pos r(4) by (auto simp: in_int64_def)
      then have "limit = stop - start + 1" using pos(3) r(5) by simp
      then show ?thesis using p \<open>ok\<close> r(4,6) pos by simp
    qed
  qed
qed

theorem ParseRangeHeader_spec_witness: "ParseRangeHeader ''items=10-19'' = (10, 10, True)"
proof -
  have t: "Itoa 10 = ''10''" "Itoa 19 = ''19''" by code_simp+
  show ?thesis using ParseRangeHeader_spec [of 10 19 "[]"] by (simp add: t in_int64_def)
qed

end
