(* ===== verification/Handlers.thy ===== *)
theory Handlers
  imports Statements Response
begin

text \<open>
  \<^verbatim>\<open>internal/api/handler.go\<close>: the handlers of the table routes.

  A handler takes the request, the store and the database and gives the reply and the database
  after it.  The database is a parameter: what \<^verbatim>\<open>DB.Exec\<close>, \<^verbatim>\<open>DB.Query\<close> and \<^verbatim>\<open>QueryRow\<close> do with a text and
  its arguments.  A handler that dereferences a nil pointer panics; \<^verbatim>\<open>gin.Recovery\<close> deals with it.
\<close>

section \<open>The database and the replies\<close>

text \<open>
  A call that fails leaves the database as it was.  \<open>sv_pairs\<close>, \<open>sv_ordS\<close> and \<open>sv_ordJ\<close> are the orders in
  which the maps of the query and of the schemas are visited.
\<close>

record 'db server =
  sv_exec :: "string \<Rightarrow> val list \<Rightarrow> 'db \<Rightarrow> string + ('db \<times> int)"
  sv_query :: "string \<Rightarrow> val list \<Rightarrow> 'db \<Rightarrow> string + ('db \<times> rowset)"
  sv_count :: "string \<Rightarrow> val list \<Rightarrow> 'db \<Rightarrow> string + int"
  sv_js :: json_lib
  sv_pairs :: "(string \<times> string) list \<Rightarrow> (string \<times> string) list"
  sv_ordS :: "nat \<Rightarrow> string list \<Rightarrow> string list"
  sv_ordJ :: "nat \<Rightarrow> string list \<Rightarrow> string list"

datatype reply = Reply response | Crash

type_synonym 'db handled = "'db \<Rightarrow> reply \<times> 'db"

definition respond :: "response \<Rightarrow> 'db handled" where
  "respond rs db = (Reply rs, db)"

definition refuse :: "int \<Rightarrow> Error \<Rightarrow> 'db handled" where
  "refuse status e = respond (reply_error status e)"

text \<open>Go on with the value of a step that may fail or panic.\<close>

definition proceed :: "'a outcome \<Rightarrow> (string \<Rightarrow> 'db handled) \<Rightarrow> ('a \<Rightarrow> 'db handled) \<Rightarrow> 'db handled" where
  "proceed m onError f =
     (case m of Ok x \<Rightarrow> f x | outcome.Error e \<Rightarrow> onError e | Panic \<Rightarrow> (\<lambda>db. (Crash, db)))"

section \<open>Shared pieces\<close>

definition resolveTable :: "SchemaStore \<Rightarrow> request \<Rightarrow> Table option \<times> string \<times> string" where
  "resolveTable store rq =
     (let tableName = Param rq ''table'';
          schemaName =
            (if Param rq ''schema'' = [] then
               (if GetHeader rq ''Content-Profile'' \<noteq> [] then GetHeader rq ''Content-Profile''
                else if GetHeader rq ''Accept-Profile'' \<noteq> [] then GetHeader rq ''Accept-Profile''
                else Param rq ''schema'')
             else Param rq ''schema'')
      in (GetTable store schemaName tableName, tableName, schemaName))"

definition parseParams :: "'db server \<Rightarrow> request \<Rightarrow> Table \<Rightarrow> Params outcome" where
  "parseParams sv rq table =
     Parse (sv_pairs sv) (rq_RawQuery rq) (\<lambda>col. map_of (tbl_Columns table) col \<noteq> None)"

text \<open>The count is made for the schema with the empty name.\<close>

definition executeCount :: "'db server \<Rightarrow> Table \<Rightarrow> Params \<Rightarrow> 'db \<Rightarrow> int outcome" where
  "executeCount sv table params db =
     obind (BuildCount (NewBuilder (Some table) params '''')) (\<lambda>(sqlQuery, args).
       (case sv_count sv sqlQuery (map VStr args) db of Inl e \<Rightarrow> outcome.Error e | Inr n \<Rightarrow> Ok n))"

definition parsePrefer :: "string \<Rightarrow> string list" where
  "parsePrefer header =
     (if header = [] then []
      else filter (\<lambda>part. part \<noteq> []) (map TrimSpace (Split header CHR '','')))"

definition hasPrefer :: "string list \<Rightarrow> string \<Rightarrow> bool" where
  "hasPrefer prefer v = list_ex (\<lambda>p. Contains p v) prefer"

definition fmtVal :: "json_lib \<Rightarrow> val \<Rightarrow> val" where
  "fmtVal js v =
     (case v of
        VObj kvs \<Rightarrow> VStr (js_encode js v)
      | VArr vs \<Rightarrow> VStr (js_encode js v)
      | _ \<Rightarrow> v)"

definition toInterface :: "json_lib \<Rightarrow> val \<Rightarrow> val" where
  "toInterface js v =
     (case v of
        VBytes b \<Rightarrow> (case js_decode js b of Inr j \<Rightarrow> j | Inl _ \<Rightarrow> VStr b)
      | _ \<Rightarrow> v)"

definition buildWhereFromParams :: "Params \<Rightarrow> nat \<Rightarrow> clause outcome" where
  "buildWhereFromParams params argIdx = BuildWherePublic (NewBuilder None params '''') argIdx"

text \<open>\<^verbatim>\<open>rows.Scan\<close> into \<open>n\<close> destinations.\<close>

definition Scan :: "nat \<Rightarrow> string + val list \<Rightarrow> string + val list" where
  "Scan n row =
     (case row of
        Inl e \<Rightarrow> Inl e
      | Inr vals \<Rightarrow>
          if length vals = n then Inr vals
          else Inl (''sql: expected '' @ nat_text (length vals) @ '' destination arguments in Scan, not '' @ nat_text n))"

definition rowMap :: "json_lib \<Rightarrow> string list \<Rightarrow> val list \<Rightarrow> (string \<times> val) list" where
  "rowMap js cols vals = fold (\<lambda>(c, v). AList.update c (toInterface js v)) (zip cols vals) []"

definition writeSingular :: "json_lib \<Rightarrow> rowset \<Rightarrow> string list \<Rightarrow> response \<Rightarrow> response" where
  "writeSingular js rows cols rs =
     (case rw_rows rows of
        [] \<Rightarrow> c_Status 404 rs
      | r # _ \<Rightarrow>
          (case Scan (length cols) r of
             Inl e \<Rightarrow> c_JSON 500 (error_json (ErrDatabase e)) rs
           | Inr vals \<Rightarrow> WriteSingularJSON (rowMap js cols vals) rs))"

text \<open>What every write begins with: the table, which must not be a view, and for most the body.\<close>

definition on_table :: "SchemaStore \<Rightarrow> request \<Rightarrow> (Table \<Rightarrow> string \<Rightarrow> 'db handled) \<Rightarrow> 'db handled" where
  "on_table store rq k =
     (case resolveTable store rq of
        (None, tableName, _) \<Rightarrow> refuse 404 (ErrTableNotFound tableName)
      | (Some table, _, schemaName) \<Rightarrow> k table schemaName)"

definition view_message :: "string \<Rightarrow> string \<Rightarrow> string \<Rightarrow> string" where
  "view_message method schemaName tableName =
     ''Method '' @ method @ '' is not allowed on view '' @ schemaName @ ''.'' @ tableName @ '': views are read-only''"

definition on_writable ::
    "string \<Rightarrow> SchemaStore \<Rightarrow> request \<Rightarrow> (Table \<Rightarrow> 'db handled) \<Rightarrow> 'db handled" where
  "on_writable method store rq k =
     on_table store rq (\<lambda>table schemaName.
       if tbl_IsView table then
         respond (c_JSON 405 (obj_text [(''code'', ''PGRST201''),
           (''message'', view_message method schemaName (Param rq ''table''))]) new_response)
       else k table)"

definition with_body :: "request \<Rightarrow> (string \<Rightarrow> 'db handled) \<Rightarrow> 'db handled" where
  "with_body rq k =
     (case rq_Body rq of
        Inl e \<Rightarrow> refuse 422 (ErrInvalidBody e)
      | Inr body \<Rightarrow> if body = [] then refuse 422 (ErrInvalidBody ''Empty request body'') else k body)"

definition with_columns :: "Table \<Rightarrow> string list \<Rightarrow> string \<Rightarrow> 'db handled \<Rightarrow> 'db handled" where
  "with_columns table columns nothing k =
     (case find (\<lambda>col. map_of (tbl_Columns table) col = None) columns of
        Some col \<Rightarrow> refuse 400 (ErrInvalidColumn col)
      | None \<Rightarrow> if columns = [] then refuse 422 (ErrInvalidBody nothing) else k)"

definition exec ::
    "'db server \<Rightarrow> string \<Rightarrow> val list \<Rightarrow> (string \<Rightarrow> response) \<Rightarrow> (int \<Rightarrow> response) \<Rightarrow> 'db handled" where
  "exec sv sqlQuery args onError onOk db =
     (case sv_exec sv sqlQuery args db of
        Inl e \<Rightarrow> (Reply (onError e), db)
      | Inr (db', affected) \<Rightarrow> (Reply (onOk affected), db'))"

definition db_error :: "string \<Rightarrow> response" where
  "db_error e = reply_error 500 (ErrDatabase e)"

section \<open>Reading\<close>

text \<open>The limit and offset of a GET: the query's, else those of the \<^verbatim>\<open>Range\<close> header, else 1000 rows.\<close>

definition pageOf :: "request \<Rightarrow> Params \<Rightarrow> Params" where
  "pageOf rq params =
     (let (rLimit, rOffset, ok) = ParseRangeHeader (GetHeader rq ''Range'');
          r = par_Range params;
          limit1 = (if ok \<and> rng_Limit r < 0 then rLimit else rng_Limit r);
          offset1 = (if ok \<and> rng_Offset r = 0 \<and> 0 < rOffset then rOffset else rng_Offset r);
          limit2 = (if limit1 < 0 then 1000 else limit1)
      in params\<lparr>par_Range := \<lparr>rng_Limit = limit2, rng_Offset = offset1\<rparr>\<rparr>)"

text \<open>The rows as the client wants them.\<close>

definition answerRows :: "json_lib \<Rightarrow> request \<Rightarrow> string list \<Rightarrow> rowset \<Rightarrow> response \<Rightarrow> response" where
  "answerRows js rq cols rows rs =
     (let accept = GetHeader rq ''Accept''
      in if Contains accept ''text/csv'' then WriteCSV js rq cols (rw_rows rows) rs
         else if Contains accept ''application/vnd.pgrst.object+json'' then writeSingular js rows cols rs
         else WriteJSON js cols (rw_rows rows) rs)"

definition HandleGet :: "'db server \<Rightarrow> SchemaStore \<Rightarrow> request \<Rightarrow> 'db handled" where
  "HandleGet sv store rq =
     on_table store rq (\<lambda>table _.
     proceed (parseParams sv rq table) (\<lambda>e. refuse 400 (ErrInvalidFilter e)) (\<lambda>params0 db.
       let params = pageOf rq params0
       in proceed (if HasCount params then executeCount sv table params db else Ok 0)
            (\<lambda>e. respond (db_error e)) (\<lambda>countTotal.
          proceed (BuildSelect (sv_ordS sv) (sv_ordJ sv)
                 (NewBuilderWithStore (Some table) params (tbl_SchemaName table) (Some store)))
            (\<lambda>e. refuse 400 (ErrInvalidFilter e)) (\<lambda>(sqlQuery, args) db.
            (case sv_query sv sqlQuery (map VStr args) db of
               Inl e \<Rightarrow> (Reply (db_error e), db)
             | Inr (db', rows) \<Rightarrow>
                 (case rw_cols rows of
                    Inl e \<Rightarrow> (Reply (db_error e), db')
                  | Inr cols \<Rightarrow>
                      let rs = (if HasCount params \<and> 0 < countTotal
                                then SetRangeHeaders (rng_Limit (par_Range params)) (rng_Offset (par_Range params))
                                       countTotal new_response
                                else new_response)
                      in (Reply (answerRows (sv_js sv) rq cols rows rs), db'))))) db))"

definition HandleHead :: "'db server \<Rightarrow> SchemaStore \<Rightarrow> request \<Rightarrow> 'db handled" where
  "HandleHead sv store rq =
     (case resolveTable store rq of
        (None, _) \<Rightarrow> respond (c_Status 404 new_response)
      | (Some table, _) \<Rightarrow>
          proceed (parseParams sv rq table) (\<lambda>e. respond (c_Status 400 new_response)) (\<lambda>params db.
            proceed (executeCount sv table params db) (\<lambda>e. respond (c_Status 500 new_response)) (\<lambda>countTotal.
              let limit = (if rng_Limit (par_Range params) < 0 then 1000 else rng_Limit (par_Range params))
              in respond (c_Status 200 (SetRangeHeaders limit (rng_Offset (par_Range params)) countTotal new_response))) db))"

definition columnInfo :: "Column \<Rightarrow> val" where
  "columnInfo col = VObj [(''name'', VStr (col_Name col)), (''data_type'', VStr (col_DataType col)),
     (''nullable'', VBool (col_IsNullable col)), (''is_pk'', VBool (col_IsPK col)),
     (''is_unique'', VBool (col_IsUnique col)), (''default'', VStr (col_DefaultValue col))]"

definition keyInfo :: "ForeignKey \<Rightarrow> val" where
  "keyInfo fk = obj_text [(''constraint_name'', fk_ConstraintName fk), (''column'', fk_ColumnName fk),
     (''ref_table'', fk_RefTable fk), (''ref_column'', fk_RefColumn fk), (''on_delete'', fk_OnDelete fk),
     (''on_update'', fk_OnUpdate fk)]"

definition HandleOptions :: "SchemaStore \<Rightarrow> request \<Rightarrow> 'db handled" where
  "HandleOptions store rq =
     (case resolveTable store rq of
        (None, _) \<Rightarrow> respond (c_Status 404 new_response)
      | (Some table, _) \<Rightarrow>
          respond (c_JSON 200
            (VObj [(''table_name'', VStr (tbl_Name table)), (''schema'', VStr (tbl_SchemaName table)),
                   (''is_view'', VBool (tbl_IsView table)), (''primary_key'', VStr (tbl_PK table)),
                   (''columns'', VArr (map columnInfo (OrderedColumns table))),
                   (''foreign_keys'', VArr (map keyInfo (tbl_ForeignKeys table)))])
            (set_header ''Allow''
              (if tbl_IsView table then ''GET, HEAD, OPTIONS'' else ''GET, HEAD, POST, PUT, PATCH, DELETE, OPTIONS'')
              new_response)))"

section \<open>Writing\<close>

text \<open>The rows of a POST: an array of objects, or one object.\<close>

definition bodyRows :: "json_lib \<Rightarrow> string \<Rightarrow> string + (string \<times> val) list list" where
  "bodyRows js body =
     (if hd body = CHR ''['' then decode_maps js body
      else (case decode_map js body of Inl e \<Rightarrow> Inl e | Inr r \<Rightarrow> Inr [r]))"

definition rowArgs :: "json_lib \<Rightarrow> string list \<Rightarrow> (string \<times> val) list \<Rightarrow> val list" where
  "rowArgs js columns r =
     map (\<lambda>col. case map_of r col of None \<Rightarrow> VNil | Some v \<Rightarrow> fmtVal js v) columns"

fun valuePlaceholders :: "nat \<Rightarrow> string list \<Rightarrow> (string \<times> val) list list \<Rightarrow> string list" where
  "valuePlaceholders argIdx columns [] = []"
| "valuePlaceholders argIdx columns (r # rowsData) =
     (let rowPH = map (\<lambda>(i, _). Placeholder i) (enumerate argIdx columns)
      in (''('' @ Join rowPH '', '' @ '')'') # valuePlaceholders (argIdx + length columns) columns rowsData)"

definition postText :: "Table \<Rightarrow> string list \<Rightarrow> (string \<times> val) list list \<Rightarrow> string" where
  "postText table columns rowsData =
     ''INSERT INTO '' @ QualifiedName table @ '' ('' @ Join columns '', '' @ '') VALUES '' @
     Join (valuePlaceholders 1 columns rowsData) '', ''"

text \<open>The conflict columns of \<^verbatim>\<open>on_conflict\<close>, or the primary key; \<open>Inl\<close> is a column the table does not have.\<close>

definition conflictColumns :: "Table \<Rightarrow> string \<Rightarrow> string + string list" where
  "conflictColumns table onConflict =
     (if onConflict \<noteq> [] then
        (let cols = filter (\<lambda>col. col \<noteq> []) (map TrimSpace (Split onConflict CHR '',''))
         in (case find (\<lambda>col. map_of (tbl_Columns table) col = None) cols of
               Some col \<Rightarrow> Inl col
             | None \<Rightarrow> Inr cols))
      else Inr (if tbl_PK table \<noteq> [] then [tbl_PK table] else []))"

definition onConflictText :: "string list \<Rightarrow> string list \<Rightarrow> string" where
  "onConflictText columns conflictCols =
     (let setClauses = map (\<lambda>col. col @ '' = EXCLUDED.'' @ col)
                         (filter (\<lambda>col. \<not> list_ex (\<lambda>cc. col = cc) conflictCols) columns)
      in '' ON CONFLICT ('' @ Join conflictCols '', '' @ '') '' @
         (if 0 < length setClauses then ''DO UPDATE SET '' @ Join setClauses '', '' else ''DO NOTHING''))"

definition resolution :: "Table \<Rightarrow> request \<Rightarrow> string list \<Rightarrow> string list \<Rightarrow> string + string" where
  "resolution table rq prefer columns =
     (if hasPrefer prefer ''resolution=merge-duplicates'' then
        (case conflictColumns table (Query rq ''on_conflict'') of
           Inl col \<Rightarrow> Inl col
         | Inr [] \<Rightarrow> Inr []
         | Inr cols \<Rightarrow> Inr (onConflictText columns cols))
      else if hasPrefer prefer ''resolution=ignore-duplicates'' then Inr '' ON CONFLICT DO NOTHING''
      else Inr [])"

definition insert_error :: "string \<Rightarrow> response" where
  "insert_error e = (if Contains e ''duplicate key'' then reply_error 409 (ErrConflict e) else db_error e)"

definition HandlePost :: "'db server \<Rightarrow> SchemaStore \<Rightarrow> request \<Rightarrow> 'db handled" where
  "HandlePost sv store rq =
     on_writable ''POST'' store rq (\<lambda>table.
     with_body rq (\<lambda>body.
       (let prefer = parsePrefer (GetHeader rq ''Prefer'')
        in (case bodyRows (sv_js sv) body of
              Inl e \<Rightarrow> refuse 422 (ErrInvalidBody e)
            | Inr [] \<Rightarrow> refuse 422 (ErrInvalidBody ''Empty array'')
            | Inr (r # rs) \<Rightarrow>
                (let rowsData = r # rs; columns = map fst r
                 in with_columns table columns ''No valid columns''
                      (let allArgs = concat (map (rowArgs (sv_js sv) columns) rowsData)
                       in (case resolution table rq prefer columns of
                             Inl col \<Rightarrow> refuse 400 (ErrInvalidColumn col)
                           | Inr onConflict \<Rightarrow>
                               exec sv (postText table columns rowsData @ onConflict) allArgs insert_error
                                 (\<lambda>affected. WriteInserted affected prefer))))))))"

definition HandlePatch :: "'db server \<Rightarrow> SchemaStore \<Rightarrow> request \<Rightarrow> 'db handled" where
  "HandlePatch sv store rq =
     on_writable ''PATCH'' store rq (\<lambda>table.
     with_body rq (\<lambda>body.
       (case decode_map (sv_js sv) body of
          Inl e \<Rightarrow> refuse 422 (ErrInvalidBody e)
        | Inr updateData \<Rightarrow>
            (let prefer = parsePrefer (GetHeader rq ''Prefer'')
             in proceed (parseParams sv rq table) (\<lambda>e. refuse 400 (ErrInvalidFilter e)) (\<lambda>params.
                with_columns table (map fst updateData) ''No valid columns to update''
                  (let setCols = map (\<lambda>(i, col, _). col @ '' = '' @ Placeholder i) (enumerate 1 updateData);
                       setArgs = map (\<lambda>(_, v). fmtVal (sv_js sv) v) updateData;
                       argIdx = 1 + length updateData
                   in proceed (buildWhereFromParams params argIdx) (\<lambda>e. refuse 400 (ErrInvalidFilter e))
                        (\<lambda>(whereClause, whereArgs, _).
                          exec sv
                            (''UPDATE '' @ QualifiedName table @ '' SET '' @ Join setCols '', '' @
                             (if whereClause \<noteq> [] then '' WHERE '' @ whereClause else []))
                            (setArgs @ map VStr whereArgs) db_error
                            (\<lambda>affected. WriteUpdated affected prefer))))))))"

definition putText :: "Table \<Rightarrow> string list \<Rightarrow> string" where
  "putText table columns =
     (let setClauses = map (\<lambda>col. col @ '' = EXCLUDED.'' @ col) (filter (\<lambda>col. col \<noteq> tbl_PK table) columns)
      in ''INSERT INTO '' @ QualifiedName table @ '' ('' @ Join columns '', '' @ '') VALUES ('' @
         Join (map (\<lambda>(i, _). Placeholder (i + 1)) (enumerate 0 columns)) '', '' @ '')'' @
         '' ON CONFLICT ('' @ tbl_PK table @ '') DO UPDATE SET '' @
         (if 0 < length setClauses then Join setClauses '', '' else ''DO NOTHING''))"

text \<open>The row that \<^verbatim>\<open>RETURNING *\<close> gives back, scanned as the columns the store knows.\<close>

definition putReturning :: "'db server \<Rightarrow> Table \<Rightarrow> string \<Rightarrow> val list \<Rightarrow> 'db handled" where
  "putReturning sv table sqlQuery allArgs db =
     (let returnCols = map col_Name (OrderedColumns table)
      in (case sv_query sv (sqlQuery @ '' RETURNING *'') allArgs db of
            Inl e \<Rightarrow> (Reply (db_error e), db)
          | Inr (db', rows) \<Rightarrow>
              (Reply (case rw_rows rows of
                 [] \<Rightarrow> c_Status 201 new_response
               | r # _ \<Rightarrow>
                   (case Scan (length returnCols) r of
                      Inl e \<Rightarrow> db_error e
                    | Inr vals \<Rightarrow> WriteSingularJSON (rowMap (sv_js sv) returnCols vals) new_response)), db')))"

definition HandlePut :: "'db server \<Rightarrow> SchemaStore \<Rightarrow> request \<Rightarrow> 'db handled" where
  "HandlePut sv store rq =
     on_writable ''PUT'' store rq (\<lambda>table.
     if tbl_PK table = [] then refuse 400 (ErrMethodNotAllowed ''Table has no primary key for upsert'')
     else with_body rq (\<lambda>body.
       (let prefer = parsePrefer (GetHeader rq ''Prefer'')
        in (case decode_map (sv_js sv) body of
              Inl e \<Rightarrow> refuse 422 (ErrInvalidBody e)
            | Inr rowData \<Rightarrow>
                (let columns = map fst rowData
                 in with_columns table columns ''No valid columns''
                      (let allArgs = map (\<lambda>col. fmtVal (sv_js sv) (the (map_of rowData col))) columns;
                           sqlQuery = putText table columns
                       in if hasPrefer prefer ''return=representation'' then putReturning sv table sqlQuery allArgs
                          else exec sv sqlQuery allArgs db_error (\<lambda>affected. WriteInserted affected prefer)))))))"

definition HandleDelete :: "'db server \<Rightarrow> SchemaStore \<Rightarrow> request \<Rightarrow> 'db handled" where
  "HandleDelete sv store rq =
     on_writable ''DELETE'' store rq (\<lambda>table.
     proceed (parseParams sv rq table) (\<lambda>e. refuse 400 (ErrInvalidFilter e)) (\<lambda>params.
       (let prefer = parsePrefer (GetHeader rq ''Prefer'')
        in proceed (BuildDelete (NewBuilder (Some table) params (tbl_SchemaName table)))
             (\<lambda>e. refuse 400 (ErrInvalidBody e)) (\<lambda>(sqlQuery, args).
               exec sv sqlQuery (map VStr args) db_error (\<lambda>affected. WriteDeleted affected prefer)))))"


section \<open>What a handler can do\<close>

text \<open>
  A refusal is an error status with the database left as it was; \<open>does P h\<close>: the handler refuses or
  does something that satisfies \<open>P\<close>.  There is one rule for each piece the handlers are made of.
\<close>

definition refused :: "'db \<Rightarrow> reply \<times> 'db \<Rightarrow> bool" where
  "refused db x \<longleftrightarrow> snd x = db \<and> (\<exists>rs. fst x = Reply rs \<and> failed rs)"

definition does :: "('db \<Rightarrow> reply \<times> 'db \<Rightarrow> bool) \<Rightarrow> 'db handled \<Rightarrow> bool" where
  "does P h \<longleftrightarrow> (\<forall>db. refused db (h db) \<or> P db (h db))"

lemma doesD: "does P h \<Longrightarrow> refused db (h db) \<or> P db (h db)"
  by (simp add: does_def)

lemma does_respond: "failed rs \<Longrightarrow> does P (respond rs)"
  by (simp add: does_def refused_def respond_def)

lemma does_refuse: "400 \<le> status \<Longrightarrow> does P (refuse status e)"
  unfolding refuse_def by (rule does_respond) (simp add: failed_def)

lemma does_proceed:
  assumes "\<And>e. m = outcome.Error e \<Longrightarrow> does P (onError e)" "\<And>x. m = Ok x \<Longrightarrow> does P (f x)"
    "\<And>db. m = Panic \<Longrightarrow> P db (Crash, db)"
  shows "does P (proceed m onError f)"
  using assms by (cases m) (auto simp: proceed_def does_def)

lemma does_on_writable:
  assumes "\<And>t. fst (resolveTable store rq) = Some t \<Longrightarrow> tbl_IsView t = False \<Longrightarrow> does P (k t)"
  shows "does P (on_writable method store rq k)"
proof (cases "resolveTable store rq")
  case (fields found tableName schemaName)
  show ?thesis
  proof (cases found)
    case None
    with fields does_refuse [of 404 P] show ?thesis by (simp add: on_writable_def on_table_def)
  next
    case (Some t)
    show ?thesis
    proof (cases "tbl_IsView t")
      case True
      with fields Some show ?thesis
        by (auto simp: on_writable_def on_table_def failed_def intro!: does_respond)
    next
      case False
      with fields Some assms [of t] show ?thesis by (simp add: on_writable_def on_table_def)
    qed
  qed
qed

lemma does_with_body:
  assumes "\<And>body. rq_Body rq = Inr body \<Longrightarrow> body \<noteq> [] \<Longrightarrow> does P (k body)"
  shows "does P (with_body rq k)"
  using assms by (cases "rq_Body rq") (auto simp: with_body_def intro: does_refuse)

lemma find_column:
  "find (\<lambda>col. map_of m col = None) cols = None \<longleftrightarrow> set cols \<subseteq> fst ` set m"
  by (auto simp: find_None_iff map_of_eq_None_iff)

lemma does_with_columns:
  assumes "set columns \<subseteq> fst ` set (tbl_Columns t) \<Longrightarrow> columns \<noteq> [] \<Longrightarrow> does P k"
  shows "does P (with_columns t columns nothing k)"
proof (cases "find (\<lambda>col. map_of (tbl_Columns t) col = None) columns")
  case None
  with assms find_column [of "tbl_Columns t" columns] show ?thesis
    by (auto simp: with_columns_def intro: does_refuse)
next
  case (Some col)
  then show ?thesis by (auto simp: with_columns_def intro: does_refuse)
qed

lemma does_exec:
  assumes "\<And>e. failed (onError e)"
    "\<And>db db' n. sv_exec sv q args db = Inr (db', n) \<Longrightarrow> P db (Reply (onOk n), db')"
  shows "does P (exec sv q args onError onOk)"
  using assms by (auto simp: does_def exec_def refused_def split: sum.split)

lemma failed_errors [simp]: "failed (db_error e)" "failed (insert_error e)"
  by (simp_all add: db_error_def insert_error_def failed_def)

section \<open>The texts of the handlers and those of the builder\<close>

lemma valuePlaceholders_rowTexts:
  "valuePlaceholders i columns rowsData = rowTexts i (length columns) (length rowsData)"
proof (induction rowsData arbitrary: i)
  case (Cons r rows)
  have "map (\<lambda>(i, _). Placeholder i) (enumerate i columns) = map Placeholder [i ..< i + length columns]"
    by (metis (mono_tags, lifting) enumerate_eq_zip length_upt add_diff_cancel_left' map_fst_zip
        split_beta map_map comp_def map_eq_conv)
  with Cons show ?case by (simp add: rowText_def Let_def)
qed simp

lemma qualifiedTable_NewBuilder:
  "qualifiedTable (NewBuilder (Some t) p (tbl_SchemaName t)) t = QualifiedName t"
  by (simp add: qualifiedTable_def QualifiedName_def NewBuilder_def)

lemma insertText_post:
  "insertText (NewBuilder (Some t) p (tbl_SchemaName t)) t columns (int (length rowsData)) = postText t columns rowsData"
  by (simp add: insertText_def postText_def qualifiedTable_NewBuilder valuePlaceholders_rowTexts)

lemma BuildInsert_post:
  assumes "columns \<noteq> []" "rowsData \<noteq> []"
  shows "BuildInsert (NewBuilder (Some t) p (tbl_SchemaName t)) columns (int (length rowsData)) =
    Ok (postText t columns rowsData, [])"
  using assms insertText_post [of t p columns rowsData]
  by (simp add: BuildInsert_def with_table_def) (simp add: NewBuilder_def)

lemma BuildUpsert_post:
  assumes "columns \<noteq> []" "rowsData \<noteq> []" "cc \<noteq> []"
  shows "BuildUpsert (NewBuilder (Some t) p (tbl_SchemaName t)) columns cc (int (length rowsData)) =
    Ok (postText t columns rowsData @ onConflictText columns cc, [])"
  using assms insertText_post [of t p columns rowsData]
  by (simp add: BuildUpsert_def with_table_def onConflictText_def Let_def) (simp add: NewBuilder_def)

lemma length_rowArgs [simp]: "length (rowArgs js columns r) = length columns"
  by (simp add: rowArgs_def)

lemma length_concat_rowArgs: "length (concat (map (rowArgs js columns) rowsData)) = length rowsData * length columns"
  by (induction rowsData) simp_all

section \<open>Inserting\<close>

text \<open>
  What a POST does when it is not refused: \<open>cc\<close> are the columns of its conflict clause (none without
  \<^verbatim>\<open>resolution=merge-duplicates\<close>), \<open>b\<close> is the builder for the table, and one statement is executed.
\<close>

definition posted :: "'db server \<Rightarrow> SchemaStore \<Rightarrow> request \<Rightarrow> 'db \<Rightarrow> reply \<times> 'db \<Rightarrow> bool" where
  "posted sv store rq db x \<longleftrightarrow>
     (\<exists>table body rowsData columns cc base affected.
        let prefer = parsePrefer (GetHeader rq ''Prefer'');
            merge = hasPrefer prefer ''resolution=merge-duplicates'';
            b = NewBuilder (Some table) emptyParams (tbl_SchemaName table);
            text = base @ (if \<not> merge \<and> hasPrefer prefer ''resolution=ignore-duplicates''
                           then '' ON CONFLICT DO NOTHING'' else []);
            args = concat (map (rowArgs (sv_js sv) columns) rowsData)
        in fst (resolveTable store rq) = Some table \<and> tbl_IsView table = False \<and>
           rq_Body rq = Inr body \<and> bodyRows (sv_js sv) body = Inr rowsData \<and> rowsData \<noteq> [] \<and>
           columns = map fst (hd rowsData) \<and> columns \<noteq> [] \<and> set columns \<subseteq> fst ` set (tbl_Columns table) \<and>
           (if merge then conflictColumns table (Query rq ''on_conflict'') = Inr cc else cc = []) \<and>
           (if cc = [] then BuildInsert b columns (int (length rowsData)) else BuildUpsert b columns cc (int (length rowsData)))
             = Ok (base, []) \<and>
           length args = length rowsData * length columns \<and>
           sv_exec sv text args db = Inr (snd x, affected) \<and>
           fst x = Reply (WriteInserted affected prefer))"

lemma resolution_text:
  assumes "resolution t rq prefer columns = Inr onConflict" "columns \<noteq> []" "rowsData \<noteq> []"
  obtains cc base where
    "if hasPrefer prefer ''resolution=merge-duplicates'' then conflictColumns t (Query rq ''on_conflict'') = Inr cc else cc = []"
    "(if cc = [] then BuildInsert (NewBuilder (Some t) p (tbl_SchemaName t)) columns (int (length rowsData))
      else BuildUpsert (NewBuilder (Some t) p (tbl_SchemaName t)) columns cc (int (length rowsData))) = Ok (base, [])"
    "postText t columns rowsData @ onConflict =
      base @ (if \<not> hasPrefer prefer ''resolution=merge-duplicates'' \<and> hasPrefer prefer ''resolution=ignore-duplicates''
              then '' ON CONFLICT DO NOTHING'' else [])"
proof (cases "hasPrefer prefer ''resolution=merge-duplicates''")
  case True
  then obtain cc where cc: "conflictColumns t (Query rq ''on_conflict'') = Inr cc"
      "onConflict = (if cc = [] then [] else onConflictText columns cc)"
    using assms(1) by (auto simp: resolution_def split: sum.splits list.splits)
  show ?thesis
    by (rule that [of cc "postText t columns rowsData @ onConflict"])
      (use True cc assms(2,3) in \<open>simp_all add: BuildInsert_post BuildUpsert_post\<close>)
next
  case False
  show ?thesis
    by (rule that [of "[]" "postText t columns rowsData"])
      (use False assms in \<open>auto simp: BuildInsert_post resolution_def split: if_splits\<close>)
qed

lemma does_insert:
  assumes t: "fst (resolveTable store rq) = Some t" "tbl_IsView t = False"
    and body: "rq_Body rq = Inr body" "bodyRows (sv_js sv) body = Inr (r # rs)"
    and cols: "set (map fst r) \<subseteq> fst ` set (tbl_Columns t)" "map fst r \<noteq> []"
    and res: "resolution t rq (parsePrefer (GetHeader rq ''Prefer'')) (map fst r) = Inr onConflict"
  shows "does (posted sv store rq)
    (exec sv (postText t (map fst r) (r # rs) @ onConflict) (concat (map (rowArgs (sv_js sv) (map fst r)) (r # rs)))
      insert_error (\<lambda>affected. WriteInserted affected (parsePrefer (GetHeader rq ''Prefer''))))"
proof (rule does_exec)
  let ?prefer = "parsePrefer (GetHeader rq ''Prefer'')"
  fix db db' n
  assume run: "sv_exec sv (postText t (map fst r) (r # rs) @ onConflict)
    (concat (map (rowArgs (sv_js sv) (map fst r)) (r # rs))) db = Inr (db', n)"
  obtain cc base where cc:
      "if hasPrefer ?prefer ''resolution=merge-duplicates'' then conflictColumns t (Query rq ''on_conflict'') = Inr cc else cc = []"
      "(if cc = [] then BuildInsert (NewBuilder (Some t) emptyParams (tbl_SchemaName t)) (map fst r) (int (length (r # rs)))
        else BuildUpsert (NewBuilder (Some t) emptyParams (tbl_SchemaName t)) (map fst r) cc (int (length (r # rs)))) = Ok (base, [])"
      "postText t (map fst r) (r # rs) @ onConflict =
        base @ (if \<not> hasPrefer ?prefer ''resolution=merge-duplicates'' \<and> hasPrefer ?prefer ''resolution=ignore-duplicates''
          then '' ON CONFLICT DO NOTHING'' else [])"
    by (rule resolution_text [OF res cols(2), of "r # rs" emptyParams]) blast+
  show "posted sv store rq db (Reply (WriteInserted n ?prefer), db')"
    unfolding posted_def Let_def
    by (rule exI [of _ t], rule exI [of _ body], rule exI [of _ "r # rs"], rule exI [of _ "map fst r"],
        rule exI [of _ cc], rule exI [of _ base], rule exI [of _ n])
      (intro conjI, use t body cols cc run length_concat_rowArgs in
        \<open>simp_all only: cc(3) list.sel fst_conv snd_conv list.distinct not_False_eq_True\<close>)
qed simp

lemma does_HandlePost: "does (posted sv store rq) (HandlePost sv store rq)"
  unfolding HandlePost_def Let_def
  by (intro does_on_writable does_with_body)
    (auto simp only: split: sum.split list.split intro!: does_refuse does_with_columns does_insert)

section \<open>Updating and deleting\<close>

text \<open>A condition that prints as the empty text has no arguments.\<close>

lemma empty_clause_args:
  assumes "\<And>x k c as j. build x k = Ok (c, as, j) \<Longrightarrow> c = [] \<Longrightarrow> as = []"
    "buildEach build xs i = Ok (cs, as, j)" "\<forall>c \<in> set cs. c = []"
  shows "as = []"
  using assms(2,3)
proof (induction xs arbitrary: i cs as j)
  case (Cons x xs)
  then obtain c as1 i1 cs' as2 where "build x i = Ok (c, as1, i1)" "buildEach build xs i1 = Ok (cs', as2, j)"
    "cs = c # cs'" "as = as1 @ as2" by (auto simp: obind_Ok_iff)
  with Cons assms(1) [of x i c as1 i1] show ?case by auto
qed simp

lemma buildFilterCondition_empty: "buildFilterCondition f i = Ok (c, as, j) \<Longrightarrow> c = [] \<Longrightarrow> as = []"
  by (auto simp: buildFilterCondition_def Let_def split: if_splits)

lemma buildLogicalCondition_empty: "buildLogicalCondition lf i = Ok (c, as, j) \<Longrightarrow> c = [] \<Longrightarrow> as = []"
  by (subst (asm) buildLogicalCondition.simps) (auto simp: Let_def obind_Ok_iff split: if_splits)

lemma buildFtsCondition_empty: "buildFtsCondition b f i = Ok (c, as, j) \<Longrightarrow> c = [] \<Longrightarrow> as = []"
  by (auto simp: buildFtsCondition_def with_table_def Let_def split: if_splits option.splits)

lemma Join_empty: "Join cs '' AND '' = [] \<Longrightarrow> \<forall>c \<in> set cs. c = []"
  by (auto simp: Join_eq_Nil)

lemma buildWhere_empty:
  assumes "buildWhere b i = Ok ([], as, j)"
  shows "as = []"
proof -
  from assms obtain cs1 as1 i1 cs2 as2 i2 cs3 as3 i3
    where w: "buildEach buildFilterCondition (par_Filters (bld_Params b)) i = Ok (cs1, as1, i1)"
      "buildEach buildLogicalCondition (par_Logicals (bld_Params b)) i1 = Ok (cs2, as2, i2)"
      "buildEach (buildFtsCondition b) (par_FtsFilters (bld_Params b)) i2 = Ok (cs3, as3, i3)"
      and c: "([], as, j) = (Join (cs1 @ cs2 @ cs3) '' AND '', if cs1 @ cs2 @ cs3 = [] then [] else as1 @ as2 @ as3, i3)"
    by (rule buildWhere_OkE)
  have "\<forall>c \<in> set (cs1 @ cs2 @ cs3). c = []" using c Join_empty by (metis prod.inject)
  then have "as1 = []" "as2 = []" "as3 = []"
    using empty_clause_args [OF buildFilterCondition_empty w(1)] empty_clause_args [OF buildLogicalCondition_empty w(2)]
      empty_clause_args [OF buildFtsCondition_empty w(3)] by auto
  then show ?thesis using c by auto
qed

text \<open>Without a table the clause is the same when there is no text search, and never built when there is one.\<close>

lemma buildWhereFromParams_eq:
  "par_FtsFilters params = [] \<Longrightarrow> buildWhereFromParams params i = buildWhere (NewBuilder (Some t) params s) i"
  by (simp add: buildWhereFromParams_def BuildWherePublic_def buildWhere_def NewBuilder_def)

lemma buildEach_Panic:
  assumes "\<And>x k. x \<in> set xs \<Longrightarrow> build x k = Panic" "buildEach build xs i = Ok cl"
  shows "xs = []"
  using assms by (cases xs) auto

lemma buildWhereFromParams_fts:
  assumes "buildWhereFromParams params i = Ok cl"
  shows "par_FtsFilters params = []"
proof -
  from assms obtain cs3 as3 i2 i3
    where "buildEach (buildFtsCondition (NewBuilder None params [])) (par_FtsFilters params) i2 = Ok (cs3, as3, i3)"
    by (auto simp: buildWhereFromParams_def BuildWherePublic_def NewBuilder_def elim!: buildWhere_OkE)
  then show ?thesis
    by (rule buildEach_Panic [rotated]) (simp add: buildFtsCondition_def with_table_def NewBuilder_def)
qed

lemma buildFilterCondition_no_panic [simp]: "buildFilterCondition f i \<noteq> Panic"
  by (simp add: buildFilterCondition_def Let_def)

lemma obind_Panic_iff: "obind m f = Panic \<longleftrightarrow> m = Panic \<or> (\<exists>x. m = Ok x \<and> f x = Panic)"
  by (cases m) auto

lemma buildEach_no_panic:
  "(\<And>x k. x \<in> set xs \<Longrightarrow> build x k \<noteq> Panic) \<Longrightarrow> buildEach build xs i \<noteq> Panic"
  by (induction xs arbitrary: i) (auto simp: obind_Panic_iff)

lemma buildLogicalCondition_no_panic [simp]: "buildLogicalCondition lf i \<noteq> Panic"
proof (induction lf arbitrary: i rule: measure_induct_rule [of size])
  case (less lf)
  have "buildEach buildLogicalCondition (lf_Logicals lf) k \<noteq> Panic" for k
    using less lf_Logicals_smaller by (intro buildEach_no_panic) auto
  then show ?case
    by (subst buildLogicalCondition.simps) (auto simp: obind_Panic_iff Let_def buildEach_no_panic)
qed

lemma buildWhere_no_panic:
  assumes "bld_Table b \<noteq> None \<or> par_FtsFilters (bld_Params b) = []"
  shows "buildWhere b i \<noteq> Panic"
proof -
  have "buildEach (buildFtsCondition b) (par_FtsFilters (bld_Params b)) k \<noteq> Panic" for k
  proof (rule buildEach_no_panic)
    fix x k assume "x \<in> set (par_FtsFilters (bld_Params b))"
    then show "buildFtsCondition b x k \<noteq> Panic"
      using assms by (auto simp: buildFtsCondition_def with_table_def Let_def split: option.split)
  qed
  then show ?thesis
    by (auto simp: buildWhere_def Let_def obind_Panic_iff buildEach_no_panic)
qed

text \<open>Parsing never panics.\<close>

lemma parseLogical_no_panic:
  "parseLogicalFilter op v cols \<noteq> Panic" "parseLogicalParts ps acc cols \<noteq> Panic"
proof (induction op v cols and ps acc cols rule: parseLogicalFilter_parseLogicalParts.induct)
  case (3 part0 parts acc cols)
  consider "TrimSpace part0 = []"
    | op rest where "TrimSpace part0 \<noteq> []" "nestedGroup (TrimSpace part0) = Some (op, rest)"
    | "TrimSpace part0 \<noteq> []" "nestedGroup (TrimSpace part0) = None"
    by (cases "nestedGroup (TrimSpace part0)") auto
  then show ?case
  proof cases
    case 3
    have "parseCondition (TrimSpace part0) cols \<noteq> Panic"
      by (auto simp: parseCondition_def Let_def split: list.split)
    with 3 "3.IH"(2) [OF refl 3] show ?thesis by (auto simp: parseLogicalParts_condition obind_Panic_iff)
  qed (use "3.IH" in \<open>auto simp: parseLogicalParts_blank parseLogicalParts_group obind_Panic_iff\<close>)
qed (simp_all add: parseLogicalFilter.simps)

lemma parsePair_no_panic: "parsePair cols kv p \<noteq> Panic"
  by (cases kv)
    (auto simp: parsePair_def Let_def obind_Panic_iff parseFilter_def parseFilterWithPrefix_def parseFtsFilter_def
      parseOrder_def parseLogical_no_panic split: option.split prod.split)

lemma parsePairs_no_panic: "parsePairs cols kvs p \<noteq> Panic"
  by (induction kvs arbitrary: p) (auto simp: obind_Panic_iff parsePair_no_panic)

lemma parseParams_no_panic [simp]: "parseParams sv rq t \<noteq> Panic"
  by (simp add: parseParams_def Parse_def parsePairs_no_panic)

text \<open>What a PATCH does when it is not refused: it panics, or executes the update of the builder.\<close>

definition patched :: "'db server \<Rightarrow> SchemaStore \<Rightarrow> request \<Rightarrow> 'db \<Rightarrow> reply \<times> 'db \<Rightarrow> bool" where
  "patched sv store rq db x \<longleftrightarrow>
     (\<exists>table body updateData params.
        let columns = map fst updateData
        in fst (resolveTable store rq) = Some table \<and> tbl_IsView table = False \<and>
           rq_Body rq = Inr body \<and> decode_map (sv_js sv) body = Inr updateData \<and>
           columns \<noteq> [] \<and> set columns \<subseteq> fst ` set (tbl_Columns table) \<and>
           parseParams sv rq table = Ok params \<and>
           (if par_FtsFilters params \<noteq> [] then x = (Crash, db)
            else \<exists>text whereArgs affected.
              BuildUpdate (NewBuilder (Some table) params (tbl_SchemaName table)) columns = Ok (text, whereArgs) \<and>
              sv_exec sv text (map (\<lambda>(_, v). fmtVal (sv_js sv) v) updateData @ map VStr whereArgs) db = Inr (snd x, affected) \<and>
              fst x = Reply (WriteUpdated affected (parsePrefer (GetHeader rq ''Prefer'')))))"

lemma setTexts_pairs:
  "map (\<lambda>(i, col, _). col @ '' = '' @ Placeholder i) (enumerate i kvs) = setTexts i (map fst kvs)"
  by (induction kvs arbitrary: i) auto

lemma BuildUpdate_patch:
  assumes "buildWhere (NewBuilder (Some t) p (tbl_SchemaName t)) (1 + length columns) = Ok (w, as, j)" "columns \<noteq> []"
  shows "BuildUpdate (NewBuilder (Some t) p (tbl_SchemaName t)) columns =
    Ok (''UPDATE '' @ QualifiedName t @ '' SET '' @ Join (setTexts 1 columns) '', '' @
        (if w \<noteq> [] then '' WHERE '' @ w else []), as)"
proof -
  have "w = [] \<Longrightarrow> as = []" using assms(1) buildWhere_empty by simp
  then show ?thesis
    using assms qualifiedTable_NewBuilder [of t p]
    by (auto simp: BuildUpdate_def with_table_def addWhere_def NewBuilder_def)
qed

lemma does_update:
  assumes t: "fst (resolveTable store rq) = Some t" "tbl_IsView t = False"
    and body: "rq_Body rq = Inr body" "decode_map (sv_js sv) body = Inr updateData"
    and params: "parseParams sv rq t = Ok params"
    and cols: "set (map fst updateData) \<subseteq> fst ` set (tbl_Columns t)" "map fst updateData \<noteq> []"
    and w: "buildWhereFromParams params (1 + length updateData) = Ok (w, as, j)"
  shows "does (patched sv store rq)
    (exec sv (''UPDATE '' @ QualifiedName t @ '' SET '' @
        Join (map (\<lambda>(i, col, _). col @ '' = '' @ Placeholder i) (enumerate 1 updateData)) '', '' @
        (if w \<noteq> [] then '' WHERE '' @ w else []))
      (map (\<lambda>(_, v). fmtVal (sv_js sv) v) updateData @ map VStr as) db_error
      (\<lambda>affected. WriteUpdated affected (parsePrefer (GetHeader rq ''Prefer''))))"
proof (rule does_exec)
  have fts: "par_FtsFilters params = []" by (rule buildWhereFromParams_fts [OF w])
  have "buildWhere (NewBuilder (Some t) params (tbl_SchemaName t)) (1 + length (map fst updateData)) = Ok (w, as, j)"
    using w buildWhereFromParams_eq [OF fts] by simp
  note update = BuildUpdate_patch [OF this cols(2)]
  fix db db' n
  assume "sv_exec sv (''UPDATE '' @ QualifiedName t @ '' SET '' @
        Join (map (\<lambda>(i, col, _). col @ '' = '' @ Placeholder i) (enumerate 1 updateData)) '', '' @
        (if w \<noteq> [] then '' WHERE '' @ w else []))
      (map (\<lambda>(_, v). fmtVal (sv_js sv) v) updateData @ map VStr as) db = Inr (db', n)"
  note run = this [unfolded setTexts_pairs]
  show "patched sv store rq db (Reply (WriteUpdated n (parsePrefer (GetHeader rq ''Prefer''))), db')"
    unfolding patched_def Let_def
    by (rule exI [of _ t], rule exI [of _ body], rule exI [of _ updateData], rule exI [of _ params])
      (use t body params cols fts update run in simp)
qed simp

lemma does_HandlePatch: "does (patched sv store rq) (HandlePatch sv store rq)"
  unfolding HandlePatch_def Let_def
proof (intro does_on_writable does_with_body, goal_cases)
  case (1 t body)
  show ?case
  proof (cases "decode_map (sv_js sv) body")
    case (Inl e)
    then show ?thesis by (simp add: does_refuse)
  next
    case (Inr updateData)
    have panic: "patched sv store rq db (Crash, db)"
      if "buildWhereFromParams params (1 + length updateData) = Panic" "parseParams sv rq t = Ok params"
        "set (map fst updateData) \<subseteq> fst ` set (tbl_Columns t)" "map fst updateData \<noteq> []" for params db
    proof -
      have "par_FtsFilters params \<noteq> []"
        using that(1) buildWhere_no_panic [of "NewBuilder None params []"]
        by (auto simp: buildWhereFromParams_def BuildWherePublic_def NewBuilder_def)
      with that 1 Inr show ?thesis unfolding patched_def Let_def by auto
    qed
    note no_panic = parseParams_no_panic [of sv rq t]
    then show ?thesis
      unfolding Inr sum.case
      by (intro does_proceed does_with_columns)
        (auto simp only: prod.case split: prod.split simp: no_panic intro!: does_refuse does_update [OF 1(1,2,3) Inr] panic)
  qed
qed

text \<open>
  What a PUT does when it is not refused: the text is the upsert of one row on the primary key, but
  when the row holds nothing else.  With \<^verbatim>\<open>return=representation\<close> the row is written and read back.
\<close>

definition put_text :: "Table \<Rightarrow> string list \<Rightarrow> string \<Rightarrow> bool" where
  "put_text table columns text \<longleftrightarrow>
     (let b = NewBuilder (Some table) emptyParams (tbl_SchemaName table)
      in if set columns \<subseteq> {tbl_PK table}
         then \<exists>base. BuildInsert b columns 1 = Ok (base, []) \<and>
                text = base @ '' ON CONFLICT ('' @ tbl_PK table @ '') DO UPDATE SET DO NOTHING''
         else BuildUpsert b columns [tbl_PK table] 1 = Ok (text, []))"

definition put_done :: "'db server \<Rightarrow> SchemaStore \<Rightarrow> request \<Rightarrow> 'db \<Rightarrow> reply \<times> 'db \<Rightarrow> bool" where
  "put_done sv store rq db x \<longleftrightarrow>
     (\<exists>table body rowData text.
        let columns = map fst rowData; args = map (\<lambda>col. fmtVal (sv_js sv) (the (map_of rowData col))) columns;
            prefer = parsePrefer (GetHeader rq ''Prefer'')
        in fst (resolveTable store rq) = Some table \<and> tbl_IsView table = False \<and> tbl_PK table \<noteq> [] \<and>
           rq_Body rq = Inr body \<and> decode_map (sv_js sv) body = Inr rowData \<and>
           columns \<noteq> [] \<and> set columns \<subseteq> fst ` set (tbl_Columns table) \<and> put_text table columns text \<and>
           (if hasPrefer prefer ''return=representation''
            then \<exists>rows. sv_query sv (text @ '' RETURNING *'') args db = Inr (snd x, rows)
            else \<exists>affected. sv_exec sv text args db = Inr (snd x, affected) \<and> fst x = Reply (WriteInserted affected prefer)))"

lemma does_if: "(c \<Longrightarrow> does P h) \<Longrightarrow> (\<not> c \<Longrightarrow> does P h') \<Longrightarrow> does P (if c then h else h')"
  by simp

lemma rowText_put: "''('' @ Join (map (\<lambda>(i, _). Placeholder (i + 1)) (enumerate 0 columns)) '', '' @ '')'' = rowText 1 (length columns)"
proof -
  have "map (\<lambda>(i, _). Placeholder (i + 1)) (enumerate 0 columns) = map Placeholder [1 ..< 1 + length columns]"
    by (rule nth_equalityI) (auto simp: nth_enumerate_eq simp del: upt_Suc)
  then show ?thesis by (simp add: rowText_def)
qed

lemma put_text_ok:
  assumes "columns \<noteq> []" "tbl_PK table \<noteq> []"
  shows "put_text table columns (putText table columns)"
proof -
  let ?b = "NewBuilder (Some table) emptyParams (tbl_SchemaName table)"
  have ins: "putText table columns =
      insertText ?b table columns 1 @ '' ON CONFLICT ('' @ tbl_PK table @ '') DO UPDATE SET '' @
      (if set columns \<subseteq> {tbl_PK table} then ''DO NOTHING''
       else Join (map (\<lambda>col. col @ '' = EXCLUDED.'' @ col) (filter (\<lambda>col. col \<noteq> tbl_PK table) columns)) '', '')"
    using rowText_put [of columns]
    by (auto simp: putText_def insertText_def qualifiedTable_NewBuilder Let_def filter_empty_conv)
  show ?thesis
    using assms(1) unfolding put_text_def Let_def ins
    by (auto simp: BuildInsert_def BuildUpsert_def with_table_def Let_def NewBuilder_def filter_empty_conv)
qed

lemma does_put:
  assumes t: "fst (resolveTable store rq) = Some t" "tbl_IsView t = False" "tbl_PK t \<noteq> []"
    and body: "rq_Body rq = Inr body" "decode_map (sv_js sv) body = Inr rowData"
    and cols: "set (map fst rowData) \<subseteq> fst ` set (tbl_Columns t)" "map fst rowData \<noteq> []"
  shows "does (put_done sv store rq)
    (let allArgs = map (\<lambda>col. fmtVal (sv_js sv) (the (map_of rowData col))) (map fst rowData);
         sqlQuery = putText t (map fst rowData)
     in if hasPrefer (parsePrefer (GetHeader rq ''Prefer'')) ''return=representation''
        then putReturning sv t sqlQuery allArgs
        else exec sv sqlQuery allArgs db_error (\<lambda>affected. WriteInserted affected (parsePrefer (GetHeader rq ''Prefer''))))"
proof -
  let ?args = "map (\<lambda>col. fmtVal (sv_js sv) (the (map_of rowData col))) (map fst rowData)"
  have intro: "put_done sv store rq db x"
    if "if hasPrefer (parsePrefer (GetHeader rq ''Prefer'')) ''return=representation''
        then \<exists>rows. sv_query sv (putText t (map fst rowData) @ '' RETURNING *'') ?args db = Inr (snd x, rows)
        else \<exists>affected. sv_exec sv (putText t (map fst rowData)) ?args db = Inr (snd x, affected) \<and>
          fst x = Reply (WriteInserted affected (parsePrefer (GetHeader rq ''Prefer'')))" for db x
    unfolding put_done_def Let_def
    by (rule exI [of _ t], rule exI [of _ body], rule exI [of _ rowData], rule exI [of _ "putText t (map fst rowData)"])
      (use t body cols put_text_ok [OF cols(2) t(3)] that in simp)
  show ?thesis
  proof (cases "hasPrefer (parsePrefer (GetHeader rq ''Prefer'')) ''return=representation''")
    case True
    have "refused db (putReturning sv t (putText t (map fst rowData)) ?args db) \<or>
        put_done sv store rq db (putReturning sv t (putText t (map fst rowData)) ?args db)" for db
    proof (cases "sv_query sv (putText t (map fst rowData) @ '' RETURNING *'') ?args db")
      case (Inl e)
      then show ?thesis by (simp add: putReturning_def refused_def Let_def)
    next
      case (Inr y)
      then obtain db' rows where y: "sv_query sv (putText t (map fst rowData) @ '' RETURNING *'') ?args db = Inr (db', rows)"
        by (cases y) simp
      then have "snd (putReturning sv t (putText t (map fst rowData)) ?args db) = db'"
        by (simp add: putReturning_def Let_def)
      then show ?thesis using y True by (intro disjI2 intro) simp
    qed
    then show ?thesis using True by (simp add: Let_def does_def)
  next
    case False
    then show ?thesis unfolding Let_def by (simp only: if_False) (rule does_exec, simp, rule intro, simp)
  qed
qed

lemma does_HandlePut: "does (put_done sv store rq) (HandlePut sv store rq)"
  unfolding HandlePut_def Let_def
proof (rule does_on_writable, rule does_if, goal_cases)
  case (2 t)
  then show ?case
    by (intro does_with_body)
      (auto simp only: split: sum.split intro!: does_refuse does_with_columns does_put [unfolded Let_def])
qed (simp add: does_refuse)

text \<open>
  What a DELETE does when it is not refused: the statement it executes has no condition, or one that
  means what the request's filters mean.
\<close>

definition deleted :: "'db server \<Rightarrow> SchemaStore \<Rightarrow> request \<Rightarrow> 'db \<Rightarrow> reply \<times> 'db \<Rightarrow> bool" where
  "deleted sv store rq db x \<longleftrightarrow>
     (\<exists>table params w as affected.
        let cols = (\<lambda>c. c \<in> fst ` set (tbl_Columns table))
        in fst (resolveTable store rq) = Some table \<and> tbl_IsView table = False \<and>
           parseParams sv rq table = Ok params \<and> params_ok cols params \<and>
           sv_exec sv (''DELETE FROM '' @ QualifiedName table @ (if w = [] then [] else '' WHERE '' @ w)) (map VStr as) db
             = Inr (snd x, affected) \<and>
           fst x = Reply (WriteDeleted affected (parsePrefer (GetHeader rq ''Prefer''))) \<and>
           (if params_solid cols params
            then \<exists>ds. w = Join (map sql ds) '' AND '' \<and> list_all (cond_ok cols) ds \<and>
                   (\<forall>r \<beta>. binds \<beta> 1 as \<longrightarrow> k_and (map (truth r \<beta>) ds) = where_means r table params)
            else True))"

lemma parseParams_ok: "parseParams sv rq t = Ok params \<Longrightarrow> params_ok (\<lambda>c. c \<in> fst ` set (tbl_Columns t)) params"
  using Parse_ok [of "sv_pairs sv" "rq_RawQuery rq" _ params]
  by (simp add: parseParams_def map_of_eq_None_iff)

lemma does_HandleDelete: "does (deleted sv store rq) (HandleDelete sv store rq)"
  unfolding HandleDelete_def Let_def
proof (rule does_on_writable, rule does_proceed, goal_cases)
  case (2 t params)
  let ?b = "NewBuilder (Some t) params (tbl_SchemaName t)" and ?cols = "\<lambda>c. c \<in> fst ` set (tbl_Columns t)"
  show ?case
  proof (rule does_proceed)
    fix x assume "BuildDelete ?b = Ok x"
    then obtain w as j where w: "buildWhere ?b 1 = Ok (w, as, j)"
      and x: "x = (''DELETE FROM '' @ QualifiedName t @ (if w = [] then [] else '' WHERE '' @ w), as)"
      using qualifiedTable_NewBuilder [of t params]
      by (auto simp: BuildDelete_def with_table_def NewBuilder_def obind_Ok_iff)
    show "does (deleted sv store rq) (case x of (sqlQuery, args) \<Rightarrow>
        exec sv sqlQuery (map VStr args) db_error (\<lambda>affected. WriteDeleted affected (parsePrefer (GetHeader rq ''Prefer''))))"
      unfolding x prod.case
    proof (rule does_exec)
      fix db db' n
      assume run: "sv_exec sv (''DELETE FROM '' @ QualifiedName t @ (if w = [] then [] else '' WHERE '' @ w))
        (map VStr as) db = Inr (db', n)"
      have "\<exists>ds. w = Join (map sql ds) '' AND '' \<and> list_all (cond_ok ?cols) ds \<and>
          (\<forall>r \<beta>. binds \<beta> 1 as \<longrightarrow> k_and (map (truth r \<beta>) ds) = where_means r t params)" if "params_solid ?cols params"
        using buildWhere_denotes [of ?cols ?b t 1 w as j] that w by (simp add: NewBuilder_def)
      with 2 run parseParams_ok [OF 2(3)]
      show "deleted sv store rq db (Reply (WriteDeleted n (parsePrefer (GetHeader rq ''Prefer''))), db')"
        unfolding deleted_def Let_def by (intro exI [of _ t] exI [of _ params] exI [of _ w] exI [of _ as] exI [of _ n]) simp
    qed simp
  next
    fix db assume "BuildDelete ?b = Panic"
    then show "deleted sv store rq db (Crash, db)"
      using buildWhere_no_panic [of ?b 1] by (auto simp: BuildDelete_def with_table_def NewBuilder_def obind_Panic_iff)
  qed (simp add: does_refuse)
qed (simp_all add: does_refuse)

section \<open>Reading\<close>

text \<open>
  What a GET does when it is not refused: one query, with a limit that is the request's, that of an
  accepted \<^verbatim>\<open>Range\<close> header, or 1000.
\<close>

definition got :: "'db server \<Rightarrow> SchemaStore \<Rightarrow> request \<Rightarrow> 'db \<Rightarrow> reply \<times> 'db \<Rightarrow> bool" where
  "got sv store rq db x \<longleftrightarrow>
     (\<exists>table params base as rows.
        let asked = rng_Limit (par_Range params); (rLimit, _, ok) = ParseRangeHeader (GetHeader rq ''Range'');
            limit = (if 0 \<le> asked then asked else if ok \<and> 0 \<le> rLimit then rLimit else 1000);
            page = pageOf rq params; offset = rng_Offset (par_Range page);
            q = base @ '' LIMIT '' @ Itoa limit @ (if 0 < offset then '' OFFSET '' @ Itoa offset else [])
        in fst (resolveTable store rq) = Some table \<and> parseParams sv rq table = Ok params \<and>
           params_ok (\<lambda>c. c \<in> fst ` set (tbl_Columns table)) params \<and> rng_Limit (par_Range page) = limit \<and> 0 \<le> limit \<and>
           BuildSelect (sv_ordS sv) (sv_ordJ sv)
             (NewBuilderWithStore (Some table) page (tbl_SchemaName table) (Some store)) = Ok (q, as) \<and>
           sv_query sv q (map VStr as) db = Inr (snd x, rows))"

lemma pageOf_limit:
  "rng_Limit (par_Range (pageOf rq p)) =
     (let asked = rng_Limit (par_Range p); (rLimit, _, ok) = ParseRangeHeader (GetHeader rq ''Range'')
      in if 0 \<le> asked then asked else if ok \<and> 0 \<le> rLimit then rLimit else 1000)"
  by (simp add: pageOf_def Let_def split: prod.split)

lemma BuildSelect_limit:
  assumes "bld_Table b = Some t" "BuildSelect ordS ordJ b = Ok (q, as)" "0 \<le> rng_Limit (par_Range (bld_Params b))"
  shows "\<exists>base. q = base @ '' LIMIT '' @ Itoa (rng_Limit (par_Range (bld_Params b))) @
    (if 0 < rng_Offset (par_Range (bld_Params b)) then '' OFFSET '' @ Itoa (rng_Offset (par_Range (bld_Params b))) else [])"
proof -
  from assms(2) obtain q' where "q = q' @ select_tail b t"
    unfolding BuildSelect_eq [OF assms(1)] Let_def by (auto simp: obind_Ok_iff)
  with assms(3) show ?thesis
    by (intro exI [of _ "q' @ (if par_Order (bld_Params b) = [] then [] else '' ORDER BY '' @ buildOrderBy b t)"])
      (simp add: select_tail_def Let_def)
qed

lemma addWhere_no_panic: "bld_Table b \<noteq> None \<Longrightarrow> addWhere b q i \<noteq> Panic"
  by (auto simp: addWhere_def obind_Panic_iff buildWhere_no_panic)

lemma BuildSelect_no_panic: "bld_Table b = Some t \<Longrightarrow> BuildSelect ordS ordJ b \<noteq> Panic"
  by (auto simp: BuildSelect_eq obind_Panic_iff selectList_def Let_def addWhere_no_panic split: option.split)

lemma executeCount_no_panic: "executeCount sv t params db \<noteq> Panic"
  by (auto simp: executeCount_def obind_Panic_iff BuildCount_def with_table_def NewBuilder_def addWhere_no_panic
      split: sum.split)

lemma does_pointwise: "(\<And>db. refused db (h db) \<or> P db (h db)) \<Longrightarrow> does P h"
  by (simp add: does_def)

lemma does_select:
  assumes t: "fst (resolveTable store rq) = Some t" "parseParams sv rq t = Ok params"
    and q: "BuildSelect (sv_ordS sv) (sv_ordJ sv)
      (NewBuilderWithStore (Some t) (pageOf rq params) (tbl_SchemaName t) (Some store)) = Ok (q, as)"
    and run: "sv_query sv q (map VStr as) db = Inr (snd x, rows)"
  shows "got sv store rq db x"
proof -
  let ?page = "pageOf rq params"
  obtain rLimit rOffset ok where r: "ParseRangeHeader (GetHeader rq ''Range'') = (rLimit, rOffset, ok)"
    by (rule prod_cases3)
  have limit: "rng_Limit (par_Range ?page) = (if 0 \<le> rng_Limit (par_Range params) then rng_Limit (par_Range params)
      else if ok \<and> 0 \<le> rLimit then rLimit else 1000)"
    using pageOf_limit [of rq params] r by (simp add: Let_def)
  then have pos: "0 \<le> rng_Limit (par_Range ?page)" by simp
  obtain base where base: "q = base @ '' LIMIT '' @ Itoa (rng_Limit (par_Range ?page)) @
      (if 0 < rng_Offset (par_Range ?page) then '' OFFSET '' @ Itoa (rng_Offset (par_Range ?page)) else [])"
    using BuildSelect_limit [OF _ q] pos by (auto simp: NewBuilderWithStore_def)
  show ?thesis
    unfolding got_def Let_def r prod.case
    by (rule exI [of _ t], rule exI [of _ params], rule exI [of _ base], rule exI [of _ as], rule exI [of _ rows])
      (intro conjI t parseParams_ok [OF t(2)] limit pos [unfolded limit] q [unfolded base limit]
        run [unfolded base limit])
qed

lemma does_HandleGet: "does (got sv store rq) (HandleGet sv store rq)"
proof (rule does_pointwise)
  fix db
  show "refused db (HandleGet sv store rq db) \<or> got sv store rq db (HandleGet sv store rq db)"
  proof (cases "resolveTable store rq")
    case (fields found tableName schemaName)
    note unfolded = HandleGet_def on_table_def fields prod.case Let_def proceed_def
    show ?thesis
    proof (cases found)
      case None
      then show ?thesis
        unfolding unfolded by (simp add: refuse_def respond_def refused_def failed_def)
    next
      case (Some t)
      then have t: "fst (resolveTable store rq) = Some t" by (simp add: fields)
      show ?thesis
      proof (cases "parseParams sv rq t")
        case (Ok params)
        let ?page = "pageOf rq params"
        let ?b = "NewBuilderWithStore (Some t) ?page (tbl_SchemaName t) (Some store)"
        let ?count = "if HasCount ?page then executeCount sv t ?page db else Ok 0"
        have no_panic: "?count \<noteq> Panic" "BuildSelect (sv_ordS sv) (sv_ordJ sv) ?b \<noteq> Panic"
          using executeCount_no_panic [of sv t ?page db] BuildSelect_no_panic [of ?b t]
          by (simp_all add: NewBuilderWithStore_def)
        show ?thesis
          using no_panic does_select [OF t Ok] unfolding unfolded Some option.case Ok outcome.case
          by (cases ?count; cases "BuildSelect (sv_ordS sv) (sv_ordJ sv) ?b")
            (auto simp: refuse_def respond_def refused_def failed_def db_error_def split: sum.split prod.split)
      qed (unfold unfolded Some, simp_all add: refuse_def respond_def refused_def failed_def)
    qed
  qed
qed

section \<open>Handlers that only read\<close>

text \<open>
  \<open>looks\<close>: the database is as it was, or as one query left it whose text begins with \<^verbatim>\<open>SELECT\<close>.  That is
  the contract of the handlers of the reading methods.
\<close>

definition looks :: "'db server \<Rightarrow> 'db \<Rightarrow> 'db \<Rightarrow> bool" where
  "looks sv db db' \<longleftrightarrow> db' = db \<or>
     (\<exists>q as rows. prefix ''SELECT '' q \<and> sv_query sv q as db = Inr (db', rows))"

locale reader =
  fixes sv :: "'db server" and run :: "'db handled"
  assumes reads: "looks sv db (snd (run db))"
begin

text \<open>With a database whose selections change nothing, neither does the handler.\<close>

lemma harmless:
  assumes "\<And>q as db db' rows. prefix ''SELECT '' q \<Longrightarrow> sv_query sv q as db = Inr (db', rows) \<Longrightarrow> db' = db"
  shows "snd (run db) = db"
  using reads [of db] assms by (auto simp: looks_def)

end

lemma BuildSelect_starts:
  assumes "bld_Table b = Some t" "BuildSelect ordS ordJ b = Ok (q, as)"
  shows "prefix ''SELECT '' q"
proof -
  obtain sel q' as' where w: "addWhere b (fst (addRanks b t (par_FtsFilters (bld_Params b)) (''SELECT '' @ sel) 1) @
      '' FROM '' @ qualifiedTable b t @ join_text ordJ b t) (1 + length (par_FtsFilters (bld_Params b))) = Ok (q', as')"
    and q: "q = q' @ select_tail b t"
    using assms(2) unfolding BuildSelect_eq [OF assms(1)] Let_def by (auto simp: obind_Ok_iff)
  obtain q1 as1 i1 where r: "addRanks b t (par_FtsFilters (bld_Params b)) (''SELECT '' @ sel) 1 = (q1, as1, i1)"
    by (rule prod_cases3)
  from addRanks_spec [OF r] obtain x where "q1 = ''SELECT '' @ x" by auto
  with w r have "\<exists>y. q' = ''SELECT '' @ y"
    by (auto simp: addWhere_def obind_Ok_iff split: if_splits)
  then show ?thesis using q by auto
qed

lemma looks_respond [simp]: "looks sv db (snd (respond rs db))" "looks sv db (snd (refuse status e db))"
  by (simp_all add: looks_def respond_def refuse_def)

lemma got_select:
  assumes "got sv store rq db x"
  shows "\<exists>q as rows t p. BuildSelect (sv_ordS sv) (sv_ordJ sv) (NewBuilderWithStore (Some t) p (tbl_SchemaName t) (Some store)) = Ok (q, as) \<and>
    sv_query sv q (map VStr as) db = Inr (snd x, rows)"
proof -
  obtain rLimit rOffset ok where "ParseRangeHeader (GetHeader rq ''Range'') = (rLimit, rOffset, ok)"
    by (rule prod_cases3)
  with assms show ?thesis unfolding got_def Let_def by (simp only: prod.case) blast
qed

lemma reads_HandleGet: "looks sv db (snd (HandleGet sv store rq db))"
proof -
  consider "refused db (HandleGet sv store rq db)" | "got sv store rq db (HandleGet sv store rq db)"
    using doesD [OF does_HandleGet, of db sv store rq] by blast
  then show ?thesis
  proof cases
    case 1
    then show ?thesis by (simp add: refused_def looks_def)
  next
    case 2
    from got_select [OF 2] obtain q as rows t p
      where b: "BuildSelect (sv_ordS sv) (sv_ordJ sv) (NewBuilderWithStore (Some t) p (tbl_SchemaName t) (Some store)) = Ok (q, as)"
        and r: "sv_query sv q (map VStr as) db = Inr (snd (HandleGet sv store rq db), rows)" by blast
    have "prefix ''SELECT '' q" by (rule BuildSelect_starts [OF _ b]) (simp add: NewBuilderWithStore_def)
    with r show ?thesis unfolding looks_def by blast
  qed
qed

interpretation get_reader: reader sv "HandleGet sv store rq" for sv store rq
  by unfold_locales (rule reads_HandleGet)

interpretation head_reader: reader sv "HandleHead sv store rq" for sv store rq
  by unfold_locales
    (auto simp: HandleHead_def proceed_def Let_def looks_def respond_def split: prod.split option.split outcome.split)

interpretation options_reader: reader sv "HandleOptions store rq" for sv store rq
  by unfold_locales (auto simp: HandleOptions_def split: prod.split option.split)

section \<open>Properties\<close>

text \<open>
  A database that keeps the statements it was given, a store with one table, and a decoder that
  reads every body as the same object.
\<close>

definition log_server :: "(string \<times> val list) list server" where
  "log_server = \<lparr>sv_exec = (\<lambda>q as db. Inr (db @ [(q, as)], 1)),
     sv_query = (\<lambda>q as db. Inr (db @ [(q, as)], \<lparr>rw_cols = Inr [''id''], rw_rows = [Inr [VNum ''7'']], rw_err = None\<rparr>)),
     sv_count = (\<lambda>q as db. Inr 1),
     sv_js = \<lparr>js_decode = (\<lambda>_. Inr (VObj [(''id'', VNum ''7''), (''title'', VStr ''cat'')])), js_encode = fmtV, js_time = Itoa\<rparr>,
     sv_pairs = (\<lambda>kvs. kvs), sv_ordS = (\<lambda>_ ns. ns), sv_ordJ = (\<lambda>_ ns. ns)\<rparr>"

definition plain_column :: "string \<Rightarrow> bool \<Rightarrow> Column" where
  "plain_column name pk = \<lparr>col_Name = name, col_DataType = ''text'', col_IsNullable = True, col_IsPK = pk,
     col_IsUnique = pk, col_DefaultValue = [], col_OrdinalPos = 1, col_CharacterMaxLen = 0\<rparr>"

definition blog_store :: SchemaStore where
  "blog_store = AddTable ''blog''
     (posts\<lparr>tbl_Columns := [(''id'', plain_column ''id'' True), (''title'', plain_column ''title'' False)],
            tbl_ColumnOrder := [''id'', ''title'']\<rparr>) (NewSchemaStore ''blog'')"

definition blog_request :: "string \<Rightarrow> string \<Rightarrow> string \<Rightarrow> request" where
  "blog_request method query prefer =
     \<lparr>rq_Method = method, rq_Params = [(''schema'', ''blog''), (''table'', ''posts'')], rq_RawQuery = query,
      rq_Header = [(''Prefer'', prefer)], rq_Body = Inr ''{}''\<rparr>"

lemma blog_post: "HandlePost log_server blog_store (blog_request ''POST'' [] ''resolution=merge-duplicates'') [] =
   (Reply (c_Status 201 new_response),
    [(''INSERT INTO blog.posts (id, title) VALUES ($1, $2) ON CONFLICT (id) DO UPDATE SET title = EXCLUDED.title'',
      [VNum ''7'', VStr ''cat''])])"
  by code_simp

lemma blog_patch: "HandlePatch log_server blog_store (blog_request ''PATCH'' ''id=eq.7'' []) [] =
   (Reply (c_Status 204 new_response),
    [(''UPDATE blog.posts SET id = $1, title = $2 WHERE id = $3'', [VNum ''7'', VStr ''cat'', VStr ''7''])])"
  by code_simp

lemma blog_search_patch: "HandlePatch log_server blog_store (blog_request ''PATCH'' ''_fts=title.cat'' []) [] = (Crash, [])"
  by code_simp

lemma blog_put: "HandlePut log_server blog_store (blog_request ''PUT'' [] []) [] =
   (Reply (c_Status 201 new_response),
    [(''INSERT INTO blog.posts (id, title) VALUES ($1, $2) ON CONFLICT (id) DO UPDATE SET title = EXCLUDED.title'',
      [VNum ''7'', VStr ''cat''])])"
  by code_simp

lemma blog_delete: "HandleDelete log_server blog_store (blog_request ''DELETE'' ''id=eq.7'' []) [] =
   (Reply (c_Status 204 new_response), [(''DELETE FROM blog.posts WHERE id = $1'', [VStr ''7''])])"
  by code_simp

lemma blog_get: "snd (HandleGet log_server blog_store (blog_request ''GET'' ''id=eq.7'' []) []) =
   [(''SELECT blog.posts.* FROM blog.posts WHERE id = $1 LIMIT 1000'', [VStr ''7''])]"
  by code_simp

lemma not_refused: "\<not> failed rs \<Longrightarrow> \<not> refused db (Reply rs, db')" "\<not> refused db (Crash, db')"
  by (simp_all add: refused_def)

lemma blog_replies_ok [simp]: "\<not> failed (c_Status 201 new_response)" "\<not> failed (c_Status 204 new_response)"
  by (simp_all add: failed_def)



text \<open>
  C28. PATCH against the query builder.  A PATCH refuses without effect, or executes exactly the text
  and arguments that \<^verbatim>\<open>BuildUpdate\<close> gives for the columns of the body and the filters of the request,
  the new values first; with a full-text filter it never updates anything: when the request gets as
  far as its condition the handler panics.
\<close>

theorem HandlePatch_updates:
  "refused db (HandlePatch sv store rq db) \<or> patched sv store rq db (HandlePatch sv store rq db)"
  by (rule doesD [OF does_HandlePatch])

theorem HandlePatch_updates_witness:
  "patched log_server blog_store (blog_request ''PATCH'' ''_fts=title.cat'' []) [] (Crash, []) \<and>
   patched log_server blog_store (blog_request ''PATCH'' ''id=eq.7'' []) []
     (Reply (c_Status 204 new_response),
      [(''UPDATE blog.posts SET id = $1, title = $2 WHERE id = $3'', [VNum ''7'', VStr ''cat'', VStr ''7''])])"
  using HandlePatch_updates [of "[]" log_server blog_store "blog_request ''PATCH'' ''_fts=title.cat'' []"]
    HandlePatch_updates [of "[]" log_server blog_store "blog_request ''PATCH'' ''id=eq.7'' []"]
  unfolding blog_patch blog_search_patch by (simp add: not_refused)

text \<open>
  C29. PUT against the query builder.  A PUT refuses without effect, or executes the upsert of one row
  on the primary key that \<^verbatim>\<open>BuildUpsert\<close> gives; but when the row holds nothing but the key the text
  ends in \<^verbatim>\<open>DO UPDATE SET DO NOTHING\<close>, which is not SQL.
\<close>

theorem HandlePut_upserts:
  "refused db (HandlePut sv store rq db) \<or> put_done sv store rq db (HandlePut sv store rq db)"
  by (rule doesD [OF does_HandlePut])

theorem HandlePut_upserts_witness:
  "put_done log_server blog_store (blog_request ''PUT'' [] []) []
     (Reply (c_Status 201 new_response),
      [(''INSERT INTO blog.posts (id, title) VALUES ($1, $2) ON CONFLICT (id) DO UPDATE SET title = EXCLUDED.title'',
        [VNum ''7'', VStr ''cat''])])"
  using HandlePut_upserts [of "[]" log_server blog_store "blog_request ''PUT'' [] []"]
  unfolding blog_put by (simp add: not_refused)



text \<open>
  C31. The page of a GET.  A GET refuses, or sends one query, the selection built for the request's
  parameters, which always ends in a limit: that of the request if it is not negative, else that of
  an accepted \<^verbatim>\<open>Range\<close> header, else 1000; the limit is never negative.
\<close>

theorem HandleGet_page:
  "refused db (HandleGet sv store rq db) \<or> got sv store rq db (HandleGet sv store rq db)"
  by (rule doesD [OF does_HandleGet])

theorem HandleGet_page_witness:
  "\<exists>x. got log_server blog_store (blog_request ''GET'' ''id=eq.7'' []) [] x \<and>
     snd x = [(''SELECT blog.posts.* FROM blog.posts WHERE id = $1 LIMIT 1000'', [VStr ''7''])]"
  using HandleGet_page [of "[]" log_server blog_store "blog_request ''GET'' ''id=eq.7'' []"] blog_get
  by (intro exI [of _ "HandleGet log_server blog_store (blog_request ''GET'' ''id=eq.7'' []) []"])
    (auto simp: refused_def)

end
