(* ===== verification/Rpc.thy ===== *)
theory Rpc
  imports Handlers
begin

text \<open>
  \<^verbatim>\<open>internal/rpc/handler.go\<close>: calling a database function with the arguments of a JSON object.
\<close>

section \<open>The call\<close>

definition goTypeToPGCast :: "string \<Rightarrow> string" where
  "goTypeToPGCast pgType =
     (let t = ToLower pgType
      in if t \<in> {''integer'', ''int'', ''int4'', ''bigint'', ''int8'', ''smallint'', ''int2'', ''serial'', ''bigserial''}
         then ''int''
         else if t \<in> {''real'', ''float4'', ''double precision'', ''float8'', ''numeric'', ''decimal''} then ''numeric''
         else if t \<in> {''boolean'', ''bool''} then ''boolean''
         else if t \<in> {''json'', ''jsonb''} then ''jsonb''
         else if t = ''uuid'' then ''uuid''
         else if t \<in> {''date'', ''timestamp'', ''timestamptz'', ''timestamp without time zone'', ''timestamp with time zone''}
         then ''timestamptz''
         else ''text'')"

text \<open>The schema: the path, a profile header, or the default of the store.\<close>

definition rpcSchema :: "SchemaStore \<Rightarrow> request \<Rightarrow> string" where
  "rpcSchema store rq =
     (let schemaName =
            (if Param rq ''schema'' = [] then
               (if GetHeader rq ''Content-Profile'' \<noteq> [] then GetHeader rq ''Content-Profile''
                else if GetHeader rq ''Accept-Profile'' \<noteq> [] then GetHeader rq ''Accept-Profile''
                else Param rq ''schema'')
             else Param rq ''schema'')
      in if schemaName = [] then ss_defaultSchema store else schemaName)"

text \<open>An argument: JSON text for a JSON parameter, the value as it is otherwise, null when it is missing.\<close>

definition callArg :: "json_lib \<Rightarrow> (string \<times> val) list \<Rightarrow> FuncArg \<Rightarrow> val" where
  "callArg js args arg =
     (case map_of args (arg_Name arg) of
        None \<Rightarrow> VNil
      | Some v \<Rightarrow>
          if arg_Type arg = ''jsonb'' \<or> arg_Type arg = ''json''
          then (case v of VBytes b \<Rightarrow> VBytes b | _ \<Rightarrow> VBytes (js_encode js v))
          else v)"

definition callPlaceholders :: "Function \<Rightarrow> string list" where
  "callPlaceholders fn =
     map (\<lambda>(i, arg). dollar (i + 1) @ ''::'' @ goTypeToPGCast (arg_Type arg)) (enumerate 0 (fn_Arguments fn))"

definition callText :: "string \<Rightarrow> string \<Rightarrow> Function \<Rightarrow> string" where
  "callText schemaName funcName fn =
     (let qualified = (if schemaName \<noteq> [] \<and> schemaName \<noteq> ''public'' then schemaName @ ''.'' @ funcName else funcName)
      in ''SELECT * FROM '' @ qualified @ ''('' @ Join (callPlaceholders fn) '', '' @ '')'')"

definition rpcBody :: "json_lib \<Rightarrow> request \<Rightarrow> string + (string \<times> val) list" where
  "rpcBody js rq =
     (case rq_Body rq of Inl e \<Rightarrow> Inl e | Inr body \<Rightarrow> if body = [] then Inr [] else decode_map js body)"

definition HandleRPC :: "'db server \<Rightarrow> SchemaStore \<Rightarrow> request \<Rightarrow> 'db handled" where
  "HandleRPC sv store rq =
     (let funcName = Param rq ''function''; schemaName = rpcSchema store rq
      in (case GetFunction store schemaName funcName of
            None \<Rightarrow> refuse 404 (mk_error ''PGRST205'' (''Function '' @ in_quotes funcName @ '' not found'') [] 404)
          | Some fn \<Rightarrow>
              (case rpcBody (sv_js sv) rq of
                 Inl e \<Rightarrow> refuse 422 (ErrInvalidBody e)
               | Inr args \<Rightarrow> (\<lambda>db.
                   case sv_query sv (callText schemaName funcName fn) (map (callArg (sv_js sv) args) (fn_Arguments fn)) db of
                     Inl e \<Rightarrow> (Reply (db_error e), db)
                   | Inr (db', rows) \<Rightarrow>
                       (Reply (case rw_cols rows of
                          Inl e \<Rightarrow> db_error e
                        | Inr cols \<Rightarrow>
                            (case jsonRows (sv_js sv) cols (rw_rows rows) of
                               Inl e \<Rightarrow> db_error e
                             | Inr results \<Rightarrow> c_JSON 200 (VArr results) new_response)), db')))))"

section \<open>Properties\<close>

lemma dollars_placeholders: "dollars (Join (callPlaceholders fn) '', '') = [1 ..< 1 + length (fn_Arguments fn)]"
proof -
  have cast: "plain (goTypeToPGCast t)" for t by (simp add: goTypeToPGCast_def Let_def)
  have "concat (map (dollars \<circ> (\<lambda>(i, arg). dollar (i + 1) @ ''::'' @ goTypeToPGCast (arg_Type arg))) (enumerate i args)) =
      [i + 1 ..< i + 1 + length args]" for i args
    using cast
    by (induction args arbitrary: i)
      (auto simp: dollars_append_plain dollars_dollar_append dollars_plain_append upt_conv_Cons simp del: upt_Suc)
  from this [of 0 "fn_Arguments fn"] show ?thesis by (simp add: callPlaceholders_def dollars_Join del: upt_Suc)
qed

lemma dollars_callText:
  assumes "plain schemaName" "plain funcName"
  shows "dollars (callText schemaName funcName fn) = [1 ..< 1 + length (fn_Arguments fn)]"
proof -
  have q: "plain (if schemaName \<noteq> [] \<and> schemaName \<noteq> ''public'' then schemaName @ ''.'' @ funcName else funcName)"
    using assms by simp
  have tail: "dollars (s @ '')'') = dollars s" for s by (simp add: dollars_append_plain)
  show ?thesis
    using dollars_placeholders [of fn] unfolding callText_def Let_def
    by (simp only: append_assoc [symmetric] tail) (simp only: append_assoc, simp add: q dollars_plain_append del: upt_Suc)
qed

definition add_function :: Function where
  "add_function = \<lparr>fn_Name = ''add'', fn_SchemaName = ''blog'', fn_ReturnType = ''integer'',
     fn_Arguments = [\<lparr>arg_Name = ''a'', arg_Type = ''integer'', arg_Nullable = False, arg_Default = []\<rparr>,
                     \<lparr>arg_Name = ''b'', arg_Type = ''bigint'', arg_Nullable = False, arg_Default = ''1''\<rparr>],
     fn_Language = ''sql''\<rparr>"

definition rpc_request :: request where
  "rpc_request = \<lparr>rq_Method = ''POST'', rq_Params = [(''schema'', ''blog''), (''function'', ''add'')], rq_RawQuery = [],
     rq_Header = [], rq_Body = Inr ''{}''\<rparr>"



end
