(* ===== verification/OpenApi.thy ===== *)
theory OpenApi
  imports Config
begin

text \<open>
  \<^verbatim>\<open>internal/openapi/openapi.go\<close>: the OpenAPI document of the tables and functions of the store.

  A pointer field is an option, a map an association list with distinct keys; a default is \<open>None\<close>
  when the field is not set.
\<close>

section \<open>Data\<close>

datatype Schema =
  Schema (sch_Type: string) (sch_Ref: string) (sch_Properties: "(string \<times> Schema) list") (sch_Items: "Schema option")
    (sch_Nullable: bool) (sch_Default: "string option") (sch_Required: "string list") (sch_OneOf: "Schema list")

definition typed :: "string \<Rightarrow> Schema" where
  "typed t = Schema t [] [] None False None [] []"

definition schemaRef :: "string \<Rightarrow> Schema" where
  "schemaRef name = Schema [] (''#/components/schemas/'' @ name) [] None False None [] []"

record Parameter =
  pa_Name :: string
  pa_In :: string
  pa_Required :: bool
  pa_Schema :: Schema

record RequestBody =
  rb_Required :: bool
  rb_Content :: "(string \<times> Schema) list"

record Operation =
  opn_Summary :: string
  opn_Description :: string
  opn_OperationID :: string
  opn_Tags :: "string list"
  opn_Parameters :: "Parameter list"
  opn_RequestBody :: "RequestBody option"
  opn_Responses :: "(string \<times> string) list"

type_synonym PathItem = "(string \<times> Operation) list"

text \<open>The schema of a table in the components: properties with their type, nullability and default.\<close>

record ColumnSchema =
  cs_type :: string
  cs_nullable :: bool
  cs_default :: "string option"

record TableSchema =
  ts_properties :: "(string \<times> ColumnSchema) list"
  ts_required :: "string list"

record Spec =
  spec_OpenAPI :: string
  spec_Title :: string
  spec_Description :: string
  spec_Version :: string
  spec_Servers :: "(string \<times> string) list"
  spec_Paths :: "(string \<times> PathItem) list"
  spec_Schemas :: "(string \<times> TableSchema) list"

section \<open>Types\<close>

definition pgTypeToOpenAPI :: "string \<Rightarrow> string" where
  "pgTypeToOpenAPI pgType =
     (let t = ToLower pgType
      in if t \<in> {''integer'', ''bigint'', ''smallint'', ''serial'', ''bigserial'', ''int4'', ''int8'', ''int2''} then ''integer''
         else if t \<in> {''real'', ''double precision'', ''numeric'', ''decimal'', ''float4'', ''float8''} then ''number''
         else if t \<in> {''boolean'', ''bool''} then ''boolean''
         else if t \<in> {''json'', ''jsonb''} then ''object''
         else if t = ''array'' then ''array''
         else if t \<in> {''date'', ''timestamp'', ''timestamptz'', ''timestamp without time zone'', ''timestamp with time zone''}
         then ''string''
         else if t = ''uuid'' then ''string''
         else if t = ''bytea'' then ''string''
         else ''string'')"

definition capitalize :: "string \<Rightarrow> string" where
  "capitalize s = (if s = [] then s else ToUpper [hd s] @ tl s)"

section \<open>Parameters\<close>

definition query_param :: "string \<Rightarrow> string \<Rightarrow> Parameter" where
  "query_param name t = \<lparr>pa_Name = name, pa_In = ''query'', pa_Required = False, pa_Schema = typed t\<rparr>"

definition schemaParam :: "string \<Rightarrow> Parameter" where
  "schemaParam sName = \<lparr>pa_Name = ''schema'', pa_In = ''path'', pa_Required = True,
     pa_Schema = Schema ''string'' [] [] None False (Some sName) [] []\<rparr>"

definition filterParams :: "Table \<Rightarrow> Parameter list" where
  "filterParams table = map (\<lambda>col. query_param (col_Name col) (pgTypeToOpenAPI (col_DataType col))) (OrderedColumns table)"

definition paginationParams :: "Parameter list" where
  "paginationParams = [query_param ''limit'' ''integer'', query_param ''offset'' ''integer'']"

definition countParam :: Parameter where
  "countParam = query_param ''count'' ''string''"

section \<open>Operations\<close>

definition operation ::
    "string \<Rightarrow> string \<Rightarrow> string \<Rightarrow> string \<Rightarrow> Parameter list \<Rightarrow> RequestBody option \<Rightarrow> (string \<times> string) list \<Rightarrow> Operation" where
  "operation summary description opID tag params body responses =
     \<lparr>opn_Summary = summary, opn_Description = description, opn_OperationID = opID, opn_Tags = [tag],
      opn_Parameters = params, opn_RequestBody = body, opn_Responses = responses\<rparr>"

definition json_body :: "Schema \<Rightarrow> RequestBody option" where
  "json_body s = Some \<lparr>rb_Required = True, rb_Content = [(''application/json'', s)]\<rparr>"

definition buildGETOp :: "Table \<Rightarrow> string \<Rightarrow> Operation" where
  "buildGETOp table sName =
     operation (''List '' @ tbl_Name table) (''Retrieve all rows from '' @ tbl_Name table) (''list'' @ capitalize (tbl_Name table))
       (tbl_Name table)
       ([schemaParam sName] @ filterParams table @ [query_param ''select'' ''string'', query_param ''order'' ''string''] @
        paginationParams @ [countParam])
       None [(''200'', ''Successful response'')]"

definition buildHEADOp :: "Table \<Rightarrow> string \<Rightarrow> Operation" where
  "buildHEADOp table sName =
     operation (''Head '' @ tbl_Name table) (''Retrieve headers for '' @ tbl_Name table) (''head'' @ capitalize (tbl_Name table))
       (tbl_Name table) ([schemaParam sName] @ filterParams table @ [countParam]) None [(''200'', ''Successful response'')]"

definition buildPOSTOp :: "Table \<Rightarrow> string \<Rightarrow> Operation" where
  "buildPOSTOp table sName =
     (let ref = schemaRef (tbl_Name table)
      in operation (''Insert into '' @ tbl_Name table) (''Insert one or more rows into '' @ tbl_Name table)
           (''insert'' @ capitalize (tbl_Name table)) (tbl_Name table) [schemaParam sName]
           (json_body (Schema [] [] [] None False None [] [ref, Schema ''array'' [] [] (Some ref) False None [] []]))
           [(''201'', ''Created'')])"

definition buildPUTOp :: "Table \<Rightarrow> string \<Rightarrow> Operation" where
  "buildPUTOp table sName =
     operation (''Upsert '' @ tbl_Name table) (''Insert or update a single row in '' @ tbl_Name table)
       (''upsert'' @ capitalize (tbl_Name table)) (tbl_Name table) [schemaParam sName]
       (json_body (schemaRef (tbl_Name table))) [(''200'', ''Upserted''), (''201'', ''Created'')]"

definition buildPATCHOp :: "Table \<Rightarrow> string \<Rightarrow> Operation" where
  "buildPATCHOp table sName =
     operation (''Update '' @ tbl_Name table) (''Update rows in '' @ tbl_Name table) (''update'' @ capitalize (tbl_Name table))
       (tbl_Name table) ([schemaParam sName] @ filterParams table) (json_body (typed ''object'')) [(''204'', ''No Content'')]"

definition buildDELETEOp :: "Table \<Rightarrow> string \<Rightarrow> Operation" where
  "buildDELETEOp table sName =
     operation (''Delete from '' @ tbl_Name table) (''Delete rows from '' @ tbl_Name table) (''delete'' @ capitalize (tbl_Name table))
       (tbl_Name table) ([schemaParam sName] @ filterParams table) None [(''204'', ''No Content'')]"

definition buildOPTIONSOps :: "Table \<Rightarrow> string \<Rightarrow> Operation" where
  "buildOPTIONSOps table sName =
     operation (''Options for '' @ tbl_Name table) (''Retrieve metadata for '' @ tbl_Name table)
       (''options'' @ capitalize (tbl_Name table)) (tbl_Name table) [schemaParam sName] None [(''200'', ''Successful response'')]"

text \<open>The schema of the arguments: an argument without a default is required.\<close>

definition argSchema :: "FuncArg \<Rightarrow> Schema" where
  "argSchema arg = Schema (pgTypeToOpenAPI (arg_Type arg)) [] [] None (arg_Nullable arg)
     (if arg_Default arg \<noteq> [] then Some (arg_Default arg) else None) [] []"

definition callSchema :: "Function \<Rightarrow> Schema" where
  "callSchema fn =
     Schema ''object'' [] (fold (\<lambda>arg. AList.update (arg_Name arg) (argSchema arg)) (fn_Arguments fn) []) None False None
       (map arg_Name (filter (\<lambda>arg. arg_Default arg = []) (fn_Arguments fn))) []"

definition buildRPCOp :: "Function \<Rightarrow> string \<Rightarrow> Operation" where
  "buildRPCOp fn sName =
     operation (''Call '' @ fn_Name fn)
       (''Execute stored procedure '' @ fn_Name fn @ '' (language: '' @ fn_Language fn @ '')'')
       (''rpc'' @ capitalize (fn_Name fn)) ''RPC'' [schemaParam sName] (json_body (callSchema fn))
       [(''200'', ''Successful response'')]"

definition columnSchema :: "Column \<Rightarrow> ColumnSchema" where
  "columnSchema col =
     \<lparr>cs_type = pgTypeToOpenAPI (col_DataType col), cs_nullable = col_IsNullable col,
      cs_default = (if col_DefaultValue col \<noteq> [] then Some (col_DefaultValue col) else None)\<rparr>"

definition buildSchema :: "Table \<Rightarrow> TableSchema" where
  "buildSchema table =
     \<lparr>ts_properties = fold (\<lambda>col. AList.update (col_Name col) (columnSchema col)) (OrderedColumns table) [],
      ts_required = map col_Name (filter (\<lambda>col. \<not> col_IsNullable col \<and> col_DefaultValue col = []) (OrderedColumns table))\<rparr>"

section \<open>The document\<close>

definition documents :: "Config \<Rightarrow> string \<Rightarrow> Table \<Rightarrow> string \<Rightarrow> bool" where
  "documents cfg tableName table method \<longleftrightarrow> IsMethodAllowed table method \<and> cfg_IsMethodAllowed cfg tableName method"

definition tableItem :: "Config \<Rightarrow> string \<Rightarrow> string \<Rightarrow> Table \<Rightarrow> PathItem" where
  "tableItem cfg sName tableName table =
     (let entry = (\<lambda>method key build. if documents cfg tableName table method then [(key, build table sName)] else [])
      in entry ''GET'' ''get'' buildGETOp @ entry ''HEAD'' ''head'' buildHEADOp @
         (if \<not> tbl_IsView table
          then entry ''POST'' ''post'' buildPOSTOp @ entry ''PUT'' ''put'' buildPUTOp @
               entry ''PATCH'' ''patch'' buildPATCHOp @ entry ''DELETE'' ''delete'' buildDELETEOp
          else []) @
         [(''options'', buildOPTIONSOps table sName)])"

definition addTableDoc :: "Config \<Rightarrow> string \<Rightarrow> string \<times> Table \<Rightarrow> Spec \<Rightarrow> Spec" where
  "addTableDoc cfg sName entry spec =
     (let (tableName, table) = entry
      in if IsTableHidden cfg tableName then spec
         else spec\<lparr>spec_Paths := AList.update (''/'' @ sName @ ''/'' @ tableName) (tableItem cfg sName tableName table) (spec_Paths spec),
                   spec_Schemas := AList.update tableName (buildSchema table) (spec_Schemas spec)\<rparr>)"

definition addFunctionDoc :: "Config \<Rightarrow> string \<Rightarrow> string \<times> Function \<Rightarrow> Spec \<Rightarrow> Spec" where
  "addFunctionDoc cfg sName entry spec =
     (let (funcName, fn) = entry
      in if \<not> IsRPCEnabled cfg funcName then spec
         else spec\<lparr>spec_Paths := AList.update (''/'' @ sName @ ''/rpc/'' @ funcName) [(''post'', buildRPCOp fn sName)] (spec_Paths spec)\<rparr>)"

definition addSchemaDoc :: "SchemaStore \<Rightarrow> Config \<Rightarrow> string \<Rightarrow> Spec \<Rightarrow> Spec" where
  "addSchemaDoc store cfg sName spec =
     fold (addFunctionDoc cfg sName) (FunctionsBySchema store sName)
       (fold (addTableDoc cfg sName) (TablesBySchema store sName) spec)"

definition emptySpec :: Spec where
  "emptySpec = \<lparr>spec_OpenAPI = ''3.0.3'', spec_Title = ''rest-trans'',
     spec_Description = ''Auto-generated REST API from PostgreSQL schema'', spec_Version = ''1.0.0'',
     spec_Servers = [(''/'', ''Default server'')], spec_Paths = [], spec_Schemas = []\<rparr>"

definition Generate :: "SchemaStore \<Rightarrow> Config \<Rightarrow> Spec" where
  "Generate store cfg = fold (addSchemaDoc store cfg) (SchemaNames store) emptySpec"

section \<open>The paths of the document\<close>

definition schemaEntries :: "SchemaStore \<Rightarrow> Config \<Rightarrow> string \<Rightarrow> (string \<times> PathItem) list" where
  "schemaEntries store cfg s =
     map (\<lambda>(name, table). (''/'' @ s @ ''/'' @ name, tableItem cfg s name table))
       (filter (\<lambda>(name, table). \<not> IsTableHidden cfg name) (TablesBySchema store s)) @
     map (\<lambda>(name, fn). (''/'' @ s @ ''/rpc/'' @ name, [(''post'', buildRPCOp fn s)]))
       (filter (\<lambda>(name, fn). IsRPCEnabled cfg name) (FunctionsBySchema store s))"

abbreviation put_all :: "(string \<times> 'v) list \<Rightarrow> (string \<times> 'v) list \<Rightarrow> (string \<times> 'v) list" where
  "put_all \<equiv> fold (\<lambda>(k, v). AList.update k v)"

lemma spec_Paths_tables:
  "spec_Paths (fold (addTableDoc cfg s) ts spec) =
     put_all (map (\<lambda>(name, table). (''/'' @ s @ ''/'' @ name, tableItem cfg s name table))
       (filter (\<lambda>(name, table). \<not> IsTableHidden cfg name) ts)) (spec_Paths spec)"
  by (induction ts arbitrary: spec) (auto simp: addTableDoc_def)

lemma spec_Paths_functions:
  "spec_Paths (fold (addFunctionDoc cfg s) fs spec) =
     put_all (map (\<lambda>(name, fn). (''/'' @ s @ ''/rpc/'' @ name, [(''post'', buildRPCOp fn s)]))
       (filter (\<lambda>(name, fn). IsRPCEnabled cfg name) fs)) (spec_Paths spec)"
  by (induction fs arbitrary: spec) (auto simp: addFunctionDoc_def)

lemma spec_Paths_Generate:
  "spec_Paths (Generate store cfg) = put_all (concat (map (schemaEntries store cfg) (SchemaNames store))) []"
proof -
  have "spec_Paths (fold (addSchemaDoc store cfg) names spec) =
      put_all (concat (map (schemaEntries store cfg) names)) (spec_Paths spec)" for names spec
    by (induction names arbitrary: spec)
      (simp_all add: addSchemaDoc_def schemaEntries_def spec_Paths_tables spec_Paths_functions)
  then show ?thesis by (simp add: Generate_def emptySpec_def)
qed

lemma map_of_put_all: "map_of (put_all es m) = map_of (rev es @ m)"
  by (induction es arbitrary: m) (auto simp: update_conv' fun_eq_iff map_add_def split: option.split)

lemma map_of_unique:
  assumes "(k, v) \<in> set es" "\<And>v'. (k, v') \<in> set es \<Longrightarrow> v' = v"
  shows "map_of es k = Some v"
proof -
  obtain v' where "map_of es k = Some v'"
    using assms(1) by (cases "map_of es k") (force simp: map_of_eq_None_iff)+
  with assms(2) [OF map_of_SomeD [OF this]] show ?thesis by simp
qed

definition slashes :: "string \<Rightarrow> nat" where
  "slashes s = length (filter (\<lambda>c. c = CHR ''/'') s)"

lemma slashes_simps [simp]:
  "slashes [] = 0" "slashes (c # s) = (if c = CHR ''/'' then 1 else 0) + slashes s" "slashes (s @ t) = slashes s + slashes t"
  by (simp_all add: slashes_def)

lemma slashes_none: "slashes s = 0 \<longleftrightarrow> CHR ''/'' \<notin> set s"
  by (auto simp: slashes_def filter_empty_conv)

lemma split_slash:
  assumes "s @ CHR ''/'' # t = s' @ CHR ''/'' # t'" "CHR ''/'' \<notin> set s" "CHR ''/'' \<notin> set s'"
  shows "s = s' \<and> t = t'"
proof -
  have "takeWhile (\<lambda>c. c \<noteq> CHR ''/'') (s @ CHR ''/'' # t) = s" "takeWhile (\<lambda>c. c \<noteq> CHR ''/'') (s' @ CHR ''/'' # t') = s'"
    using assms(2,3) by (auto simp: takeWhile_append)
  with assms(1) show ?thesis by (metis append_same_eq list.inject same_append_eq)
qed

lemma table_path:
  assumes "''/'' @ s @ ''/'' @ t = ''/'' @ s' @ ''/'' @ t'" "CHR ''/'' \<notin> set s" "CHR ''/'' \<notin> set t"
  shows "s' = s \<and> t' = t"
proof -
  have "slashes (''/'' @ s @ ''/'' @ t) = slashes (''/'' @ s' @ ''/'' @ t')" using assms(1) by simp
  then have "CHR ''/'' \<notin> set s'" using assms(2,3) by (simp flip: slashes_none)
  with split_slash [of s' t' s t] assms show ?thesis by auto
qed

lemma function_path:
  assumes "CHR ''/'' \<notin> set s" "CHR ''/'' \<notin> set t"
  shows "''/'' @ s @ ''/'' @ t \<noteq> ''/'' @ s' @ ''/rpc/'' @ f"
proof
  assume "''/'' @ s @ ''/'' @ t = ''/'' @ s' @ ''/rpc/'' @ f"
  then have "slashes (''/'' @ s @ ''/'' @ t) = slashes (''/'' @ s' @ ''/rpc/'' @ f)" by simp
  with assms show False by (simp flip: slashes_none)
qed

lemma Generate_path:
  assumes "store_ok store" "s \<noteq> []" "GetTable store s t = Some table" "\<not> IsTableHidden cfg t"
    "CHR ''/'' \<notin> set s" "CHR ''/'' \<notin> set t"
  shows "map_of (spec_Paths (Generate store cfg)) (''/'' @ s @ ''/'' @ t) = Some (tableItem cfg s t table)"
proof -
  let ?es = "concat (map (schemaEntries store cfg) (SchemaNames store))"
  obtain ts where ts: "map_of (ss_schemas store) s = Some ts" "map_of ts t = Some table"
    using assms(2,3) by (auto simp: GetTable_def get2_def split: option.splits)
  have tables: "TablesBySchema store s = ts" using assms(2) ts(1) by (simp add: TablesBySchema_def)
  have "distinct (map fst ts)" using assms(1) ts(1) by (auto simp: store_ok_def intro: keys_ok_inner)
  then have unique: "(t, table') \<in> set ts \<Longrightarrow> table' = table" for table' using ts(2) by (metis map_of_is_SomeI option.inject)
  have "map_of (rev ?es) (''/'' @ s @ ''/'' @ t) = Some (tableItem cfg s t table)"
  proof (rule map_of_unique)
    have "(t, table) \<in> set ts" using ts(2) by (rule map_of_SomeD)
    then have "(''/'' @ s @ ''/'' @ t, tableItem cfg s t table) \<in> set (schemaEntries store cfg s)"
      using assms(4) by (force simp: schemaEntries_def tables)
    moreover have "s \<in> set (SchemaNames store)" using map_of_SomeD [OF ts(1)] by (force simp: SchemaNames_def)
    ultimately show "(''/'' @ s @ ''/'' @ t, tableItem cfg s t table) \<in> set (rev ?es)"
      unfolding set_rev set_concat set_map image_image by (rule UN_I [rotated])
  next
    fix item assume "(''/'' @ s @ ''/'' @ t, item) \<in> set (rev ?es)"
    then obtain s' where s': "(''/'' @ s @ ''/'' @ t, item) \<in> set (schemaEntries store cfg s')"
      by (auto simp only: set_rev set_concat set_map)
    then consider t' table' where "(t', table') \<in> set (TablesBySchema store s')" "item = tableItem cfg s' t' table'"
          "''/'' @ s @ ''/'' @ t = ''/'' @ s' @ ''/'' @ t'"
      | f where "''/'' @ s @ ''/'' @ t = ''/'' @ s' @ ''/rpc/'' @ f"
      unfolding schemaEntries_def by (simp only: set_append Un_iff set_map set_filter) (elim disjE imageE, auto)
    then show "item = tableItem cfg s t table"
    proof cases
      case 1
      with table_path [OF 1(3) assms(5,6)] unique tables show ?thesis by auto
    next
      case 2
      with function_path [OF assms(5,6)] show ?thesis by blast
    qed
  qed
  then show ?thesis by (simp only: spec_Paths_Generate map_of_put_all append_Nil2)
qed

end
