(* ===== verification/TxManager.thy ===== *)
theory TxManager
  imports GoValue
begin

text \<open>
  \<^verbatim>\<open>internal/transaction/manager.go\<close>, \<^verbatim>\<open>types.go\<close>: deferred transactions.  Operations are staged in
  the tables \<^verbatim>\<open>rest_transactions\<close> and \<^verbatim>\<open>rest_transaction_operations\<close>, applied to the target tables
  by \<^verbatim>\<open>Commit\<close>, and undone by \<^verbatim>\<open>RollbackPostCommit\<close> from the row snapshots kept with them.

  The two metadata tables are part of the state and the SQL the code runs on them is modelled by
  its effect.  The target tables are an abstract state \<open>'db\<close>; what PostgreSQL does with the SQL
  texts the code hands it is a parameter, the record \<open>target\<close>.  Every call to the database may
  fail: \<open>w_faults\<close> is the script of failures, one entry per call (\<open>Some msg\<close> fails, an empty script
  never does).  A database transaction works on a copy that is published when it commits; the
  clock does not move within one operation.  An operation runs alone; the interleaving of two
  operations is not modelled.
\<close>

section \<open>Data\<close>

datatype Status = Pending | Committing | Committed | RolledBack

definition status_text :: "Status \<Rightarrow> string" where
  "status_text st = (case st of Pending \<Rightarrow> ''pending'' | Committing \<Rightarrow> ''committing''
     | Committed \<Rightarrow> ''committed'' | RolledBack \<Rightarrow> ''rolled_back'')"

text \<open>The order in which a transaction goes through its states.\<close>

fun status_rank :: "Status \<Rightarrow> nat" where
  "status_rank Pending = 0"
| "status_rank Committing = 1"
| "status_rank Committed = 2"
| "status_rank RolledBack = 3"

lemma status_rank_inj: "status_rank a = status_rank b \<Longrightarrow> a = b"
  by (cases a; cases b) auto

instantiation Status :: linorder
begin

definition less_eq_Status :: "Status \<Rightarrow> Status \<Rightarrow> bool" where
  "less_eq_Status a b \<longleftrightarrow> status_rank a \<le> status_rank b"

definition less_Status :: "Status \<Rightarrow> Status \<Rightarrow> bool" where
  "less_Status a b \<longleftrightarrow> status_rank a < status_rank b"

instance
  by standard (auto simp: less_eq_Status_def less_Status_def status_rank_inj)

end

record Transaction =
  tx_ID :: string
  tx_Schema :: string
  tx_Status :: Status
  tx_OpCount :: int
  tx_CreatedAt :: int
  tx_UpdatedAt :: int

record Operation =
  op_ID :: int
  op_TransactionID :: string
  op_Operation :: string
  op_TableName :: string
  op_SQLQuery :: string
  op_Params :: val
  op_BeforeState :: "val option"
  op_CommittedState :: "val option"
  op_RowIDs :: "val option"
  op_CreatedAt :: int

record 'db world =
  w_txs :: "Transaction list"
  w_ops :: "Operation list"
  w_nextOp :: int
  w_db :: 'db
  w_now :: int
  w_faults :: "string option list"

text \<open>
  The target database: a statement, an INSERT that returns the new id, a row as JSON by its id, a
  query with its columns (\<open>Inl msg\<close> is an error of the database); the rounding of numbers, the printing of times, and the visiting order
  of a Go map.
\<close>

record 'db target =
  tg_exec :: "string \<Rightarrow> val list \<Rightarrow> 'db \<Rightarrow> string + 'db"
  tg_queryId :: "string \<Rightarrow> val list \<Rightarrow> 'db \<Rightarrow> string + ('db \<times> int)"
  tg_row :: "string \<Rightarrow> val \<Rightarrow> 'db \<Rightarrow> string + val"
  tg_rows :: "string \<Rightarrow> val list \<Rightarrow> 'db \<Rightarrow> string + (string list \<times> val list list)"
  tg_num :: "string \<Rightarrow> string"
  tg_time :: "int \<Rightarrow> string"
  tg_range :: "(string \<times> val) list \<Rightarrow> (string \<times> val) list"

section \<open>Actions\<close>

text \<open>Code that reads and changes the world and may return an error.\<close>

type_synonym ('db, 'a) act = "'db world \<Rightarrow> 'a outcome \<times> 'db world"

definition ret :: "'a \<Rightarrow> ('db, 'a) act" where
  "ret x s = (Ok x, s)"

definition lift :: "string + 'a \<Rightarrow> ('db, 'a) act" where
  "lift m s = (case m of Inl e \<Rightarrow> (Error e, s) | Inr x \<Rightarrow> (Ok x, s))"

definition throw :: "string \<Rightarrow> ('db, 'a) act" where
  "throw e s = (Error e, s)"

definition gets :: "('db world \<Rightarrow> 'a) \<Rightarrow> ('db, 'a) act" where
  "gets f s = (Ok (f s), s)"

definition modifyW :: "('db world \<Rightarrow> 'db world) \<Rightarrow> ('db, unit) act" where
  "modifyW f s = (Ok (), f s)"

definition bindM :: "('db, 'a) act \<Rightarrow> ('a \<Rightarrow> ('db, 'b) act) \<Rightarrow> ('db, 'b) act" where
  "bindM m f s = (case m s of (Ok x, s') \<Rightarrow> f x s' | (Error e, s') \<Rightarrow> (Error e, s') | (Panic, s') \<Rightarrow> (Panic, s'))"

definition thenM :: "('db, 'a) act \<Rightarrow> ('db, 'b) act \<Rightarrow> ('db, 'b) act" where
  "thenM m k = bindM m (\<lambda>_. k)"

text \<open>\<^verbatim>\<open>fmt.Errorf("ctx: %w", err)\<close>, and a result whose error is dropped.\<close>

definition wrap :: "string \<Rightarrow> ('db, 'a) act \<Rightarrow> ('db, 'a) act" where
  "wrap ctx m s = (case m s of (Error e, s') \<Rightarrow> (Error (ctx @ '': '' @ e), s') | r \<Rightarrow> r)"

definition attempt :: "('db, 'a) act \<Rightarrow> ('db, 'a option) act" where
  "attempt m s = (case m s of (Ok x, s') \<Rightarrow> (Ok (Some x), s') | (Error e, s') \<Rightarrow> (Ok None, s')
                            | (Panic, s') \<Rightarrow> (Panic, s'))"

text \<open>One call to the database.\<close>

definition db_call :: "('db, unit) act" where
  "db_call s = (case w_faults s of
     [] \<Rightarrow> (Ok (), s)
   | None # fs \<Rightarrow> (Ok (), s\<lparr>w_faults := fs\<rparr>)
   | Some e # fs \<Rightarrow> (Error e, s\<lparr>w_faults := fs\<rparr>))"

section \<open>The metadata tables\<close>

definition find_tx :: "string \<Rightarrow> 'db world \<Rightarrow> Transaction option" where
  "find_tx txID s = find (\<lambda>t. tx_ID t = txID) (w_txs s)"

definition ops_of :: "string \<Rightarrow> 'db world \<Rightarrow> Operation list" where
  "ops_of txID s = sort_key op_ID (filter (\<lambda>o'. op_TransactionID o' = txID) (w_ops s))"

definition op_count :: "string \<Rightarrow> 'db world \<Rightarrow> int" where
  "op_count txID s = int (length (ops_of txID s))"

definition update_tx :: "string \<Rightarrow> (Transaction \<Rightarrow> Transaction) \<Rightarrow> Transaction list \<Rightarrow> Transaction list" where
  "update_tx txID f = map (\<lambda>t. if tx_ID t = txID then f t else t)"

definition update_op :: "int \<Rightarrow> (Operation \<Rightarrow> Operation) \<Rightarrow> 'db world \<Rightarrow> 'db world" where
  "update_op opID f s = s\<lparr>w_ops := map (\<lambda>o'. if op_ID o' = opID then f o' else o') (w_ops s)\<rparr>"

definition set_status :: "Status \<Rightarrow> int \<Rightarrow> Transaction \<Rightarrow> Transaction" where
  "set_status st now t = t\<lparr>tx_Status := st, tx_UpdatedAt := now\<rparr>"

definition not_pending :: string where
  "not_pending = ''transaction not found or not pending''"

section \<open>Operations of the manager\<close>

definition Start :: "string \<Rightarrow> string \<Rightarrow> ('db, Transaction) act" where
  "Start uuid schemaName =
     bindM (gets w_now) (\<lambda>now.
       let tx = \<lparr>tx_ID = uuid, tx_Schema = schemaName, tx_Status = Pending, tx_OpCount = 0,
                 tx_CreatedAt = now, tx_UpdatedAt = now\<rparr>
       in thenM (wrap ''create transaction'' db_call)
            (bindM (gets (find_tx uuid)) (\<lambda>r.
               if r \<noteq> None then throw ''create transaction: duplicate key''
               else thenM (modifyW (\<lambda>s. s\<lparr>w_txs := w_txs s @ [tx]\<rparr>)) (ret tx))))"

definition Get :: "string \<Rightarrow> ('db, Transaction option) act" where
  "Get txID =
     thenM (wrap ''get transaction'' db_call)
       (bindM (gets (find_tx txID)) (\<lambda>r.
          case r of
            None \<Rightarrow> ret None
          | Some tx \<Rightarrow>
              bindM (attempt (thenM db_call (gets (op_count txID)))) (\<lambda>n.
                ret (Some (tx\<lparr>tx_OpCount := (case n of None \<Rightarrow> 0 | Some n \<Rightarrow> n)\<rparr>)))))"

definition GetOperations :: "string \<Rightarrow> ('db, Operation list) act" where
  "GetOperations txID = thenM (wrap ''get operations'' db_call) (gets (ops_of txID))"

definition List :: "string \<Rightarrow> ('db, Transaction list) act" where
  "List schemaName =
     thenM (wrap ''list transactions'' db_call)
       (gets (\<lambda>s. map (\<lambda>t. t\<lparr>tx_OpCount := op_count (tx_ID t) s\<rparr>)
          (sort_key (\<lambda>t. - tx_CreatedAt t)
            (filter (\<lambda>t. tx_Schema t = schemaName \<and> tx_Status t = Pending) (w_txs s)))))"

definition is_pending :: "Transaction option \<Rightarrow> bool" where
  "is_pending r = (case r of None \<Rightarrow> False | Some tx \<Rightarrow> tx_Status tx = Pending)"

text \<open>What \<^verbatim>\<open>Stage\<close> does once the transaction was found pending.\<close>

definition stage_body ::
    "'db target \<Rightarrow> string \<Rightarrow> string \<Rightarrow> string \<Rightarrow> string \<Rightarrow> val \<Rightarrow> val option \<Rightarrow> val option \<Rightarrow> ('db, unit) act" where
  "stage_body tg txID op tableName sqlQuery params beforeState rowIDs =
     thenM (wrap ''stage operation'' db_call)
       (modifyW (\<lambda>s. s\<lparr>w_nextOp := w_nextOp s + 1,
          w_ops := w_ops s @
            [\<lparr>op_ID = w_nextOp s, op_TransactionID = txID, op_Operation = op, op_TableName = tableName,
              op_SQLQuery = sqlQuery, op_Params = to_json (tg_time tg) params,
              op_BeforeState = beforeState, op_CommittedState = None, op_RowIDs = rowIDs,
              op_CreatedAt = w_now s\<rparr>]\<rparr>))"

definition Stage ::
    "'db target \<Rightarrow> string \<Rightarrow> string \<Rightarrow> string \<Rightarrow> string \<Rightarrow> val \<Rightarrow> val option \<Rightarrow> val option \<Rightarrow> ('db, unit) act" where
  "Stage tg txID op tableName sqlQuery params beforeState rowIDs =
     bindM (Get txID) (\<lambda>tx.
       if \<not> is_pending tx then throw not_pending
       else stage_body tg txID op tableName sqlQuery params beforeState rowIDs)"

subsection \<open>Commit\<close>

definition op_error :: "Operation \<Rightarrow> string" where
  "op_error op = ''execute op '' @ Itoa (op_ID op) @ '' ('' @ op_Operation op @ '')''"

text \<open>One staged operation, on the copy \<open>db\<close> of the open target transaction.\<close>

definition runOp :: "'db target \<Rightarrow> Operation \<Rightarrow> 'db \<Rightarrow> ('db, 'db) act" where
  "runOp tg op db =
     (case as_slice (read_json (tg_num tg) (op_Params op)) of
        None \<Rightarrow> throw (''unmarshal params for op '' @ Itoa (op_ID op) @ '': json'')
      | Some params \<Rightarrow>
          if op_Operation op = ''INSERT'' then
            bindM (wrap (op_error op)
                (thenM db_call (lift (tg_queryId tg (op_SQLQuery op @ '' RETURNING id'') params db))))
              (\<lambda>(db', insertedID).
                thenM (attempt (thenM db_call
                    (modifyW (update_op (op_ID op)
                      (\<lambda>o'. o'\<lparr>op_RowIDs := Some (VArr [VNum (Itoa insertedID)])\<rparr>)))))
                  (ret db'))
          else wrap (op_error op) (thenM db_call (lift (tg_exec tg (op_SQLQuery op) params db))))"

fun runOps :: "'db target \<Rightarrow> Operation list \<Rightarrow> 'db \<Rightarrow> ('db, 'db) act" where
  "runOps tg [] db = ret db"
| "runOps tg (op # ops) db = bindM (runOp tg op db) (runOps tg ops)"

definition rowQuery :: "string \<Rightarrow> string" where
  "rowQuery table = ''SELECT row_to_json(t) FROM (SELECT * FROM '' @ table @ '' WHERE id = $1) t''"

text \<open>The rows of the snapshots as they are after the commit; what cannot be read is left out.\<close>

fun currentRows :: "'db target \<Rightarrow> string \<Rightarrow> (string \<times> val) list list \<Rightarrow> ('db, val list) act" where
  "currentRows tg table [] = ret []"
| "currentRows tg table (snapshot # snapshots) =
     (case map_of snapshot ''id'' of
        None \<Rightarrow> currentRows tg table snapshots
      | Some idVal \<Rightarrow>
          bindM (attempt (thenM db_call (bindM (gets w_db) (\<lambda>db. lift (tg_row tg (rowQuery table) idVal db)))))
            (\<lambda>r. case Option.bind r (\<lambda>v. as_map (read_json (tg_num tg) v)) of
                    None \<Rightarrow> currentRows tg table snapshots
                  | Some current \<Rightarrow>
                      bindM (currentRows tg table snapshots) (\<lambda>rest. ret (VObj current # rest))))"

definition recordOp :: "'db target \<Rightarrow> Operation \<Rightarrow> ('db, unit) act" where
  "recordOp tg op =
     (case op_BeforeState op of
        None \<Rightarrow> ret ()
      | Some before \<Rightarrow>
          (case as_maps (read_json (tg_num tg) before) of
             None \<Rightarrow> ret ()
           | Some snapshots \<Rightarrow>
               bindM (currentRows tg (op_TableName op) snapshots) (\<lambda>committed.
                 if committed = [] then ret ()
                 else thenM (attempt (thenM db_call
                     (modifyW (update_op (op_ID op)
                       (\<lambda>o'. o'\<lparr>op_CommittedState := Some (VArr committed)\<rparr>))))) (ret ()))))"

fun recordOps :: "'db target \<Rightarrow> Operation list \<Rightarrow> ('db, unit) act" where
  "recordOps tg [] = ret ()"
| "recordOps tg (op # ops) = thenM (recordOp tg op) (recordOps tg ops)"

text \<open>
  \<open>lock\<close> is the copy of \<^verbatim>\<open>rest_transactions\<close> that the lock transaction writes; it is published
  by its commit, the last call.
\<close>

definition commit_body :: "'db target \<Rightarrow> string \<Rightarrow> ('db, unit) act" where
  "commit_body tg txID =
       thenM (wrap ''begin lock transaction'' db_call)
      (bindM (thenM (wrap ''lock transaction'' db_call)
                (gets (\<lambda>s. update_tx txID
                  (\<lambda>t. if tx_Status t = Pending then t\<lparr>tx_Status := Committing\<rparr> else t) (w_txs s))))
        (\<lambda>lock.
       bindM (thenM (wrap ''read operations'' db_call) (gets (ops_of txID))) (\<lambda>ops.
       thenM (wrap ''iter operations'' db_call)
      (bindM (thenM (wrap ''begin target transaction'' db_call) (gets w_db)) (\<lambda>db.
       bindM (runOps tg ops db) (\<lambda>db'.
       thenM (wrap ''commit target'' db_call)
      (thenM (modifyW (\<lambda>s. s\<lparr>w_db := db'\<rparr>))
      (thenM (recordOps tg ops)
      (bindM (thenM (wrap ''mark committed'' db_call) (gets w_now)) (\<lambda>now.
       thenM (wrap ''commit lock'' db_call)
         (modifyW (\<lambda>s. s\<lparr>w_txs := update_tx txID (set_status Committed now) lock\<rparr>))))))))))))"

definition Commit :: "'db target \<Rightarrow> string \<Rightarrow> ('db, unit) act" where
  "Commit tg txID =
     bindM (Get txID) (\<lambda>tx. if \<not> is_pending tx then throw not_pending else commit_body tg txID)"

subsection \<open>Rollback before the commit\<close>

definition rollback_body :: "string \<Rightarrow> ('db, unit) act" where
  "rollback_body txID =
       thenM (wrap ''delete operations'' db_call)
      (thenM (modifyW (\<lambda>s. s\<lparr>w_ops := filter (\<lambda>o'. op_TransactionID o' \<noteq> txID) (w_ops s)\<rparr>))
      (thenM (wrap ''mark rolled back'' db_call)
         (modifyW (\<lambda>s. s\<lparr>w_txs := update_tx txID (set_status RolledBack (w_now s)) (w_txs s)\<rparr>))))"

definition Rollback :: "string \<Rightarrow> ('db, unit) act" where
  "Rollback txID =
     bindM (Get txID) (\<lambda>tx. if \<not> is_pending tx then throw not_pending else rollback_body txID)"

subsection \<open>Snapshots\<close>

text \<open>A row as a map: bytes become text, a later column of the same name wins.\<close>

definition scan_value :: "val \<Rightarrow> val" where
  "scan_value v = (case v of VBytes s \<Rightarrow> VStr s | _ \<Rightarrow> v)"

definition scan_row :: "string list \<Rightarrow> val list \<Rightarrow> (string \<times> val) list" where
  "scan_row columns vals = fold (\<lambda>(c, v). AList.update c (scan_value v)) (zip columns vals) []"

definition CaptureSnapshot ::
    "'db target \<Rightarrow> string \<Rightarrow> string \<Rightarrow> string \<Rightarrow> val list \<Rightarrow> ('db, val option \<times> val option) act" where
  "CaptureSnapshot tg schemaName tableName whereClause params =
     bindM (wrap ''capture snapshot query'' (thenM db_call (bindM (gets w_db) (\<lambda>db.
         lift (tg_rows tg (''SELECT * FROM '' @ schemaName @ ''.'' @ tableName @ '' WHERE '' @ whereClause) params db)))))
       (\<lambda>(columns, rows).
         thenM (wrap ''iterate rows'' db_call)
           (let snapshots = map (scan_row columns) rows;
                ids = List.map_filter (\<lambda>row. case map_of row ''id'' of Some VNil \<Rightarrow> None | r \<Rightarrow> r) snapshots
            in if snapshots = [] then ret (None, None)
               else ret (Some (to_json (tg_time tg) (VArr (map VObj snapshots))),
                         Some (if ids = [] then VNil else to_json (tg_time tg) (VArr ids)))))"

subsection \<open>Rollback after the commit\<close>

fun deleteRows :: "'db target \<Rightarrow> string \<Rightarrow> val list \<Rightarrow> 'db \<Rightarrow> ('db, 'db) act" where
  "deleteRows tg table [] db = ret db"
| "deleteRows tg table (i # is) db =
     bindM (wrap ''rollback INSERT (delete)''
         (thenM db_call (lift (tg_exec tg (''DELETE FROM '' @ table @ '' WHERE id = $1'') [i] db))))
       (deleteRows tg table is)"

text \<open>A column that was changed since the commit is a conflict; \<^verbatim>\<open>updated_at\<close> is not compared.\<close>

fun checkColumns :: "string \<Rightarrow> (string \<times> val) list \<Rightarrow> (string \<times> val) list \<Rightarrow> string + unit" where
  "checkColumns idText [] current = Inr ()"
| "checkColumns idText ((k, expected) # kvs) current =
     (if k = ''updated_at'' then checkColumns idText kvs current
      else (case map_of current k of
              None \<Rightarrow> Inl (''conflict: row '' @ idText @ '' missing column '' @ k)
            | Some currentVal \<Rightarrow>
                if fmtV expected \<noteq> fmtV currentVal
                then Inl (''conflict: row '' @ idText @ '' column '' @ k @ '' changed after commit'')
                else checkColumns idText kvs current))"

fun checkRows :: "'db target \<Rightarrow> string \<Rightarrow> (string \<times> val) list list \<Rightarrow> 'db \<Rightarrow> ('db, unit) act" where
  "checkRows tg table [] db = ret ()"
| "checkRows tg table (committed # cs) db =
     (case map_of committed ''id'' of
        None \<Rightarrow> checkRows tg table cs db
      | Some idVal \<Rightarrow>
          bindM (wrap (''conflict: cannot read row '' @ fmtV idVal)
              (thenM db_call (lift (tg_row tg (rowQuery table) idVal db))))
            (\<lambda>v. case as_map (read_json (tg_num tg) v) of
                    None \<Rightarrow> throw ''conflict check: json''
                  | Some current \<Rightarrow>
                      thenM (lift (checkColumns (fmtV idVal) (tg_range tg committed) current))
                        (checkRows tg table cs db)))"

text \<open>The UPDATE that puts a row back: every column but \<^verbatim>\<open>id\<close>, \<^verbatim>\<open>updated_at\<close> set to the present.\<close>

definition restoreSet :: "int \<Rightarrow> (string \<times> val) list \<Rightarrow> (string \<times> val) list" where
  "restoreSet now snapshot =
     map (\<lambda>(k, v). if k = ''updated_at'' then (k, VTime now) else (k, v))
       (filter (\<lambda>(k, v). k \<noteq> ''id'') snapshot)"

definition restoreUpdateText :: "string \<Rightarrow> string list \<Rightarrow> string" where
  "restoreUpdateText table cols =
     ''UPDATE '' @ table @ '' SET '' @
     Join (map (\<lambda>(i, k). k @ '' = '' @ CHR ''$'' # nat_text i) (enumerate 1 cols)) '', '' @
     '' WHERE id = $'' @ nat_text (length cols + 1)"

fun restoreRows :: "'db target \<Rightarrow> string \<Rightarrow> (string \<times> val) list list \<Rightarrow> 'db \<Rightarrow> ('db, 'db) act" where
  "restoreRows tg table [] db = ret db"
| "restoreRows tg table (snapshot # snapshots) db =
     bindM (gets w_now) (\<lambda>now.
       let kvs = restoreSet now (tg_range tg snapshot)
       in (case map_of snapshot ''id'' of
             None \<Rightarrow> restoreRows tg table snapshots db
           | Some idVal \<Rightarrow>
               bindM (wrap ''rollback UPDATE'' (thenM db_call
                   (lift (tg_exec tg (restoreUpdateText table (map fst kvs)) (map snd kvs @ [idVal]) db))))
                 (restoreRows tg table snapshots)))"

definition reinsertText :: "string \<Rightarrow> string list \<Rightarrow> string" where
  "reinsertText table cols =
     ''INSERT INTO '' @ table @ '' ('' @ Join cols '', '' @ '') VALUES ('' @
     Join (map (\<lambda>i. CHR ''$'' # nat_text i) [1 ..< 1 + length cols]) '', '' @ '')''"

fun reinsertRows :: "'db target \<Rightarrow> string \<Rightarrow> (string \<times> val) list list \<Rightarrow> 'db \<Rightarrow> ('db, 'db) act" where
  "reinsertRows tg table [] db = ret db"
| "reinsertRows tg table (snapshot # snapshots) db =
     (let kvs = tg_range tg snapshot
      in bindM (wrap ''rollback DELETE (insert)'' (thenM db_call
             (lift (tg_exec tg (reinsertText table (map fst kvs)) (map snd kvs) db))))
           (reinsertRows tg table snapshots))"

definition checkCommitted :: "'db target \<Rightarrow> Operation \<Rightarrow> 'db \<Rightarrow> ('db, unit) act" where
  "checkCommitted tg op db =
     (case Option.bind (op_CommittedState op) (\<lambda>v. as_maps (read_json (tg_num tg) v)) of
        None \<Rightarrow> ret ()
      | Some committed \<Rightarrow> checkRows tg (op_TableName op) committed db)"

definition undoOp :: "'db target \<Rightarrow> Operation \<Rightarrow> 'db \<Rightarrow> ('db, 'db) act" where
  "undoOp tg op db =
     (case op_BeforeState op of
        None \<Rightarrow>
          (if op_Operation op = ''INSERT'' then
             (case Option.bind (op_RowIDs op) (\<lambda>v. as_slice (read_json (tg_num tg) v)) of
                None \<Rightarrow> throw ''unmarshal row IDs: json''
              | Some rowIDs \<Rightarrow> deleteRows tg (op_TableName op) rowIDs db)
           else ret db)
      | Some before \<Rightarrow>
          (case as_maps (read_json (tg_num tg) before) of
             None \<Rightarrow> throw ''unmarshal before_state: json''
           | Some snapshots \<Rightarrow>
               if op_Operation op = ''UPDATE'' then
                 thenM (checkCommitted tg op db) (restoreRows tg (op_TableName op) snapshots db)
               else if op_Operation op = ''DELETE'' then reinsertRows tg (op_TableName op) snapshots db
               else ret db))"

fun undoOps :: "'db target \<Rightarrow> Operation list \<Rightarrow> 'db \<Rightarrow> ('db, 'db) act" where
  "undoOps tg [] db = ret db"
| "undoOps tg (op # ops) db = bindM (undoOp tg op db) (undoOps tg ops)"

definition undo_body :: "'db target \<Rightarrow> string \<Rightarrow> ('db, unit) act" where
  "undo_body tg txID =
       bindM (thenM (wrap ''read operations'' db_call) (gets (\<lambda>s. rev (ops_of txID s)))) (\<lambda>ops.
       thenM (wrap ''iterate operations'' db_call)
      (bindM (thenM (wrap ''begin target transaction'' db_call) (gets w_db)) (\<lambda>db.
       bindM (undoOps tg ops db) (\<lambda>db'.
       thenM (wrap ''commit rollback'' db_call)
      (thenM (modifyW (\<lambda>s. s\<lparr>w_db := db'\<rparr>))
      (thenM (wrap ''mark rolled back'' db_call)
         (modifyW (\<lambda>s. s\<lparr>w_txs := update_tx txID (set_status RolledBack (w_now s)) (w_txs s)\<rparr>))))))))"

definition is_committed :: "Transaction option \<Rightarrow> bool" where
  "is_committed r = (case r of None \<Rightarrow> False | Some tx \<Rightarrow> tx_Status tx = Committed)"

definition RollbackPostCommit :: "'db target \<Rightarrow> string \<Rightarrow> ('db, unit) act" where
  "RollbackPostCommit tg txID =
     bindM (Get txID) (\<lambda>tx.
       if \<not> is_committed tx then throw ''transaction not found or not committed'' else undo_body tg txID)"

subsection \<open>Cleanup\<close>

text \<open>Old pending and committed transactions go, with their operations (ON DELETE CASCADE).\<close>

definition expired :: "int \<Rightarrow> Transaction \<Rightarrow> bool" where
  "expired cutoff t = (tx_Status t = Pending \<and> tx_CreatedAt t < cutoff \<or>
                       tx_Status t = Committed \<and> tx_UpdatedAt t < cutoff)"

definition cleanup :: "int \<Rightarrow> ('db, unit) act" where
  "cleanup ttl =
     thenM (attempt (thenM db_call (modifyW (\<lambda>s.
       let cutoff = w_now s - ttl;
           gone = map tx_ID (filter (expired cutoff) (w_txs s))
       in s\<lparr>w_txs := filter (\<lambda>t. \<not> expired cutoff t) (w_txs s),
            w_ops := filter (\<lambda>o'. op_TransactionID o' \<notin> set gone) (w_ops s)\<rparr>)))) (ret ())"

section \<open>SQL texts of staged operations\<close>

definition BuildInsertQuery :: "string \<Rightarrow> string list \<Rightarrow> string list \<Rightarrow> string" where
  "BuildInsertQuery tableName columns placeholders =
     ''INSERT INTO '' @ tableName @ '' ('' @ Join columns '', '' @ '') VALUES ('' @ Join placeholders '', '' @ '')''"

definition BuildUpdateQuery :: "string \<Rightarrow> string list \<Rightarrow> string list \<Rightarrow> string" where
  "BuildUpdateQuery tableName setClauses placeholders =
     ''UPDATE '' @ tableName @ '' SET '' @ Join setClauses '', '' @ '' WHERE id = $'' @
     nat_text (length setClauses + 1)"

definition BuildDeleteQuery :: "string \<Rightarrow> string" where
  "BuildDeleteQuery tableName = ''DELETE FROM '' @ tableName @ '' WHERE id = $1''"

section \<open>Reasoning about actions\<close>

text \<open>
  \<open>wp m N E s\<close>: run from \<open>s\<close>, \<open>m\<close> returns a value that satisfies \<open>N\<close> together with the final state,
  or fails (\<open>Some msg\<close>; \<open>None\<close> is a panic) in a state that satisfies \<open>E\<close>.
\<close>

definition wp ::
    "('db, 'a) act \<Rightarrow> ('a \<Rightarrow> 'db world \<Rightarrow> bool) \<Rightarrow> (string option \<Rightarrow> 'db world \<Rightarrow> bool) \<Rightarrow> 'db world \<Rightarrow> bool" where
  "wp m N E s \<longleftrightarrow> (case m s of (Ok x, s') \<Rightarrow> N x s' | (Error e, s') \<Rightarrow> E (Some e) s' | (Panic, s') \<Rightarrow> E None s')"

named_theorems wp_intros \<open>one rule per construct of an action\<close>

lemma wp_mono:
  "wp m N E s \<Longrightarrow> (\<And>x s'. N x s' \<Longrightarrow> N' x s') \<Longrightarrow> (\<And>e s'. E e s' \<Longrightarrow> E' e s') \<Longrightarrow> wp m N' E' s"
  by (auto simp: wp_def split: outcome.splits prod.splits)

lemma wp_ret [wp_intros]: "N x s \<Longrightarrow> wp (ret x) N E s"
  by (simp add: wp_def ret_def)

lemma wp_throw [wp_intros]: "E (Some e) s \<Longrightarrow> wp (throw e) N E s"
  by (simp add: wp_def throw_def)

lemma wp_lift [wp_intros]:
  "(\<And>x. m = Inr x \<Longrightarrow> N x s) \<Longrightarrow> (\<And>e. m = Inl e \<Longrightarrow> E (Some e) s) \<Longrightarrow> wp (lift m) N E s"
  by (cases m) (simp_all add: wp_def lift_def)

lemma wp_gets [wp_intros]: "N (f s) s \<Longrightarrow> wp (gets f) N E s"
  by (simp add: wp_def gets_def)

lemma wp_modifyW [wp_intros]: "N () (f s) \<Longrightarrow> wp (modifyW f) N E s"
  by (simp add: wp_def modifyW_def)

lemma wp_bindM [wp_intros]: "wp m (\<lambda>x s1. wp (f x) N E s1) E s \<Longrightarrow> wp (bindM m f) N E s"
  by (auto simp: wp_def bindM_def split: outcome.splits prod.splits)

lemma wp_thenM [wp_intros]: "wp m (\<lambda>x s1. wp k N E s1) E s \<Longrightarrow> wp (thenM m k) N E s"
  unfolding thenM_def by (rule wp_bindM)

lemma wp_wrap [wp_intros]:
  "wp m N (\<lambda>e. E (map_option (\<lambda>e. ctx @ '': '' @ e) e)) s \<Longrightarrow> wp (wrap ctx m) N E s"
  by (auto simp: wp_def wrap_def split: outcome.splits prod.splits)

lemma wp_attempt [wp_intros]:
  "wp m (\<lambda>x. N (Some x)) (\<lambda>e s'. N None s' \<and> E e s') s \<Longrightarrow> wp (attempt m) N E s"
  by (auto simp: wp_def attempt_def split: outcome.splits prod.splits)

lemma wp_db_call [wp_intros]:
  assumes "\<And>fs. N () (s\<lparr>w_faults := fs\<rparr>)" "\<And>e fs. E e (s\<lparr>w_faults := fs\<rparr>)"
  shows "wp db_call N E s"
proof -
  have "N () s" using assms(1) [of "w_faults s"] by simp
  with assms show ?thesis by (auto simp: wp_def db_call_def split: list.splits option.splits)
qed

lemma wp_if [wp_intros]: "(b \<Longrightarrow> wp m N E s) \<Longrightarrow> (\<not> b \<Longrightarrow> wp k N E s) \<Longrightarrow> wp (if b then m else k) N E s"
  by simp

lemma wp_option [wp_intros]:
  "(x = None \<Longrightarrow> wp m N E s) \<Longrightarrow> (\<And>y. x = Some y \<Longrightarrow> wp (f y) N E s) \<Longrightarrow>
   wp (case x of None \<Rightarrow> m | Some y \<Rightarrow> f y) N E s"
  by (cases x) auto

lemma wp_prod [wp_intros]: "(\<And>a b. x = (a, b) \<Longrightarrow> wp (f a b) N E s) \<Longrightarrow> wp (case x of (a, b) \<Rightarrow> f a b) N E s"
  by (cases x) auto

lemma wp_Let [wp_intros]: "wp (f x) N E s \<Longrightarrow> wp (let y = x in f y) N E s"
  by simp

section \<open>What an operation leaves alone\<close>

text \<open>
  Two states agree up to the book-keeping of the staged operations (row ids, committed rows) and
  the script of failures.
\<close>

definition staged :: "Operation \<Rightarrow> Operation" where
  "staged o' = o'\<lparr>op_CommittedState := None, op_RowIDs := None\<rparr>"

definition quiet :: "'db world \<Rightarrow> 'db world \<Rightarrow> bool" where
  "quiet s s' \<longleftrightarrow> w_txs s' = w_txs s \<and> w_db s' = w_db s \<and> w_now s' = w_now s \<and> w_nextOp s' = w_nextOp s \<and>
     map staged (w_ops s') = map staged (w_ops s)"

lemma quiet_refl [simp]: "quiet s s"
  by (simp add: quiet_def)

lemma quiet_trans: "quiet s s' \<Longrightarrow> quiet s' s'' \<Longrightarrow> quiet s s''"
  by (simp add: quiet_def)

lemma quiet_faults [simp]: "quiet s (s'\<lparr>w_faults := fs\<rparr>) \<longleftrightarrow> quiet s s'"
  by (simp add: quiet_def)

lemma quiet_update_op:
  "(\<And>o'. staged (f o') = staged o') \<Longrightarrow> quiet s (update_op i f s)"
  by (simp add: quiet_def update_op_def)

lemma quiet_row_ids [simp]: "quiet s (update_op i (\<lambda>o'. o'\<lparr>op_RowIDs := v\<rparr>) s') \<longleftrightarrow> quiet s s'"
  using quiet_update_op [of "\<lambda>o'. o'\<lparr>op_RowIDs := v\<rparr>" s' i]
  by (auto simp: staged_def quiet_def)

lemma quiet_committed [simp]: "quiet s (update_op i (\<lambda>o'. o'\<lparr>op_CommittedState := v\<rparr>) s') \<longleftrightarrow> quiet s s'"
  using quiet_update_op [of "\<lambda>o'. o'\<lparr>op_CommittedState := v\<rparr>" s' i]
  by (auto simp: staged_def quiet_def)

lemma wp_Get [wp_intros]:
  assumes "\<And>tx s'. quiet s s' \<Longrightarrow> w_ops s' = w_ops s \<Longrightarrow>
      map_option tx_Status tx = map_option tx_Status (find_tx txID s) \<Longrightarrow> N tx s'"
    and "\<And>e s'. quiet s s' \<Longrightarrow> w_ops s' = w_ops s \<Longrightarrow> E e s'"
  shows "wp (Get txID) N E s"
  unfolding Get_def
  by (intro wp_intros conjI) (auto intro!: assms simp: find_tx_def quiet_def)

section \<open>Staged operations as a function on the target\<close>

text \<open>What a list of staged operations does to the target tables, with no failures and no book-keeping.\<close>

definition apply_op :: "'db target \<Rightarrow> Operation \<Rightarrow> 'db \<Rightarrow> 'db option" where
  "apply_op tg op db =
     Option.bind (as_slice (read_json (tg_num tg) (op_Params op))) (\<lambda>params.
       if op_Operation op = ''INSERT''
       then (case tg_queryId tg (op_SQLQuery op @ '' RETURNING id'') params db of Inr (db', _) \<Rightarrow> Some db' | Inl _ \<Rightarrow> None)
       else (case tg_exec tg (op_SQLQuery op) params db of Inr db' \<Rightarrow> Some db' | Inl _ \<Rightarrow> None))"

fun apply_ops :: "'db target \<Rightarrow> Operation list \<Rightarrow> 'db \<Rightarrow> 'db option" where
  "apply_ops tg [] db = Some db"
| "apply_ops tg (op # ops) db = Option.bind (apply_op tg op db) (apply_ops tg ops)"

lemma wp_runOp:
  "wp (runOp tg op db) (\<lambda>db' s'. quiet s s' \<and> apply_op tg op db = Some db') (\<lambda>_ s'. quiet s s') s"
  unfolding runOp_def
  by (intro wp_intros conjI) (auto simp: apply_op_def)

lemma wp_runOps [wp_intros]:
  assumes "\<And>db' s'. quiet s s' \<Longrightarrow> apply_ops tg ops db = Some db' \<Longrightarrow> N db' s'"
    and "\<And>e s'. quiet s s' \<Longrightarrow> E e s'"
  shows "wp (runOps tg ops db) N E s"
proof -
  have "wp (runOps tg ops db) (\<lambda>db' s'. quiet s s' \<and> apply_ops tg ops db = Some db') (\<lambda>_ s'. quiet s s') s"
  proof (induction ops arbitrary: db s)
    case Nil
    show ?case by (simp add: wp_ret)
  next
    case (Cons op ops)
    show ?case
      unfolding runOps.simps
      by (rule wp_bindM, rule wp_mono [OF wp_runOp])
        (auto intro!: wp_mono [OF Cons.IH] intro: quiet_trans)
  qed
  then show ?thesis by (rule wp_mono) (auto intro: assms)
qed

lemma wp_currentRows:
  "wp (currentRows tg table snapshots) (\<lambda>_ s'. quiet s s') (\<lambda>_ s'. quiet s s') s"
proof (induction snapshots arbitrary: s)
  case Nil
  show ?case by (simp add: wp_ret)
next
  case (Cons snapshot snapshots)
  have IH: "quiet s s1 \<Longrightarrow> wp (currentRows tg table snapshots) (\<lambda>_ s'. quiet s s') (\<lambda>_ s'. quiet s s') s1" for s1
    using Cons.IH [of s1] by (rule wp_mono) (auto intro: quiet_trans)
  have IH': "quiet s s1 \<Longrightarrow> wp (bindM (currentRows tg table snapshots) (\<lambda>rest. ret (v # rest)))
      (\<lambda>_ s'. quiet s s') (\<lambda>_ s'. quiet s s') s1" for s1 v
    by (intro wp_intros wp_mono [OF IH]) auto
  show ?case
    unfolding currentRows.simps by (intro wp_intros conjI IH IH') auto
qed

lemma wp_recordOp:
  "wp (recordOp tg op) (\<lambda>_ s'. quiet s s') (\<lambda>_ s'. quiet s s') s"
  unfolding recordOp_def
  by (intro wp_intros conjI wp_mono [OF wp_currentRows]) auto

lemma wp_recordOps [wp_intros]:
  assumes "\<And>s'. quiet s s' \<Longrightarrow> N () s'" "\<And>e s'. quiet s s' \<Longrightarrow> E e s'"
  shows "wp (recordOps tg ops) N E s"
proof -
  have "wp (recordOps tg ops) (\<lambda>_ s'. quiet s s') (\<lambda>_ s'. quiet s s') s"
  proof (induction ops arbitrary: s)
    case Nil
    show ?case by (simp add: wp_ret)
  next
    case (Cons op ops)
    show ?case
      unfolding recordOps.simps
      by (rule wp_thenM, rule wp_mono [OF wp_recordOp]) (auto intro!: wp_mono [OF Cons.IH] intro: quiet_trans)
  qed
  then show ?thesis by (rule wp_mono) (auto intro: assms)
qed

section \<open>Commit\<close>

lemma quiet_sels:
  "quiet s s' \<Longrightarrow> w_txs s' = w_txs s" "quiet s s' \<Longrightarrow> w_db s' = w_db s" "quiet s s' \<Longrightarrow> w_now s' = w_now s"
  "quiet s s' \<Longrightarrow> w_nextOp s' = w_nextOp s" "quiet s s' \<Longrightarrow> map staged (w_ops s') = map staged (w_ops s)"
  "quiet s s' \<Longrightarrow> find_tx txID s' = find_tx txID s"
  by (simp_all add: quiet_def find_tx_def)

lemma is_pending_status: "is_pending tx \<longleftrightarrow> map_option tx_Status tx = Some Pending"
  by (cases tx) (auto simp: is_pending_def)

lemma is_committed_status: "is_committed tx \<longleftrightarrow> map_option tx_Status tx = Some Committed"
  by (cases tx) (auto simp: is_committed_def)

text \<open>The transaction table after a commit at time \<open>now\<close>.\<close>

definition committed_txs :: "string \<Rightarrow> int \<Rightarrow> Transaction list \<Rightarrow> Transaction list" where
  "committed_txs txID now txs = update_tx txID (set_status Committed now) txs"

lemma committed_lock:
  "update_tx txID (set_status Committed now)
     (update_tx txID (\<lambda>t. if tx_Status t = Pending then t\<lparr>tx_Status := Committing\<rparr> else t) txs) =
   committed_txs txID now txs"
  by (auto simp: committed_txs_def update_tx_def set_status_def)

lemma quiet_wdb: "quiet s s1 \<Longrightarrow> quiet (s1\<lparr>w_db := d\<rparr>) s2 \<Longrightarrow> quiet (s\<lparr>w_db := d\<rparr>) s2"
  by (simp add: quiet_def)

text \<open>
  A commit that succeeds has applied all staged operations and marked the transaction.  One that
  fails has applied none of them, or all with the transaction still pending (the failure came
  after the target's commit).
\<close>

lemma wp_Commit:
  "wp (Commit tg txID)
     (\<lambda>_ s'. map_option tx_Status (find_tx txID s) = Some Pending \<and>
        (\<exists>db'. apply_ops tg (ops_of txID s) (w_db s) = Some db' \<and>
           quiet (s\<lparr>w_db := db', w_txs := committed_txs txID (w_now s) (w_txs s)\<rparr>) s'))
     (\<lambda>_ s'. quiet s s' \<or> map_option tx_Status (find_tx txID s) = Some Pending \<and>
        (\<exists>db'. apply_ops tg (ops_of txID s) (w_db s) = Some db' \<and> quiet (s\<lparr>w_db := db'\<rparr>) s')) s"
  unfolding Commit_def commit_body_def
  by (intro wp_intros)
    (simp_all add: is_pending_status committed_lock, simp_all add: quiet_def ops_of_def)

section \<open>Rollback\<close>

lemma wp_deleteRows:
  "wp (deleteRows tg table is db) (\<lambda>_ s'. quiet s s') (\<lambda>_ s'. quiet s s') s"
proof (induction "is" arbitrary: db s)
  case (Cons i "is")
  show ?case unfolding deleteRows.simps
    by (intro wp_intros wp_mono [OF Cons.IH]) (auto simp: quiet_def)
qed (simp add: wp_ret)

lemma wp_checkRows:
  "wp (checkRows tg table cs db) (\<lambda>_ s'. quiet s s') (\<lambda>_ s'. quiet s s') s"
proof (induction cs arbitrary: s)
  case (Cons c cs)
  show ?case unfolding checkRows.simps
    by (intro wp_intros wp_mono [OF Cons.IH]) (auto simp: quiet_def)
qed (simp add: wp_ret)

lemma wp_restoreRows:
  "wp (restoreRows tg table rows db) (\<lambda>_ s'. quiet s s') (\<lambda>_ s'. quiet s s') s"
proof (induction rows arbitrary: db s)
  case (Cons r rows)
  show ?case unfolding restoreRows.simps
    by (intro wp_intros wp_mono [OF Cons.IH]) (auto simp: quiet_def)
qed (simp add: wp_ret)

lemma wp_reinsertRows:
  "wp (reinsertRows tg table rows db) (\<lambda>_ s'. quiet s s') (\<lambda>_ s'. quiet s s') s"
proof (induction rows arbitrary: db s)
  case (Cons r rows)
  show ?case unfolding reinsertRows.simps
    by (intro wp_intros wp_mono [OF Cons.IH]) (auto simp: quiet_def)
qed (simp add: wp_ret)

lemma wp_undoOp:
  "wp (undoOp tg op db) (\<lambda>_ s'. quiet s s') (\<lambda>_ s'. quiet s s') s"
  unfolding undoOp_def checkCommitted_def
  by (intro wp_intros wp_mono [OF wp_deleteRows] wp_mono [OF wp_checkRows] wp_mono [OF wp_restoreRows]
      wp_mono [OF wp_reinsertRows]) (auto simp: quiet_def)

text \<open>Failures aside, an undo depends on nothing but the operations, the target and the clock.\<close>

definition calm :: "'db world \<Rightarrow> 'db world" where
  "calm s = s\<lparr>w_faults := []\<rparr>"

definition calmly :: "('db, 'a) act \<Rightarrow> bool" where
  "calmly m \<longleftrightarrow> (\<forall>s x s'. m s = (Ok x, s') \<longrightarrow> m (calm s) = (Ok x, calm s'))"

named_theorems calmly_intros \<open>actions whose success does not depend on the script\<close>

lemma calmly_ret [calmly_intros]: "calmly (ret x)"
  by (simp add: calmly_def ret_def)

lemma calmly_throw [calmly_intros]: "calmly (throw e)"
  by (simp add: calmly_def throw_def)

lemma calmly_lift [calmly_intros]: "calmly (lift m)"
  by (auto simp: calmly_def lift_def split: sum.splits)

lemma calmly_now [calmly_intros]: "calmly (gets w_now)"
  by (simp add: calmly_def gets_def calm_def)

lemma calmly_db_call [calmly_intros]: "calmly db_call"
  by (auto simp: calmly_def db_call_def calm_def split: list.splits option.splits)

lemma calmly_bindM [calmly_intros]: "calmly m \<Longrightarrow> (\<And>x. calmly (f x)) \<Longrightarrow> calmly (bindM m f)"
  by (auto simp: calmly_def bindM_def split: outcome.splits prod.splits)

lemma calmly_thenM [calmly_intros]: "calmly m \<Longrightarrow> calmly k \<Longrightarrow> calmly (thenM m k)"
  unfolding thenM_def by (rule calmly_bindM)

lemma calmly_wrap [calmly_intros]: "calmly m \<Longrightarrow> calmly (wrap ctx m)"
  by (auto simp: calmly_def wrap_def split: outcome.splits prod.splits)

lemma calmly_option [calmly_intros]:
  "calmly m \<Longrightarrow> (\<And>y. calmly (f y)) \<Longrightarrow> calmly (case x of None \<Rightarrow> m | Some y \<Rightarrow> f y)"
  by (cases x) auto

lemma calmly_if [calmly_intros]: "calmly m \<Longrightarrow> calmly k \<Longrightarrow> calmly (if b then m else k)"
  by simp

lemma calmly_Let [calmly_intros]: "calmly (f x) \<Longrightarrow> calmly (let y = x in f y)"
  by simp

lemma calmly_deleteRows: "calmly (deleteRows tg table is db)"
  by (induction "is" arbitrary: db) (auto intro!: calmly_intros)

lemma calmly_checkRows: "calmly (checkRows tg table cs db)"
  by (induction cs) (auto intro!: calmly_intros)

lemma calmly_restoreRows: "calmly (restoreRows tg table rows db)"
  by (induction rows arbitrary: db) (auto intro!: calmly_intros)

lemma calmly_reinsertRows: "calmly (reinsertRows tg table rows db)"
  by (induction rows arbitrary: db) (auto intro!: calmly_intros)

lemma calmly_undoOp: "calmly (undoOp tg op db)"
  unfolding undoOp_def checkCommitted_def
  by (intro calmly_intros calmly_deleteRows calmly_checkRows calmly_restoreRows calmly_reinsertRows)

lemma calmly_undoOps: "calmly (undoOps tg ops db)"
  by (induction ops arbitrary: db) (auto intro!: calmly_intros calmly_undoOp)

text \<open>The target after the operations are undone, when that is possible.\<close>

definition undone :: "'db target \<Rightarrow> Operation list \<Rightarrow> 'db world \<Rightarrow> 'db outcome" where
  "undone tg ops s = fst (undoOps tg ops (w_db s) (calm s))"

lemma wp_undoOps [wp_intros]:
  assumes "\<And>db' s'. quiet s s' \<Longrightarrow> fst (undoOps tg ops db (calm s)) = Ok db' \<Longrightarrow> N db' s'"
    and "\<And>e s'. quiet s s' \<Longrightarrow> E e s'"
  shows "wp (undoOps tg ops db) N E s"
proof -
  have q: "wp (undoOps tg ops db) (\<lambda>_ s'. quiet s s') (\<lambda>_ s'. quiet s s') s" for db and s :: "'a world"
  proof (induction ops arbitrary: db s)
    case Nil
    show ?case by (simp add: wp_ret)
  next
    case (Cons op ops)
    show ?case
      unfolding undoOps.simps
      by (rule wp_bindM, rule wp_mono [OF wp_undoOp]) (auto intro!: wp_mono [OF Cons.IH] intro: quiet_trans)
  qed
  have "undoOps tg ops db s = (Ok db', s') \<Longrightarrow> fst (undoOps tg ops db (calm s)) = Ok db'" for db' s'
    using calmly_undoOps [of tg ops db] by (simp add: calmly_def)
  with q [of db s] assms show ?thesis
    by (auto simp: wp_def split: outcome.splits prod.splits)
qed

lemma wp_Rollback:
  "wp (Rollback txID)
     (\<lambda>_ s'. map_option tx_Status (find_tx txID s) = Some Pending \<and>
        quiet (s\<lparr>w_ops := filter (\<lambda>o'. op_TransactionID o' \<noteq> txID) (w_ops s),
                 w_txs := update_tx txID (set_status RolledBack (w_now s)) (w_txs s)\<rparr>) s')
     (\<lambda>_ s'. quiet s s' \<or> map_option tx_Status (find_tx txID s) = Some Pending \<and>
        quiet (s\<lparr>w_ops := filter (\<lambda>o'. op_TransactionID o' \<noteq> txID) (w_ops s)\<rparr>) s') s"
  unfolding Rollback_def rollback_body_def
  by (intro wp_intros) (simp_all add: is_pending_status, simp_all add: quiet_def)

text \<open>The same alternative for the rollback of a committed transaction.\<close>

lemma wp_RollbackPostCommit:
  "wp (RollbackPostCommit tg txID)
     (\<lambda>_ s'. map_option tx_Status (find_tx txID s) = Some Committed \<and>
        (\<exists>db'. undone tg (rev (ops_of txID s)) s = Ok db' \<and>
           quiet (s\<lparr>w_db := db', w_txs := update_tx txID (set_status RolledBack (w_now s)) (w_txs s)\<rparr>) s'))
     (\<lambda>_ s'. quiet s s' \<or> map_option tx_Status (find_tx txID s) = Some Committed \<and>
        (\<exists>db'. undone tg (rev (ops_of txID s)) s = Ok db' \<and> quiet (s\<lparr>w_db := db'\<rparr>) s')) s"
proof -
  have calm_eq: "calm (s'\<lparr>w_faults := fs\<rparr>) = calm s"
    if "w_txs s' = w_txs s" "w_db s' = w_db s" "w_now s' = w_now s" "w_nextOp s' = w_nextOp s" "w_ops s' = w_ops s"
    for s' fs using that by (cases s; cases s') (simp add: calm_def)
  show ?thesis
    unfolding RollbackPostCommit_def undo_body_def
    by (intro wp_intros) (simp_all only: not_not is_committed_status undone_def, simp_all add: quiet_def ops_of_def calm_eq)
qed

section \<open>The invariant of the metadata tables\<close>

definition meta_ok :: "'db world \<Rightarrow> bool" where
  "meta_ok s \<longleftrightarrow> distinct (map tx_ID (w_txs s)) \<and> Committing \<notin> tx_Status ` set (w_txs s) \<and>
     sorted_wrt (<) (map op_ID (w_ops s)) \<and> (\<forall>o' \<in> set (w_ops s). op_ID o' < w_nextOp s) \<and>
     op_TransactionID ` set (w_ops s) \<subseteq> tx_ID ` set (w_txs s)"

text \<open>The moves a transaction can make.\<close>

fun next_status :: "Status \<Rightarrow> Status \<Rightarrow> bool" where
  "next_status Pending b \<longleftrightarrow> b \<noteq> Committing"
| "next_status Committed b \<longleftrightarrow> b = Committed \<or> b = RolledBack"
| "next_status a b \<longleftrightarrow> a = b"

lemma next_status_le: "next_status a b \<Longrightarrow> a \<le> b"
  by (cases a; cases b) (auto simp: less_eq_Status_def)

lemma next_status_refl [simp]: "next_status a a \<longleftrightarrow> a \<noteq> Pending \<or> a = Pending"
  by (cases a) auto

text \<open>
  The state moves forward: a transaction that is there before and after has made an allowed move,
  and the operations staged for one that was not pending are what they were.
\<close>

definition forward :: "'db world \<Rightarrow> 'db world \<Rightarrow> bool" where
  "forward s s' \<longleftrightarrow> (\<forall>i t t'. find_tx i s = Some t \<longrightarrow> find_tx i s' = Some t' \<longrightarrow>
     next_status (tx_Status t) (tx_Status t') \<and>
     (tx_Status t \<noteq> Pending \<longrightarrow> map staged (ops_of i s') = map staged (ops_of i s)))"

definition good :: "'db world \<Rightarrow> 'db world \<Rightarrow> bool" where
  "good s s' \<longleftrightarrow> (meta_ok s \<longrightarrow> meta_ok s' \<and> forward s s')"

lemma staged_sels [simp]:
  "op_ID (staged o') = op_ID o'" "op_TransactionID (staged o') = op_TransactionID o'"
  by (simp_all add: staged_def)

lemma filter_map_staged:
  "filter (\<lambda>o'. op_TransactionID o' = i) (map staged os) = map staged (filter (\<lambda>o'. op_TransactionID o' = i) os)"
  by (induction os) auto

lemma insort_staged: "map staged (insort_key op_ID x xs) = insort_key op_ID (staged x) (map staged xs)"
  by (induction xs) auto

lemma sort_staged: "map staged (sort_key op_ID xs) = sort_key op_ID (map staged xs)"
  by (induction xs) (auto simp: insort_staged)

lemma staged_ops_of:
  "map staged (ops_of i s) = sort_key op_ID (filter (\<lambda>o'. op_TransactionID o' = i) (map staged (w_ops s)))"
  by (simp add: ops_of_def sort_staged filter_map_staged)

lemma map_staged_ids:
  assumes "map staged xs = map staged ys"
  shows "map op_ID xs = map op_ID ys" "map op_TransactionID xs = map op_TransactionID ys"
proof -
  have "map op_ID (map staged xs) = map op_ID (map staged ys)"
    "map op_TransactionID (map staged xs) = map op_TransactionID (map staged ys)"
    using assms by simp_all
  then show "map op_ID xs = map op_ID ys" "map op_TransactionID xs = map op_TransactionID ys"
    by (simp_all add: comp_def)
qed

lemma meta_ok_alt:
  "meta_ok s \<longleftrightarrow> distinct (map tx_ID (w_txs s)) \<and> Committing \<notin> tx_Status ` set (w_txs s) \<and>
     sorted_wrt (<) (map op_ID (w_ops s)) \<and> (\<forall>i \<in> set (map op_ID (w_ops s)). i < w_nextOp s) \<and>
     set (map op_TransactionID (w_ops s)) \<subseteq> tx_ID ` set (w_txs s)"
  by (simp add: meta_ok_def)

text \<open>Quiet steps, a change of the target, and the passage of time keep everything.\<close>

lemma good_quiet:
  assumes "w_txs s' = w_txs s" "w_nextOp s' = w_nextOp s" "map staged (w_ops s') = map staged (w_ops s)"
  shows "good s s'"
  using map_staged_ids [OF assms(3)] assms
  by (auto simp: good_def meta_ok_alt forward_def find_tx_def staged_ops_of)

lemma good_trans_quiet: "good s s' \<Longrightarrow> quiet s' s'' \<Longrightarrow> good s s''"
proof -
  assume g: "good s s'" and q: "quiet s' s''"
  then have "meta_ok s \<Longrightarrow> meta_ok s''"
    using good_quiet [of s'' s'] by (simp add: good_def quiet_def)
  moreover have "find_tx i s'' = find_tx i s'" "map staged (ops_of i s'') = map staged (ops_of i s')" for i
    using q by (simp_all add: find_tx_def quiet_def staged_ops_of)
  ultimately show ?thesis using g by (simp add: good_def forward_def)
qed

lemma find_update_tx:
  "(\<And>t. tx_ID (f t) = tx_ID t) \<Longrightarrow>
   find (\<lambda>t. tx_ID t = i) (update_tx j f ts) =
     map_option (\<lambda>t. if i = j then f t else t) (find (\<lambda>t. tx_ID t = i) ts)"
  by (induction ts) (auto simp: update_tx_def)

lemma update_tx_ids: "(\<And>t. tx_ID (f t) = tx_ID t) \<Longrightarrow> map tx_ID (update_tx j f ts) = map tx_ID ts"
  by (simp add: update_tx_def)

lemma set_status_sels [simp]: "tx_ID (set_status st n t) = tx_ID t" "tx_Status (set_status st n t) = st"
  by (simp_all add: set_status_def)

lemma ops_of_drop:
  "j \<noteq> i \<Longrightarrow> w_ops s' = filter (\<lambda>o'. op_TransactionID o' \<noteq> i) (w_ops s) \<Longrightarrow> ops_of j s' = ops_of j s"
proof -
  have "j \<noteq> i \<Longrightarrow> filter (\<lambda>o'. op_TransactionID o' = j) (filter (\<lambda>o'. op_TransactionID o' \<noteq> i) xs) =
      filter (\<lambda>o'. op_TransactionID o' = j) xs" for xs
    by (induction xs) auto
  then show "j \<noteq> i \<Longrightarrow> w_ops s' = filter (\<lambda>o'. op_TransactionID o' \<noteq> i) (w_ops s) \<Longrightarrow>
      ops_of j s' = ops_of j s"
    unfolding ops_of_def by metis
qed

lemma find_txD: "find_tx i s = Some t \<Longrightarrow> t \<in> set (w_txs s) \<and> tx_ID t = i"
  by (auto simp: find_tx_def find_Some_iff)

text \<open>Changing the status of one transaction, and perhaps dropping its operations.\<close>

lemma good_status:
  assumes "map_option tx_Status (find_tx i s) = Some old" "next_status old new" "new \<noteq> Committing"
    and "w_txs s' = update_tx i (set_status new n) (w_txs s)" "w_nextOp s' = w_nextOp s"
    and "w_ops s' = w_ops s \<or> old = Pending \<and> w_ops s' = filter (\<lambda>o'. op_TransactionID o' \<noteq> i) (w_ops s)"
  shows "good s s'"
proof -
  have "tx_ID ` set (update_tx i (set_status new n) (w_txs s)) = tx_ID ` set (w_txs s)"
    using update_tx_ids [of "set_status new n" i "w_txs s"] by (metis list.set_map set_status_sels(1))
  moreover have "Committing \<notin> tx_Status ` set (w_txs s) \<Longrightarrow>
      Committing \<notin> tx_Status ` set (update_tx i (set_status new n) (w_txs s))"
    using assms(3) by (auto simp: update_tx_def)
  moreover have "sorted_wrt (<) (map op_ID (w_ops s)) \<Longrightarrow>
      sorted_wrt (<) (map op_ID (filter (\<lambda>o'. op_TransactionID o' \<noteq> i) (w_ops s)))"
    by (auto simp: sorted_wrt_map intro: sorted_wrt_filter)
  ultimately have meta: "meta_ok s \<Longrightarrow> meta_ok s'"
    using assms(4-6) by (auto simp: meta_ok_def update_tx_ids)
  have ops: "ops_of j s' = ops_of j s" if "j \<noteq> i \<or> old \<noteq> Pending" for j
  proof (cases "w_ops s' = w_ops s")
    case True
    then show ?thesis by (simp add: ops_of_def)
  next
    case False
    then show ?thesis using assms(6) that by (intro ops_of_drop [of _ i]) auto
  qed
  show ?thesis
    unfolding good_def forward_def find_tx_def
    using meta ops assms(1,2,4) find_update_tx [of "set_status new n"]
    by (auto simp: find_tx_def split: if_splits)
qed

section \<open>The contract of an operation\<close>

text \<open>
  What every operation of the manager promises, whether it succeeds or fails and wherever the
  database fails: the invariant, and that transactions only move forward.  Handlers call several
  operations in a row and inherit both.
\<close>

locale manager_op =
  fixes run :: "('db, 'a) act"
  assumes run_good: "good s (snd (run s))"
begin

lemma keeps_meta: "meta_ok s \<Longrightarrow> meta_ok (snd (run s))"
  using run_good [of s] by (simp add: good_def)

lemma moves_forward: "meta_ok s \<Longrightarrow> forward s (snd (run s))"
  using run_good [of s] by (simp add: good_def)

text \<open>A transaction that was rolled back stays so, and a committed one is never pending again.\<close>

lemma settled:
  assumes "meta_ok s" "find_tx i s = Some t" "find_tx i (snd (run s)) = Some t'"
  shows "tx_Status t \<le> tx_Status t'"
  using moves_forward [OF assms(1)] assms(2,3) by (auto simp: forward_def intro: next_status_le)

end

lemma good_wp: "wp m (\<lambda>_ s'. good s s') (\<lambda>_ s'. good s s') s \<Longrightarrow> good s (snd (m s))"
  by (cases "m s"; cases "fst (m s)") (auto simp: wp_def)

lemma good_quietD: "quiet s s' \<Longrightarrow> good s s'"
  by (rule good_quiet) (simp_all add: quiet_def)

lemma good_db: "quiet (s\<lparr>w_db := d\<rparr>) s' \<Longrightarrow> good s s'"
  by (rule good_quiet) (simp_all add: quiet_def)

lemma good_Commit: "good s (snd (Commit tg i s))"
proof (rule good_wp, rule wp_mono [OF wp_Commit])
  fix s' and u :: unit
  assume "map_option tx_Status (find_tx i s) = Some Pending \<and>
    (\<exists>db'. apply_ops tg (ops_of i s) (w_db s) = Some db' \<and>
      quiet (s\<lparr>w_db := db', w_txs := committed_txs i (w_now s) (w_txs s)\<rparr>) s')"
  then obtain db' where p: "map_option tx_Status (find_tx i s) = Some Pending"
    and q: "quiet (s\<lparr>w_db := db', w_txs := committed_txs i (w_now s) (w_txs s)\<rparr>) s'" by blast
  have "good s (s\<lparr>w_db := db', w_txs := committed_txs i (w_now s) (w_txs s)\<rparr>)"
    by (rule good_status [OF p, of Committed]) (simp_all add: committed_txs_def)
  then show "good s s'" by (rule good_trans_quiet [OF _ q])
qed (auto intro: good_quietD good_db)

lemma good_RollbackPostCommit: "good s (snd (RollbackPostCommit tg i s))"
proof (rule good_wp, rule wp_mono [OF wp_RollbackPostCommit])
  fix s' and u :: unit
  let ?ts = "update_tx i (set_status RolledBack (w_now s)) (w_txs s)"
  assume "map_option tx_Status (find_tx i s) = Some Committed \<and>
    (\<exists>db'. undone tg (rev (ops_of i s)) s = Ok db' \<and> quiet (s\<lparr>w_db := db', w_txs := ?ts\<rparr>) s')"
  then obtain db' where p: "map_option tx_Status (find_tx i s) = Some Committed"
    and q: "quiet (s\<lparr>w_db := db', w_txs := ?ts\<rparr>) s'" by blast
  have "good s (s\<lparr>w_db := db', w_txs := ?ts\<rparr>)"
    by (rule good_status [OF p, of RolledBack]) simp_all
  then show "good s s'" by (rule good_trans_quiet [OF _ q])
qed (auto intro: good_quietD good_db)

lemma good_Rollback: "good s (snd (Rollback i s))"
proof (rule good_wp, rule wp_mono [OF wp_Rollback])
  fix s' and u :: unit
  let ?ops = "filter (\<lambda>o'. op_TransactionID o' \<noteq> i) (w_ops s)"
    and ?ts = "update_tx i (set_status RolledBack (w_now s)) (w_txs s)"
  assume h: "map_option tx_Status (find_tx i s) = Some Pending \<and> quiet (s\<lparr>w_ops := ?ops, w_txs := ?ts\<rparr>) s'"
  have "good s (s\<lparr>w_ops := ?ops, w_txs := ?ts\<rparr>)"
    by (rule good_status [of i _ Pending RolledBack]) (use h in simp_all)
  with h show "good s s'" by (auto intro: good_trans_quiet)
next
  fix e s'
  let ?ops = "filter (\<lambda>o'. op_TransactionID o' \<noteq> i) (w_ops s)"
  assume "quiet s s' \<or> map_option tx_Status (find_tx i s) = Some Pending \<and> quiet (s\<lparr>w_ops := ?ops\<rparr>) s'"
  moreover have "good s (s\<lparr>w_ops := ?ops\<rparr>)" if p: "map_option tx_Status (find_tx i s) = Some Pending"
  proof -
    have ops: "j \<noteq> i \<Longrightarrow> ops_of j (s\<lparr>w_ops := ?ops\<rparr>) = ops_of j s" for j
      by (rule ops_of_drop) simp_all
    have "forward s (s\<lparr>w_ops := ?ops\<rparr>)"
      unfolding forward_def
    proof (intro allI impI)
      fix j t t'
      assume "find_tx j s = Some t" "find_tx j (s\<lparr>w_ops := ?ops\<rparr>) = Some t'"
      then show "next_status (tx_Status t) (tx_Status t') \<and>
          (tx_Status t \<noteq> Pending \<longrightarrow> map staged (ops_of j (s\<lparr>w_ops := ?ops\<rparr>)) = map staged (ops_of j s))"
        using ops p by (cases "j = i") (auto simp: find_tx_def)
    qed
    then show ?thesis
      by (auto simp: good_def meta_ok_def sorted_wrt_map sorted_wrt_filter)
  qed
  ultimately show "good s s'" by (auto intro: good_trans_quiet good_quietD)
qed

lemma good_Get: "good s (snd (Get i s))"
  by (rule good_wp, rule wp_Get) (auto intro: good_quietD)

definition new_op ::
    "'db target \<Rightarrow> string \<Rightarrow> string \<Rightarrow> string \<Rightarrow> string \<Rightarrow> val \<Rightarrow> val option \<Rightarrow> val option \<Rightarrow> 'db world \<Rightarrow> Operation" where
  "new_op tg txID op table q ps before ids s =
     \<lparr>op_ID = w_nextOp s, op_TransactionID = txID, op_Operation = op, op_TableName = table,
      op_SQLQuery = q, op_Params = to_json (tg_time tg) ps, op_BeforeState = before,
      op_CommittedState = None, op_RowIDs = ids, op_CreatedAt = w_now s\<rparr>"

lemma wp_Stage:
  "wp (Stage tg i op table q ps before ids)
     (\<lambda>_ s'. map_option tx_Status (find_tx i s) = Some Pending \<and>
        quiet (s\<lparr>w_nextOp := w_nextOp s + 1,
                 w_ops := w_ops s @ [new_op tg i op table q ps before ids s]\<rparr>) s')
     (\<lambda>_ s'. quiet s s') s"
  unfolding Stage_def stage_body_def
  by (intro wp_intros) (simp_all add: is_pending_status, simp_all add: quiet_def new_op_def)

lemma wp_Start:
  "wp (Start uuid schema)
     (\<lambda>tx s'. find_tx uuid s = None \<and> tx_ID tx = uuid \<and> tx_Schema tx = schema \<and> tx_Status tx = Pending \<and>
        quiet (s\<lparr>w_txs := w_txs s @ [tx]\<rparr>) s')
     (\<lambda>_ s'. quiet s s') s"
  unfolding Start_def
  by (intro wp_intros) (simp_all add: find_tx_def, simp_all add: quiet_def)

lemma wp_cleanup:
  "wp (cleanup ttl)
     (\<lambda>_ s'. quiet s s' \<or>
        quiet (s\<lparr>w_txs := filter (\<lambda>t. \<not> expired (w_now s - ttl) t) (w_txs s),
                 w_ops := filter (\<lambda>o'. op_TransactionID o' \<notin>
                   tx_ID ` set (filter (expired (w_now s - ttl)) (w_txs s))) (w_ops s)\<rparr>) s')
     (\<lambda>_ s'. quiet s s') s"
  unfolding cleanup_def
  by (intro wp_intros conjI) (simp_all add: Let_def, simp_all add: quiet_def)

lemma good_Stage: "good s (snd (Stage tg i op table q ps before ids s))"
proof (rule good_wp)
  have add: "good s u"
    if u: "w_txs u = w_txs s" "w_nextOp u = w_nextOp s + 1" "w_ops u = w_ops s @ [x]"
      and p: "map_option tx_Status (find_tx i s) = Some Pending"
      and x: "op_ID x = w_nextOp s" "op_TransactionID x = i" for u x
  proof -
    have find: "find_tx j u = find_tx j s" for j using u by (simp add: find_tx_def)
    have ops: "j \<noteq> i \<Longrightarrow> ops_of j u = ops_of j s" for j using u x by (simp add: ops_of_def)
    have "forward s u"
      unfolding forward_def
    proof (intro allI impI)
      fix j t t'
      assume "find_tx j s = Some t" "find_tx j u = Some t'"
      then show "next_status (tx_Status t) (tx_Status t') \<and>
          (tx_Status t \<noteq> Pending \<longrightarrow> map staged (ops_of j u) = map staged (ops_of j s))"
        using ops [of j] p unfolding find by (cases "j = i") auto
    qed
    moreover have "meta_ok u" if m: "meta_ok s"
    proof -
      from p obtain t where "t \<in> set (w_txs s)" "tx_ID t = i" using find_txD by fastforce
      then have "i \<in> tx_ID ` set (w_txs s)" by blast
      then show ?thesis
        using m u x by (simp add: meta_ok_def sorted_wrt_append ball_Un) fastforce
    qed
    ultimately show ?thesis by (simp add: good_def)
  qed
  show "wp (Stage tg i op table q ps before ids) (\<lambda>_ s'. good s s') (\<lambda>_ s'. good s s') s"
  proof (rule wp_mono [OF wp_Stage])
    fix s' and u :: unit
    let ?x = "new_op tg i op table q ps before ids s"
    assume h: "map_option tx_Status (find_tx i s) = Some Pending \<and>
      quiet (s\<lparr>w_nextOp := w_nextOp s + 1, w_ops := w_ops s @ [?x]\<rparr>) s'"
    have "good s (s\<lparr>w_nextOp := w_nextOp s + 1, w_ops := w_ops s @ [?x]\<rparr>)"
      by (rule add [of _ ?x]) (use h in \<open>simp_all add: new_op_def\<close>)
    with h show "good s s'" by (auto intro: good_trans_quiet)
  qed (rule good_quietD)
qed

lemma good_Start: "good s (snd (Start uuid schema s))"
proof (rule good_wp)
  have add: "good s u"
    if u: "w_txs u = w_txs s @ [t]" "w_nextOp u = w_nextOp s" "w_ops u = w_ops s"
      and t: "tx_ID t = uuid" "tx_Status t = Pending" and new: "find_tx uuid s = None" for u t
  proof -
    have fresh: "uuid \<notin> tx_ID ` set (w_txs s)" using new by (auto simp: find_tx_def find_None_iff)
    have "find_tx j s = Some a \<Longrightarrow> find_tx j u = Some a" for j a
      using u by (auto simp: find_tx_def find_Some_iff nth_append)
    then show ?thesis
      using u t fresh by (auto simp: good_def meta_ok_def forward_def ops_of_def)
  qed
  show "wp (Start uuid schema) (\<lambda>_ s'. good s s') (\<lambda>_ s'. good s s') s"
  proof (rule wp_mono [OF wp_Start])
    fix t s'
    assume h: "find_tx uuid s = None \<and> tx_ID t = uuid \<and> tx_Schema t = schema \<and> tx_Status t = Pending \<and>
      quiet (s\<lparr>w_txs := w_txs s @ [t]\<rparr>) s'"
    have "good s (s\<lparr>w_txs := w_txs s @ [t]\<rparr>)" by (rule add [of _ t]) (use h in simp_all)
    with h show "good s s'" by (auto intro: good_trans_quiet)
  qed (rule good_quietD)
qed

lemma good_cleanup: "good s (snd (cleanup ttl s))"
proof (rule good_wp)
  let ?old = "expired (w_now s - ttl)"
  let ?gone = "tx_ID ` set (filter ?old (w_txs s))"
  have drop: "good s u"
    if u: "w_txs u = filter (\<lambda>t. \<not> ?old t) (w_txs s)" "w_nextOp u = w_nextOp s"
      "w_ops u = filter (\<lambda>o'. op_TransactionID o' \<notin> ?gone) (w_ops s)" for u
  proof -
    have "forward s u \<and> meta_ok u" if m: "meta_ok s"
    proof
      have inj: "inj_on tx_ID (set (w_txs s))" using m by (simp add: meta_ok_def distinct_map)
      show "forward s u"
        unfolding forward_def
      proof (intro allI impI)
        fix j t t'
        assume "find_tx j s = Some t" "find_tx j u = Some t'"
        then have t: "t \<in> set (w_txs s)" "tx_ID t = j" "t' \<in> set (w_txs s)" "\<not> ?old t'" "tx_ID t' = j"
          using find_txD [of j s t] find_txD [of j u t'] u(1) by auto
        then have "t = t'" using inj by (auto dest: inj_onD)
        moreover have "j \<notin> ?gone"
          using inj t by (auto dest: inj_onD)
        then have "filter (\<lambda>o'. op_TransactionID o' = j) (w_ops u) = filter (\<lambda>o'. op_TransactionID o' = j) (w_ops s)"
          unfolding u(3) filter_filter by (intro filter_cong) auto
        ultimately show "next_status (tx_Status t) (tx_Status t') \<and>
            (tx_Status t \<noteq> Pending \<longrightarrow> map staged (ops_of j u) = map staged (ops_of j s))"
          by (simp add: ops_of_def)
      qed
      have "op_TransactionID ` set (w_ops u) \<subseteq> tx_ID ` set (w_txs u)"
      proof
        fix j
        assume "j \<in> op_TransactionID ` set (w_ops u)"
        then have "j \<in> tx_ID ` set (w_txs s)" "j \<notin> ?gone" using m u(3) by (auto simp: meta_ok_def)
        then show "j \<in> tx_ID ` set (w_txs u)" using u(1) by auto
      qed
      moreover have "sorted_wrt (<) (map op_ID (w_ops u))"
        using m unfolding meta_ok_def u(3) sorted_wrt_map by (blast intro: sorted_wrt_filter)
      moreover have "distinct (map tx_ID (w_txs u))" "Committing \<notin> tx_Status ` set (w_txs u)"
        using m unfolding meta_ok_def u(1) by (auto intro: distinct_map_filter)
      moreover have "\<forall>o' \<in> set (w_ops u). op_ID o' < w_nextOp u"
        using m unfolding meta_ok_def u(2,3) by simp
      ultimately show "meta_ok u" by (simp add: meta_ok_def)
    qed
    then show ?thesis by (simp add: good_def)
  qed
  have "good s (s\<lparr>w_txs := filter (\<lambda>t. \<not> ?old t) (w_txs s),
      w_ops := filter (\<lambda>o'. op_TransactionID o' \<notin> ?gone) (w_ops s)\<rparr>)"
    by (rule drop) simp_all
  then show "wp (cleanup ttl) (\<lambda>_ s'. good s s') (\<lambda>_ s'. good s s') s"
    by (intro wp_mono [OF wp_cleanup]) (auto intro: good_quietD good_trans_quiet)
qed

interpretation start: manager_op "Start uuid schema" for uuid schema
  by unfold_locales (rule good_Start)

interpretation stage: manager_op "Stage tg i op table q ps before ids" for tg i op table q ps before ids
  by unfold_locales (rule good_Stage)

interpretation commit: manager_op "Commit tg i" for tg i
  by unfold_locales (rule good_Commit)

interpretation rollback: manager_op "Rollback i" for i
  by unfold_locales (rule good_Rollback)

interpretation undo: manager_op "RollbackPostCommit tg i" for tg i
  by unfold_locales (rule good_RollbackPostCommit)

interpretation cleaning: manager_op "cleanup ttl" for ttl
  by unfold_locales (rule good_cleanup)

end
