(* ===== verification/TxLife.thy ===== *)
theory TxLife
  imports TxManager
begin

text \<open>
  The life of deferred transactions (\<^verbatim>\<open>internal/transaction/manager.go\<close>): histories of operations as a
  step relation, the invariant of the metadata tables, the states a transaction goes through, and
  the guarantees of commit and rollback, with and without database failures.
\<close>

section \<open>Runs without database failures\<close>

lemma wp_db_call_calm: "w_faults s = [] \<Longrightarrow> N () s \<Longrightarrow> wp db_call N E s"
  by (simp add: wp_def db_call_def)

lemma wp_attempt_calm:
  "wp m (\<lambda>x. N (Some x)) (\<lambda>e s'. if e = None then E e s' else N None s') s \<Longrightarrow> wp (attempt m) N E s"
  by (auto simp: wp_def attempt_def split: outcome.splits prod.splits)

lemmas wp_calm = wp_ret wp_throw wp_lift wp_gets wp_modifyW wp_bindM wp_thenM wp_wrap wp_if wp_option wp_prod wp_Let
  wp_db_call_calm wp_attempt_calm

lemma faults_update_op [simp]: "w_faults (update_op i f s) = w_faults s"
  by (simp add: update_op_def)

lemma calm_Get:
  "w_faults s = [] \<Longrightarrow> wp (Get i) (\<lambda>tx s'. w_faults s' = [] \<and>
     map_option tx_Status tx = map_option tx_Status (find_tx i s) \<and> s' = s) (\<lambda>_ _. False) s"
  unfolding Get_def by (intro wp_calm) auto

lemma calm_runOps:
  "w_faults s = [] \<Longrightarrow> apply_ops tg ops db = Some db' \<Longrightarrow>
   wp (runOps tg ops db) (\<lambda>d s'. d = db' \<and> w_faults s' = []) (\<lambda>_ _. False) s"
proof (induction ops arbitrary: db s)
  case Nil
  then show ?case by (simp add: wp_ret)
next
  case (Cons op ops)
  then obtain d where d: "apply_op tg op db = Some d" "apply_ops tg ops d = Some db'"
    by (auto simp: Option.bind_eq_Some_conv)
  have "wp (runOp tg op db) (\<lambda>x s'. x = d \<and> w_faults s' = []) (\<lambda>_ _. False) s"
    using d(1) Cons.prems(1) unfolding runOp_def
    by (intro wp_calm) (auto simp: apply_op_def split: if_splits sum.splits)
  then show ?case
    unfolding runOps.simps by (intro wp_bindM) (rule wp_mono, assumption, auto intro: Cons.IH [OF _ d(2)])
qed

lemma calm_currentRows:
  "w_faults s = [] \<Longrightarrow> wp (currentRows tg table rows) (\<lambda>_ s'. w_faults s' = []) (\<lambda>_ _. False) s"
proof (induction rows arbitrary: s)
  case Nil
  then show ?case by (simp add: wp_ret)
next
  case (Cons r rows)
  have more: "w_faults s1 = [] \<Longrightarrow> wp (currentRows tg table rows)
      (\<lambda>x. wp (ret (v # x)) (\<lambda>_ s'. w_faults s' = []) (\<lambda>_ _. False)) (\<lambda>_ _. False) s1" for s1 v
    by (intro wp_mono [OF Cons.IH]) (auto intro: wp_ret)
  show ?case
    unfolding currentRows.simps using Cons.prems
    by (intro wp_calm) (auto intro: Cons.IH more)
qed

lemma calm_recordOps:
  "w_faults s = [] \<Longrightarrow> wp (recordOps tg ops) (\<lambda>_ s'. w_faults s' = []) (\<lambda>_ _. False) s"
proof (induction ops arbitrary: s)
  case Nil
  then show ?case by (simp add: wp_ret)
next
  case (Cons op ops)
  have "wp (recordOp tg op) (\<lambda>_ s'. w_faults s' = []) (\<lambda>_ _. False) s"
    unfolding recordOp_def using Cons.prems
    by (intro wp_ret wp_option wp_bindM wp_mono [OF calm_currentRows]) (auto intro!: wp_calm)
  then show ?case
    unfolding recordOps.simps by (intro wp_thenM) (rule wp_mono, assumption, auto intro: Cons.IH)
qed

lemma calm_commit_body:
  assumes "w_faults s = []" "apply_ops tg (ops_of i s) (w_db s) = Some db'"
  shows "wp (commit_body tg i) (\<lambda>_ s'. w_faults s' = []) (\<lambda>_ _. False) s"
proof -
  have recording: "w_faults u = [] \<Longrightarrow> wp (recordOps tg ops)
      (\<lambda>_. wp (bindM (thenM (wrap ''mark committed'' db_call) (gets w_now)) (\<lambda>now.
         thenM (wrap ''commit lock'' db_call) (modifyW (\<lambda>s. s\<lparr>w_txs := f now\<rparr>))))
         (\<lambda>_ s'. w_faults s' = []) (\<lambda>_ _. False)) (\<lambda>_ _. False) u" for u f ops
    by (rule wp_mono [OF calm_recordOps]) (auto intro!: wp_calm)
  have run: "wp (runOps tg (ops_of i s) (w_db s)) (\<lambda>d. wp (thenM (wrap ''commit target'' db_call)
      (thenM (modifyW (\<lambda>s. s\<lparr>w_db := d\<rparr>)) (thenM (recordOps tg (ops_of i s))
        (bindM (thenM (wrap ''mark committed'' db_call) (gets w_now)) (\<lambda>now.
         thenM (wrap ''commit lock'' db_call) (modifyW (\<lambda>s. s\<lparr>w_txs := f now\<rparr>)))))))
      (\<lambda>_ s'. w_faults s' = []) (\<lambda>_ _. False)) (\<lambda>_ _. False) s" for f
    by (rule wp_mono [OF calm_runOps [OF assms]]) (auto intro!: wp_calm recording)
  show ?thesis
    unfolding commit_body_def using assms(1) by (auto intro!: wp_calm run)
qed

lemma calm_rollback_body: "w_faults s = [] \<Longrightarrow> wp (rollback_body i) (\<lambda>_ s'. w_faults s' = []) (\<lambda>_ _. False) s"
  unfolding rollback_body_def by (auto intro!: wp_calm)

lemma calm_Commit:
  assumes "w_faults s = []" "map_option tx_Status (find_tx i s) = Some Pending"
    and "apply_ops tg (ops_of i s) (w_db s) = Some db'"
  shows "wp (Commit tg i) (\<lambda>_ s'. w_faults s' = []) (\<lambda>_ _. False) s"
  unfolding Commit_def
  by (rule wp_bindM, rule wp_mono [OF calm_Get [OF assms(1)]])
    (use assms(2) calm_commit_body [OF assms(1,3)] in \<open>auto simp: is_pending_status intro!: wp_if wp_throw\<close>)

lemma calm_Start:
  assumes "w_faults s = []" "find_tx uuid s = None"
  shows "wp (Start uuid schema) (\<lambda>tx s'. tx_ID tx = uuid \<and> tx_Status tx = Pending \<and> s' = s\<lparr>w_txs := w_txs s @ [tx]\<rparr>)
    (\<lambda>_ _. False) s"
  unfolding Start_def using assms by (intro wp_calm) auto

lemma calm_Stage:
  assumes "w_faults s = []" "map_option tx_Status (find_tx i s) = Some Pending"
  shows "wp (Stage tg i op table q ps before ids) (\<lambda>_ s'. w_faults s' = []) (\<lambda>_ _. False) s"
  unfolding Stage_def stage_body_def
  by (rule wp_bindM, rule wp_mono [OF calm_Get [OF assms(1)]]) (use assms in \<open>auto simp: is_pending_status intro!: wp_calm\<close>)

lemma calm_Rollback:
  assumes "w_faults s = []" "map_option tx_Status (find_tx i s) = Some Pending"
  shows "wp (Rollback i) (\<lambda>_ s'. w_faults s' = []) (\<lambda>_ _. False) s"
  unfolding Rollback_def
  by (rule wp_bindM, rule wp_mono [OF calm_Get [OF assms(1)]])
    (use assms(2) calm_rollback_body [OF assms(1)] in \<open>auto simp: is_pending_status intro!: wp_if wp_throw\<close>)

lemma wpD:
  "wp m N E s \<Longrightarrow> m s = (r, s') \<Longrightarrow> (\<exists>x. r = Ok x \<and> N x s') \<or> (\<not> (\<exists>x. r = Ok x)) \<and> (\<exists>e. E e s')"
  by (cases r) (auto simp: wp_def)

section \<open>Reading\<close>

lemma Get_world: "\<exists>fs. snd (Get i s) = s\<lparr>w_faults := fs\<rparr>"
proof -
  have same: "s = s\<lparr>w_faults := w_faults s\<rparr>" by simp
  show ?thesis
    unfolding Get_def thenM_def bindM_def wrap_def gets_def attempt_def ret_def db_call_def
    by (auto split: list.split option.split prod.split outcome.split) (metis same)+
qed

lemma List_world: "\<exists>fs. snd (List schema s) = s\<lparr>w_faults := fs\<rparr>"
proof -
  have same: "s = s\<lparr>w_faults := w_faults s\<rparr>" by simp
  show ?thesis
    unfolding List_def thenM_def bindM_def wrap_def gets_def db_call_def
    by (auto split: list.split option.split prod.split outcome.split) (metis same)+
qed

section \<open>Histories\<close>

text \<open>
  One step of the system: an operation of the manager with any arguments, the passage of time,
  a new script of failures, or a change of the target by somebody else.
\<close>

inductive step :: "'db target \<Rightarrow> 'db world \<Rightarrow> 'db world \<Rightarrow> bool" for tg where
  step_Start: "step tg s (snd (Start uuid schema s))"
| step_Stage: "step tg s (snd (Stage tg i op table q ps before ids s))"
| step_Commit: "step tg s (snd (Commit tg i s))"
| step_Rollback: "step tg s (snd (Rollback i s))"
| step_Undo: "step tg s (snd (RollbackPostCommit tg i s))"
| step_Cleanup: "step tg s (snd (cleanup ttl s))"
| step_Clock: "step tg s (s\<lparr>w_now := now\<rparr>)"
| step_Faults: "step tg s (s\<lparr>w_faults := fs\<rparr>)"
| step_Others: "step tg s (s\<lparr>w_db := db\<rparr>)"

inductive_cases step_elim: "step tg s s'"

definition initial :: "'db world \<Rightarrow> bool" where
  "initial s \<longleftrightarrow> w_txs s = [] \<and> w_ops s = []"

text \<open>Every step keeps the contract of the operations.\<close>

lemma step_good: "step tg s s' \<Longrightarrow> good s s'"
proof (erule step_elim, goal_cases)
  case (7 now)
  then show ?case by (intro good_quiet) auto
next
  case (8 fs)
  then show ?case by (intro good_quiet) auto
next
  case (9 db)
  then show ?case by (intro good_quiet) auto
qed (simp_all add: start.run_good stage.run_good commit.run_good rollback.run_good undo.run_good cleaning.run_good)

lemma step_meta: "step tg s s' \<Longrightarrow> meta_ok s \<Longrightarrow> meta_ok s'"
  using step_good [of tg s s'] by (simp add: good_def)

lemma step_forward: "step tg s s' \<Longrightarrow> meta_ok s \<Longrightarrow> forward s s'"
  using step_good [of tg s s'] by (simp add: good_def)

lemma initial_meta: "initial s \<Longrightarrow> meta_ok s"
  by (simp add: initial_def meta_ok_def)

lemma reachable_meta: "(step tg)\<^sup>*\<^sup>* s s' \<Longrightarrow> meta_ok s \<Longrightarrow> meta_ok s'"
  by (induction rule: rtranclp_induct) (auto intro: step_meta)

text \<open>Sorting by id keeps the order of staging.\<close>

lemma ops_of_order:
  assumes "meta_ok s"
  shows "ops_of i s = filter (\<lambda>o'. op_TransactionID o' = i) (w_ops s)"
proof -
  have "sorted_wrt (<) (map op_ID (w_ops s))" using assms by (simp add: meta_ok_def)
  then have "sorted (map op_ID (filter (\<lambda>o'. op_TransactionID o' = i) (w_ops s)))"
    by (auto simp: sorted_wrt_map intro!: sorted_wrt_filter intro: sorted_wrt_mono_rel [rotated])
  then show ?thesis by (simp add: ops_of_def sorted_sort_id [symmetric] sort_key_id_if_sorted)
qed

section \<open>Examples\<close>

text \<open>A target that keeps the list of the statements it has run.\<close>

definition log_target :: "string list target" where
  "log_target = \<lparr>tg_exec = (\<lambda>q ps db. Inr (db @ [q])), tg_queryId = (\<lambda>q ps db. Inr (db @ [q], int (length db))),
     tg_row = (\<lambda>q v db. Inl ''no rows''), tg_rows = (\<lambda>q ps db. Inr ([], [])),
     tg_num = (\<lambda>s. s), tg_time = Itoa, tg_range = (\<lambda>kvs. kvs)\<rparr>"

definition empty_world :: "string list world" where
  "empty_world = \<lparr>w_txs = [], w_ops = [], w_nextOp = 1, w_db = [], w_now = 100, w_faults = []\<rparr>"

definition staged_world :: "string list world" where
  "staged_world = snd (thenM (Start ''t1'' ''public'')
     (Stage log_target ''t1'' ''UPDATE'' ''public.a'' ''UPDATE public.a SET n = n + 1'' VNil None None) empty_world)"

section \<open>Properties\<close>

text \<open>
  C8. In every history that starts with empty metadata tables, whatever fails on the way: the ids of
  transactions are distinct, the ids of operations ascend in the order of staging, every operation
  belongs to a transaction that exists, and the intermediate status \<^verbatim>\<open>committing\<close> is never visible.
\<close>

theorem history_invariant:
  "initial s0 \<Longrightarrow> (step tg)\<^sup>*\<^sup>* s0 s \<Longrightarrow> meta_ok s"
  by (rule reachable_meta [OF _ initial_meta])

theorem history_invariant_witness:
  "meta_ok (snd (Commit log_target ''t1'' (snd (Start ''t1'' ''public'' empty_world))))"
proof (rule history_invariant [where tg = log_target])
  show "initial empty_world" by (simp add: initial_def empty_world_def)
  have "(step log_target)\<^sup>*\<^sup>* empty_world (snd (Start ''t1'' ''public'' empty_world))"
    by (intro r_into_rtranclp step_Start)
  then show "(step log_target)\<^sup>*\<^sup>* empty_world (snd (Commit log_target ''t1'' (snd (Start ''t1'' ''public'' empty_world))))"
    by (rule rtranclp.rtrancl_into_rtrancl) (rule step_Commit)
qed

text \<open>
  C9. Life cycle: in every step from a reachable state a transaction stays as it is or moves from
  pending to committed, from pending to rolled back, or from committed to rolled back, so its
  status never goes back; and what was staged for a transaction that is not pending any more
  cannot be added to or changed.
\<close>

theorem status_life_cycle:
  assumes "initial s0" "(step tg)\<^sup>*\<^sup>* s0 s" "step tg s s'"
    and "find_tx i s = Some t" "find_tx i s' = Some t'"
  shows "(tx_Status t, tx_Status t') \<in> {(Pending, Pending), (Pending, Committed), (Pending, RolledBack),
      (Committed, Committed), (Committed, RolledBack), (RolledBack, RolledBack)} \<and>
    tx_Status t \<le> tx_Status t' \<and>
    (tx_Status t \<noteq> Pending \<longrightarrow> map staged (ops_of i s') = map staged (ops_of i s))"
proof -
  have m: "meta_ok s" by (rule reachable_meta [OF assms(2) initial_meta [OF assms(1)]])
  have f: "next_status (tx_Status t) (tx_Status t')"
    "tx_Status t \<noteq> Pending \<longrightarrow> map staged (ops_of i s') = map staged (ops_of i s)"
    using step_forward [OF assms(3) m] assms(4,5) by (auto simp: forward_def)
  have "tx_Status t \<noteq> Committing" using m find_txD [OF assms(4)] unfolding meta_ok_def by (metis image_eqI)
  with f show ?thesis
    by (cases "tx_Status t"; cases "tx_Status t'") (auto simp: less_eq_Status_def)
qed

theorem status_life_cycle_witness:
  "find_tx ''t1'' (snd (Commit log_target ''t1'' (snd (Start ''t1'' ''public'' empty_world)))) \<noteq> None \<and>
   Pending \<le> tx_Status (the (find_tx ''t1'' (snd (Commit log_target ''t1'' (snd (Start ''t1'' ''public'' empty_world))))))"
proof -
  let ?s = "snd (Start ''t1'' ''public'' empty_world)"
  let ?s' = "snd (Commit log_target ''t1'' ?s)"
  have 0: "initial empty_world" by (simp add: initial_def empty_world_def)
  have 1: "(step log_target)\<^sup>*\<^sup>* empty_world ?s" by (intro r_into_rtranclp step_Start)
  have t: "map_option tx_Status (find_tx ''t1'' ?s) = Some Pending" by code_simp
  have t': "find_tx ''t1'' ?s' \<noteq> None" by code_simp
  from t t' obtain a b where "find_tx ''t1'' ?s = Some a" "tx_Status a = Pending" "find_tx ''t1'' ?s' = Some b" by auto
  with status_life_cycle [OF 0 1 step_Commit [of log_target ?s "''t1''"]] show ?thesis by fastforce
qed

text \<open>
  Operations are applied in the order in which they were staged.
\<close>

lemma commit_order:
  assumes "initial s0" "(step tg)\<^sup>*\<^sup>* s0 s"
  shows "ops_of i s = filter (\<lambda>o'. op_TransactionID o' = i) (w_ops s)"
  by (rule ops_of_order [OF reachable_meta [OF assms(2) initial_meta [OF assms(1)]]])

lemma commit_order_example:
  "ops_of ''t1'' (snd (Start ''t1'' ''public'' empty_world)) =
   filter (\<lambda>o'. op_TransactionID o' = ''t1'') (w_ops (snd (Start ''t1'' ''public'' empty_world)))"
  by (rule commit_order [of empty_world log_target])
    (auto simp: initial_def empty_world_def intro!: r_into_rtranclp step_Start)

text \<open>
  Atomic commit: a commit that returns no error has applied all staged operations to the target
  and marked the transaction; one that returns an error leaves the target untouched, or has
  applied all operations and left the transaction pending.  The last case is real (see below).
\<close>

lemma Commit_all_or_nothing:
  assumes "Commit tg i s = (r, s')"
  shows "(r = Ok () \<and> map_option tx_Status (find_tx i s) = Some Pending \<and>
      apply_ops tg (ops_of i s) (w_db s) = Some (w_db s') \<and> w_txs s' = committed_txs i (w_now s) (w_txs s)) \<or>
    (r \<noteq> Ok () \<and> w_txs s' = w_txs s \<and>
      (w_db s' = w_db s \<or> apply_ops tg (ops_of i s) (w_db s) = Some (w_db s')))"
  using wpD [OF wp_Commit assms] by (auto simp: quiet_def)

lemma Commit_all_or_nothing_example:
  "w_db (snd (Commit log_target ''t1'' staged_world)) = [''UPDATE public.a SET n = n + 1'']"
proof -
  obtain r s' where c: "Commit log_target ''t1'' staged_world = (r, s')" by fastforce
  have "fst (Commit log_target ''t1'' staged_world) = Ok ()" by code_simp
  then have "r = Ok ()" using c by simp
  moreover have "apply_ops log_target (ops_of ''t1'' staged_world) (w_db staged_world) = Some [''UPDATE public.a SET n = n + 1'']"
    by code_simp
  ultimately show ?thesis using Commit_all_or_nothing [OF c] c by auto
qed

text \<open>
  A commit succeeds: when the transaction is pending, no call to the database fails and the
  staged operations can be applied, \<^verbatim>\<open>Commit\<close> returns without an error.
\<close>

lemma Commit_succeeds:
  assumes "w_faults s = []" "map_option tx_Status (find_tx i s) = Some Pending"
    and "apply_ops tg (ops_of i s) (w_db s) \<noteq> None"
  shows "fst (Commit tg i s) = Ok ()"
proof -
  from assms(3) obtain db' where "apply_ops tg (ops_of i s) (w_db s) = Some db'" by auto
  from calm_Commit [OF assms(1,2) this] show ?thesis
    by (cases "Commit tg i s"; cases "fst (Commit tg i s)") (auto simp: wp_def)
qed

lemma Commit_succeeds_example: "fst (Commit log_target ''t1'' staged_world) = Ok ()"
proof (rule Commit_succeeds)
  show "w_faults staged_world = []" by code_simp
  show "map_option tx_Status (find_tx ''t1'' staged_world) = Some Pending" by code_simp
  have "apply_ops log_target (ops_of ''t1'' staged_world) (w_db staged_world) = Some [''UPDATE public.a SET n = n + 1'']"
    by code_simp
  then show "apply_ops log_target (ops_of ''t1'' staged_world) (w_db staged_world) \<noteq> None" by simp
qed

text \<open>
  The gap in the commit: when the target's commit succeeds and the commit of the lock then
  fails, the operations are applied and the transaction is still pending, and a second
  \<^verbatim>\<open>Commit\<close> applies them again.
\<close>

lemma Commit_applied_twice:
  "let s1 = snd (Commit log_target ''t1'' (staged_world\<lparr>w_faults := replicate 10 None @ [Some ''lost'']\<rparr>));
       s2 = snd (Commit log_target ''t1'' s1)
   in map_option tx_Status (find_tx ''t1'' s1) = Some Pending \<and>
      w_db s1 = [''UPDATE public.a SET n = n + 1''] \<and>
      w_db s2 = [''UPDATE public.a SET n = n + 1'', ''UPDATE public.a SET n = n + 1'']"
  by code_simp

text \<open>
  A rollback before the commit never touches the target; when it returns no error the
  transaction was pending, is rolled back now, and none of its operations is left.
\<close>

lemma Rollback_discards:
  assumes "Rollback i s = (r, s')"
  shows "w_db s' = w_db s \<and>
    (r = Ok () \<longrightarrow> map_option tx_Status (find_tx i s) = Some Pending \<and>
       map_option tx_Status (find_tx i s') = Some RolledBack \<and> ops_of i s' = [])"
proof -
  let ?ops = "filter (\<lambda>o'. op_TransactionID o' \<noteq> i) (w_ops s)"
  have none: "map staged (w_ops s') = map staged ?ops \<Longrightarrow> ops_of i s' = []"
  proof -
    assume "map staged (w_ops s') = map staged ?ops"
    then have "map op_TransactionID (w_ops s') = map op_TransactionID ?ops" by (rule map_staged_ids)
    then have "i \<notin> op_TransactionID ` set (w_ops s')" by (metis (mono_tags, lifting) image_iff list.set_map mem_Collect_eq set_filter)
    then have "filter (\<lambda>o'. op_TransactionID o' = i) (w_ops s') = []" by (auto simp: filter_empty_conv)
    then show ?thesis by (simp add: ops_of_def)
  qed
  show ?thesis
    using wpD [OF wp_Rollback assms] none find_update_tx [of "set_status RolledBack (w_now s)" i i "w_txs s"]
    by (auto simp: quiet_def find_tx_def)
qed

lemma Rollback_discards_example:
  "w_db (snd (Rollback ''t1'' staged_world)) = [] \<and> ops_of ''t1'' (snd (Rollback ''t1'' staged_world)) = []"
proof -
  obtain r s' where c: "Rollback ''t1'' staged_world = (r, s')" by fastforce
  have "fst (Rollback ''t1'' staged_world) = Ok ()" "w_db staged_world = []" by code_simp+
  with Rollback_discards [OF c] c show ?thesis by simp
qed



end
