(* ===== verification/Staging.thy ===== *)
theory Staging
  imports TxLife Response "HOL-Library.Sublist"
begin

text \<open>
  \<^verbatim>\<open>internal/transaction/middleware.go\<close> and \<^verbatim>\<open>handler.go\<close>: the middleware that stages a write instead
  of running it when the request carries the transaction header, and the handlers of the
  transaction routes.

  Both are actions on the world of the manager.  The middleware gives \<open>None\<close> when it calls the next
  handler and the response when it aborts the chain.
\<close>

section \<open>Errors of the manager as responses\<close>

definition on_result ::
    "('db, 'a) act \<Rightarrow> (string \<Rightarrow> ('db, 'b) act) \<Rightarrow> ('a \<Rightarrow> ('db, 'b) act) \<Rightarrow> ('db, 'b) act" where
  "on_result m onError f s =
     (case m s of (Ok x, s') \<Rightarrow> f x s' | (outcome.Error e, s') \<Rightarrow> onError e s' | (Panic, s') \<Rightarrow> (Panic, s'))"

definition tx_error :: "int \<Rightarrow> string \<Rightarrow> string \<Rightarrow> response" where
  "tx_error status code message = c_JSON status (obj_text [(''code'', code), (''message'', message)]) new_response"

section \<open>What the middleware reads from a request\<close>

definition HeaderTransaction :: string where
  "HeaderTransaction = ''Authorization-Transaction''"

text \<open>The part after the first dot.\<close>

definition afterDot :: "string \<Rightarrow> string option" where
  "afterDot v = (case SplitN v CHR ''.'' 2 of [a, b] \<Rightarrow> Some b | _ \<Rightarrow> None)"

definition extractWhereClause :: "string \<Rightarrow> string \<times> val list" where
  "extractWhereClause rawQuery =
     (if rawQuery = [] then ([], [])
      else
        let (parsed, good) = ParseQuery rawQuery
        in if \<not> good then ([], [])
           else
             let pairs = concat (map (\<lambda>(key, vals). if HasPrefix key ''_'' then []
                           else List.map_filter (\<lambda>v. map_option (Pair key) (afterDot v)) vals) parsed)
             in (Join (map (\<lambda>(i, key, _). key @ '' = '' @ dollar i) (enumerate 1 pairs)) '' AND '',
                 map (\<lambda>(_, arg). VStr arg) pairs))"

definition extractIDParam :: "string \<Rightarrow> string" where
  "extractIDParam rawQuery =
     (if rawQuery = [] then []
      else
        let (parsed, good) = ParseQuery rawQuery
        in if \<not> good then []
           else
             let idVal = Values_Get parsed ''id''
             in if idVal \<noteq> [] then (case afterDot idVal of Some b \<Rightarrow> b | None \<Rightarrow> idVal) else [])"

definition extractInsertParts :: "(string \<times> val) list \<Rightarrow> string list \<times> string list \<times> val list" where
  "extractInsertParts item = (map fst item, map dollar [1 ..< 1 + length item], map snd item)"

definition extractUpdateParts :: "(string \<times> val) list \<Rightarrow> string list \<times> string list \<times> val list" where
  "extractUpdateParts item =
     (map (\<lambda>(i, k, _). k @ '' = '' @ dollar i) (enumerate 1 item), map dollar [1 ..< 1 + length item], map snd item)"

text \<open>The objects of the body: those of an array, or the body itself.\<close>

definition bodyItems :: "val \<Rightarrow> (string \<times> val) list list" where
  "bodyItems bodyData =
     (case bodyData of
        VArr vs \<Rightarrow> List.map_filter (\<lambda>v. case v of VObj m \<Rightarrow> Some m | _ \<Rightarrow> None) vs
      | VObj m \<Rightarrow> [m]
      | _ \<Rightarrow> [])"

text \<open>A slice built by appending: nil when nothing was appended, which JSON prints as null.\<close>

definition slice_of :: "val list \<Rightarrow> val" where
  "slice_of vs = (if vs = [] then VNil else VArr vs)"

definition stagingSchema :: "request \<Rightarrow> string" where
  "stagingSchema rq = (if Param rq ''schema'' = [] then ''public'' else Param rq ''schema'')"

definition stagingTable :: "request \<Rightarrow> string" where
  "stagingTable rq = stagingSchema rq @ ''.'' @ Param rq ''table''"

section \<open>The middleware\<close>

definition accepted :: "string \<Rightarrow> response" where
  "accepted txID = c_JSON 202 (obj_text [(''status'', ''pending''), (''tx'', txID)]) new_response"

definition stage_error :: "string \<Rightarrow> string \<Rightarrow> ('db, response) act" where
  "stage_error code e = ret (tx_error 500 code (''Failed to stage operation: '' @ e))"

definition snapshot_error :: "string \<Rightarrow> string \<Rightarrow> ('db, response) act" where
  "snapshot_error code e = ret (tx_error 500 code (''Failed to capture snapshot: '' @ e))"

fun stageInserts :: "'db target \<Rightarrow> string \<Rightarrow> string \<Rightarrow> (string \<times> val) list list \<Rightarrow> ('db, response) act" where
  "stageInserts tg txID qualifiedTable [] = ret (accepted txID)"
| "stageInserts tg txID qualifiedTable (item # items) =
     (let (columns, placeholders, vals) = extractInsertParts item
      in on_result
           (Stage tg txID ''INSERT'' qualifiedTable (BuildInsertQuery qualifiedTable columns placeholders)
             (slice_of vals) None None)
           (stage_error ''PGRST314'') (\<lambda>_. stageInserts tg txID qualifiedTable items))"

definition updateVals :: "request \<Rightarrow> (string \<times> val) list \<Rightarrow> val list" where
  "updateVals rq item =
     (let (_, _, vals) = extractUpdateParts item; idParam = extractIDParam (rq_RawQuery rq)
      in if idParam \<noteq> [] then vals @ [VStr idParam] else vals)"

definition updateText :: "request \<Rightarrow> (string \<times> val) list \<Rightarrow> string" where
  "updateText rq item =
     (let (setClauses, placeholders, _) = extractUpdateParts item
      in BuildUpdateQuery (stagingTable rq) setClauses placeholders)"

definition stageUpdate :: "'db target \<Rightarrow> string \<Rightarrow> request \<Rightarrow> (string \<times> val) list list \<Rightarrow> ('db, response) act" where
  "stageUpdate tg txID rq items =
     (case items of
        [] \<Rightarrow> ret (accepted txID)
      | item # _ \<Rightarrow>
          let (whereClause, whereArgs) = extractWhereClause (rq_RawQuery rq)
          in on_result
               (if whereClause \<noteq> [] then CaptureSnapshot tg (stagingSchema rq) (Param rq ''table'') whereClause whereArgs
                else ret (None, None))
               (snapshot_error ''PGRST317'')
               (\<lambda>(beforeState, rowIDs).
                 on_result
                   (Stage tg txID ''UPDATE'' (stagingTable rq) (updateText rq item) (slice_of (updateVals rq item))
                     beforeState rowIDs)
                   (stage_error ''PGRST315'') (\<lambda>_. ret (accepted txID))))"

definition deleteVals :: "request \<Rightarrow> val list" where
  "deleteVals rq = (let idVal = extractIDParam (rq_RawQuery rq) in if idVal \<noteq> [] then [VStr idVal] else [])"

definition stageDelete :: "'db target \<Rightarrow> string \<Rightarrow> request \<Rightarrow> ('db, response) act" where
  "stageDelete tg txID rq =
     (let params = deleteVals rq
      in on_result
           (if params \<noteq> [] then CaptureSnapshot tg (stagingSchema rq) (Param rq ''table'') ''id = $1'' params
            else ret (None, None))
           (snapshot_error ''PGRST318'')
           (\<lambda>(beforeState, rowIDs).
             on_result
               (Stage tg txID ''DELETE'' (stagingTable rq) (BuildDeleteQuery (stagingTable rq)) (slice_of params)
                 beforeState rowIDs)
               (stage_error ''PGRST316'') (\<lambda>_. ret (accepted txID))))"

text \<open>An empty body is nil.\<close>

definition readBody :: "json_lib \<Rightarrow> request \<Rightarrow> response + val" where
  "readBody js rq =
     (case rq_Body rq of
        Inl e \<Rightarrow> Inl (tx_error 400 ''PGRST312'' ''Failed to read request body'')
      | Inr body \<Rightarrow>
          if body = [] then Inr VNil
          else (case js_decode js body of
                  Inl e \<Rightarrow> Inl (tx_error 400 ''PGRST313'' ''Invalid JSON body'')
                | Inr v \<Rightarrow> Inr v))"

definition stageRequest :: "'db target \<Rightarrow> string \<Rightarrow> request \<Rightarrow> (string \<times> val) list list \<Rightarrow> ('db, response) act" where
  "stageRequest tg txID rq items =
     (if rq_Method rq = ''POST'' then stageInserts tg txID (stagingTable rq) items
      else if rq_Method rq = ''PUT'' \<or> rq_Method rq = ''PATCH'' then stageUpdate tg txID rq items
      else stageDelete tg txID rq)"

definition passes :: "request \<Rightarrow> bool" where
  "passes rq \<longleftrightarrow> GetHeader rq HeaderTransaction = [] \<or>
     rq_Method rq \<notin> {''POST'', ''PUT'', ''PATCH'', ''DELETE''}"

definition Middleware :: "'db target \<Rightarrow> json_lib \<Rightarrow> request \<Rightarrow> ('db, response option) act" where
  "Middleware tg js rq =
     (let txID = GetHeader rq HeaderTransaction
      in if passes rq then ret None
         else on_result (Get txID)
           (\<lambda>e. ret (Some (tx_error 500 ''PGRST310'' (''Failed to validate transaction: '' @ e))))
           (\<lambda>tx.
             if \<not> is_pending tx then ret (Some (tx_error 409 ''PGRST311'' ''Transaction not found or not pending''))
             else (case readBody js rq of
                     Inl rs \<Rightarrow> ret (Some rs)
                   | Inr bodyData \<Rightarrow> bindM (stageRequest tg txID rq (bodyItems bodyData)) (\<lambda>rs. ret (Some rs)))))"

section \<open>The handlers of the transaction routes\<close>

definition tx_json :: "Transaction \<Rightarrow> val" where
  "tx_json tx = VObj [(''id'', VStr (tx_ID tx)), (''schema'', VStr (tx_Schema tx)),
     (''status'', VStr (status_text (tx_Status tx))), (''operation_count'', VNum (Itoa (tx_OpCount tx))),
     (''created_at'', VTime (tx_CreatedAt tx)), (''updated_at'', VTime (tx_UpdatedAt tx))]"

definition reply_with :: "int \<Rightarrow> val \<Rightarrow> ('db, response) act" where
  "reply_with status v = ret (c_JSON status v new_response)"

definition fail_with :: "int \<Rightarrow> string \<Rightarrow> string \<Rightarrow> ('db, response) act" where
  "fail_with status code message = ret (tx_error status code message)"

definition txStart :: "string \<Rightarrow> request \<Rightarrow> ('db, response) act" where
  "txStart uuid rq =
     on_result (Start uuid (stagingSchema rq))
       (\<lambda>e. fail_with 500 ''PGRST300'' (''Failed to start transaction: '' @ e))
       (\<lambda>tx. reply_with 201 (obj_text [(''tx'', tx_ID tx)]))"

definition txList :: "request \<Rightarrow> ('db, response) act" where
  "txList rq =
     on_result (List (stagingSchema rq))
       (\<lambda>e. fail_with 500 ''PGRST301'' (''Failed to list transactions: '' @ e))
       (\<lambda>txs. reply_with 200 (VArr (map tx_json txs)))"

definition not_found :: "string \<Rightarrow> string" where
  "not_found txID = ''Transaction not found: '' @ txID"

definition txGet :: "request \<Rightarrow> ('db, response) act" where
  "txGet rq =
     (let txID = Param rq ''txID''
      in on_result (Get txID) (\<lambda>e. fail_with 500 ''PGRST302'' (''Failed to get transaction: '' @ e))
           (\<lambda>r. case r of None \<Rightarrow> fail_with 404 ''PGRST303'' (not_found txID)
                        | Some tx \<Rightarrow> reply_with 200 (tx_json tx)))"

definition txCommit :: "'db target \<Rightarrow> request \<Rightarrow> ('db, response) act" where
  "txCommit tg rq =
     (let txID = Param rq ''txID''
      in on_result (Get txID) (\<lambda>e. fail_with 500 ''PGRST304'' (''Failed to get transaction: '' @ e))
           (\<lambda>tx. if \<not> is_pending tx then fail_with 409 ''PGRST305'' ''Transaction not found or not pending''
             else on_result (Commit tg txID)
               (\<lambda>e. fail_with 409 ''PGRST306'' (''Failed to commit transaction: '' @ e))
               (\<lambda>_. reply_with 200 (obj_text [(''status'', ''committed'')]))))"

definition txRollback :: "'db target \<Rightarrow> request \<Rightarrow> ('db, response) act" where
  "txRollback tg rq =
     (let txID = Param rq ''txID''
      in on_result (Get txID) (\<lambda>e. fail_with 500 ''PGRST307'' (''Failed to get transaction: '' @ e))
           (\<lambda>r. case r of
                None \<Rightarrow> fail_with 404 ''PGRST303'' (not_found txID)
              | Some tx \<Rightarrow>
                  if tx_Status tx = Pending then
                    on_result (Rollback txID)
                      (\<lambda>e. fail_with 409 ''PGRST309'' (''Failed to rollback transaction: '' @ e))
                      (\<lambda>_. reply_with 200 (obj_text [(''status'', ''rolled_back'')]))
                  else if tx_Status tx = Committed then
                    on_result (RollbackPostCommit tg txID)
                      (\<lambda>e. fail_with 409 ''PGRST320'' (''Failed to rollback committed transaction: '' @ e))
                      (\<lambda>_. reply_with 200 (obj_text [(''status'', ''rolled_back'')]))
                  else fail_with 409 ''PGRST308''
                    (''Transaction cannot be rolled back: status='' @ status_text (tx_Status tx))))"

section \<open>What is staged\<close>

lemma wp_on_result [wp_intros]:
  assumes "wp m (\<lambda>x s1. wp (f x) N E s1) (\<lambda>e s1. case e of None \<Rightarrow> E None s1 | Some msg \<Rightarrow> wp (onError msg) N E s1) s"
  shows "wp (on_result m onError f) N E s"
  using assms by (auto simp: wp_def on_result_def split: outcome.splits prod.splits)

text \<open>The work of an operation: all that a commit uses of it.  \<open>planned\<close> is the work a request asks for.\<close>

type_synonym work = "string \<times> string \<times> string \<times> string \<times> val"

definition work_of :: "Operation \<Rightarrow> work" where
  "work_of o' = (op_TransactionID o', op_Operation o', op_TableName o', op_SQLQuery o', op_Params o')"

definition planned :: "'db target \<Rightarrow> string \<Rightarrow> request \<Rightarrow> (string \<times> val) list list \<Rightarrow> work list" where
  "planned tg txID rq items =
     (let table = stagingTable rq; job = (\<lambda>op text vals. (txID, op, table, text, to_json (tg_time tg) (slice_of vals)))
      in if rq_Method rq = ''POST''
         then map (\<lambda>item. job ''INSERT''
                (BuildInsertQuery table (map fst item) (map dollar [1 ..< 1 + length item])) (map snd item)) items
         else if rq_Method rq = ''PUT'' \<or> rq_Method rq = ''PATCH''
         then map (\<lambda>item. job ''UPDATE'' (updateText rq item) (updateVals rq item)) (take 1 items)
         else [job ''DELETE'' (BuildDeleteQuery table) (deleteVals rq)])"

text \<open>\<open>adds s ws s'\<close>: nothing has happened but that operations with the works \<open>ws\<close> have been appended.\<close>

definition adds :: "'db world \<Rightarrow> work list \<Rightarrow> 'db world \<Rightarrow> bool" where
  "adds s ws s' \<longleftrightarrow> w_txs s' = w_txs s \<and> w_db s' = w_db s \<and> w_now s' = w_now s \<and>
     map work_of (w_ops s') = map work_of (w_ops s) @ ws"

lemma work_of_staged: "work_of (staged o') = work_of o'"
  by (simp add: work_of_def staged_def)

lemma quiet_work: "quiet s s' \<Longrightarrow> map work_of (w_ops s') = map work_of (w_ops s)"
proof -
  assume "quiet s s'"
  then have "map work_of (map staged (w_ops s')) = map work_of (map staged (w_ops s))" by (simp only: quiet_def)
  then show ?thesis by (simp add: comp_def work_of_staged)
qed

lemma adds_quiet: "quiet s s' \<Longrightarrow> adds s [] s'"
  by (simp add: adds_def quiet_work) (simp add: quiet_def)

lemma adds_trans: "adds s ws s' \<Longrightarrow> adds s' ws' s'' \<Longrightarrow> adds s (ws @ ws') s''"
  by (simp add: adds_def)

lemma adds_find: "adds s ws s' \<Longrightarrow> find_tx i s' = find_tx i s"
  by (simp add: adds_def find_tx_def)

lemma wp_Stage_adds:
  "wp (Stage tg i op table q ps before ids)
     (\<lambda>_ s'. map_option tx_Status (find_tx i s) = Some Pending \<and> adds s [(i, op, table, q, to_json (tg_time tg) ps)] s')
     (\<lambda>_ s'. adds s [] s') s"
proof (rule wp_mono [OF wp_Stage], goal_cases)
  case (1 x s')
  then have "map work_of (w_ops s') = map work_of (w_ops s @ [new_op tg i op table q ps before ids s])"
    by (auto dest: quiet_work)
  with 1 show ?case by (auto simp: adds_def quiet_def work_of_def new_op_def)
qed (rule adds_quiet)

lemma wp_CaptureSnapshot:
  "wp (CaptureSnapshot tg schema table whereClause ps) (\<lambda>_ s'. quiet s s') (\<lambda>_ s'. quiet s s') s"
  unfolding CaptureSnapshot_def by (intro wp_intros) simp_all

text \<open>
  \<open>staging txID s ws rs s'\<close>: the answer is that of a request whose work is staged, or an error status
  and only the first part of the work is.
\<close>

definition staging :: "string \<Rightarrow> 'db world \<Rightarrow> work list \<Rightarrow> response \<Rightarrow> 'db world \<Rightarrow> bool" where
  "staging txID s ws rs s' \<longleftrightarrow>
     (if rs_Status rs = 202 then rs = accepted txID \<and> adds s ws s'
      else failed rs \<and> (\<exists>ws1 ws2. ws = ws1 @ ws2 \<and> ws2 \<noteq> [] \<and> adds s ws1 s'))"

lemma tx_error_sels [simp]: "rs_Status (tx_error status code msg) = status"
  by (simp add: tx_error_def)

lemma accepted_status [simp]: "rs_Status (accepted txID) = 202"
  by (simp add: accepted_def)

lemma staging_error: "adds s [] s' \<Longrightarrow> ws \<noteq> [] \<Longrightarrow> staging txID s ws (tx_error 500 code msg) s'"
  by (auto simp: staging_def failed_def intro: exI [of _ "[]"])

lemma staging_Cons:
  assumes "adds s [w] s1" "staging txID s1 ws rs s'"
  shows "staging txID s (w # ws) rs s'"
proof -
  have more: "adds s1 ws' s'' \<Longrightarrow> adds s (w # ws') s''" for ws' s''
    using adds_trans [OF assms(1)] by fastforce
  show ?thesis
  proof (cases "rs_Status rs = 202")
    case True
    with assms(2) more show ?thesis by (simp add: staging_def)
  next
    case False
    with assms(2) obtain ws1 ws2 where rs: "failed rs" "ws = ws1 @ ws2" "ws2 \<noteq> []" "adds s1 ws1 s'"
      by (auto simp: staging_def)
    then have "\<exists>ws1 ws2. w # ws = ws1 @ ws2 \<and> ws2 \<noteq> [] \<and> adds s ws1 s'"
      using more by (metis append_Cons)
    with False rs show ?thesis by (simp add: staging_def)
  qed
qed

lemma staging_Nil: "staging txID s [] (accepted txID) s"
  by (simp add: staging_def adds_def)

text \<open>An action is steady when it never panics and makes no failures of its own.\<close>

definition steady :: "('db, 'a) act \<Rightarrow> bool" where
  "steady m \<longleftrightarrow> (\<forall>s. fst (m s) \<noteq> Panic \<and> (w_faults s = [] \<longrightarrow> w_faults (snd (m s)) = []))"

named_theorems steady_intros \<open>steady actions\<close>

lemma steadyI: "(\<And>s r s'. m s = (r, s') \<Longrightarrow> r \<noteq> Panic \<and> (w_faults s = [] \<longrightarrow> w_faults s' = [])) \<Longrightarrow> steady m"
  by (auto simp: steady_def intro: prod.collapse [symmetric])

lemma steadyD: "steady m \<Longrightarrow> m s = (r, s') \<Longrightarrow> r \<noteq> Panic \<and> (w_faults s = [] \<longrightarrow> w_faults s' = [])"
  unfolding steady_def by (metis fst_conv snd_conv)

lemma steady_basic [steady_intros]:
  "steady (ret x)" "steady (throw e)" "steady (gets f)" "steady db_call"
  by (auto simp: steady_def ret_def throw_def gets_def db_call_def split: list.split option.split)

lemma steady_lift [steady_intros]: "steady (lift m)"
  by (cases m) (auto simp: steady_def lift_def)

lemma steady_modifyW [steady_intros]: "(\<And>s. w_faults (f s) = w_faults s) \<Longrightarrow> steady (modifyW f)"
  by (simp add: steady_def modifyW_def)

lemma steady_on_result [steady_intros]:
  assumes "steady m" "\<And>e. steady (onError e)" "\<And>x. steady (f x)"
  shows "steady (on_result m onError f)"
proof (rule steadyI)
  fix s r s' assume run: "on_result m onError f s = (r, s')"
  obtain r1 s1 where m: "m s = (r1, s1)" by fastforce
  show "r \<noteq> Panic \<and> (w_faults s = [] \<longrightarrow> w_faults s' = [])"
    using run steadyD [OF assms(1) m] steadyD [OF assms(2)] steadyD [OF assms(3)]
    by (cases r1) (auto simp: on_result_def m)
qed

lemma bindM_on_result: "bindM m f = on_result m throw f"
  by (rule ext) (simp add: bindM_def on_result_def throw_def split: prod.split outcome.split)

lemma steady_bindM [steady_intros]: "steady m \<Longrightarrow> (\<And>x. steady (f x)) \<Longrightarrow> steady (bindM m f)"
  unfolding bindM_on_result by (intro steady_intros)

lemma steady_thenM [steady_intros]: "steady m \<Longrightarrow> steady k \<Longrightarrow> steady (thenM m k)"
  unfolding thenM_def by (rule steady_bindM)

lemma steady_wrap [steady_intros]: "steady m \<Longrightarrow> steady (wrap ctx m)"
  by (rule steadyI) (auto simp: wrap_def split: outcome.splits prod.splits dest: steadyD)

lemma steady_attempt [steady_intros]: "steady m \<Longrightarrow> steady (attempt m)"
  by (rule steadyI) (auto simp: attempt_def split: outcome.splits prod.splits dest: steadyD)

lemma steady_if [steady_intros]: "(b \<Longrightarrow> steady m) \<Longrightarrow> (\<not> b \<Longrightarrow> steady k) \<Longrightarrow> steady (if b then m else k)"
  by simp

lemma steady_option [steady_intros]:
  "steady m \<Longrightarrow> (\<And>y. steady (f y)) \<Longrightarrow> steady (case x of None \<Rightarrow> m | Some y \<Rightarrow> f y)"
  by (cases x) auto

lemma steady_prod [steady_intros]: "(\<And>a b. steady (f a b)) \<Longrightarrow> steady (case x of (a, b) \<Rightarrow> f a b)"
  by (cases x) auto

lemma steady_Let [steady_intros]: "steady (f x) \<Longrightarrow> steady (let y = x in f y)"
  by simp

lemma steady_manager [steady_intros]:
  "steady (Get txID)" "steady (Stage tg txID op table q ps before ids)" "steady (Start uuid schema)"
  "steady (CaptureSnapshot tg schema table whereClause params)"
  unfolding Stage_def stage_body_def Start_def CaptureSnapshot_def Get_def by (intro steady_intros; simp)+

lemma wp_steady: "wp m N E s \<Longrightarrow> steady m \<Longrightarrow> wp m N (\<lambda>e s'. (\<exists>msg. e = Some msg) \<and> E e s') s"
  by (auto simp: wp_def steady_def split: outcome.splits prod.splits) (metis fst_conv)

lemma wp_stageOne:
  assumes "\<And>s1. adds s [(i, op, table, q, to_json (tg_time tg) ps)] s1 \<Longrightarrow>
    wp next (staging i s1 ws) (\<lambda>_ _. False) s1"
  shows "wp (on_result (Stage tg i op table q ps before ids) (stage_error code) (\<lambda>_. next))
    (staging i s ((i, op, table, q, to_json (tg_time tg) ps) # ws)) (\<lambda>_ _. False) s"
proof (rule wp_on_result, rule wp_mono [OF wp_steady [OF wp_Stage_adds steady_manager(2)]], goal_cases)
  case (1 x s1)
  then show ?case by (intro wp_mono [OF assms]) (auto intro: staging_Cons)
next
  case (2 e s1)
  then show ?case by (auto simp: stage_error_def intro!: wp_ret staging_error)
qed

lemma wp_stageInserts:
  assumes "rq_Method rq = ''POST''"
  shows "wp (stageInserts tg i (stagingTable rq) items) (staging i s (planned tg i rq items)) (\<lambda>_ _. False) s"
proof (induction items arbitrary: s)
  case Nil
  show ?case using assms by (auto simp: planned_def intro!: wp_ret staging_Nil)
next
  case (Cons item items)
  have "planned tg i rq (item # items) = (i, ''INSERT'', stagingTable rq,
      BuildInsertQuery (stagingTable rq) (map fst item) (map dollar [1 ..< 1 + length item]),
      to_json (tg_time tg) (slice_of (map snd item))) # planned tg i rq items"
    using assms by (simp add: planned_def Let_def)
  with Cons.IH show ?case
    by (simp add: extractInsertParts_def Let_def wp_stageOne del: upt_Suc)
qed

text \<open>One operation, after the snapshot that goes with it.\<close>

lemma wp_snapshotOne:
  "wp (on_result (if b then CaptureSnapshot tg schema table whereClause ps else ret (None, None)) (snapshot_error code)
       (\<lambda>(before, ids). on_result (Stage tg i op t q vals before ids) (stage_error code') (\<lambda>_. ret (accepted i))))
     (staging i s [(i, op, t, q, to_json (tg_time tg) vals)]) (\<lambda>_ _. False) s"
proof (rule wp_on_result)
  let ?one = "\<lambda>before ids. on_result (Stage tg i op t q vals before ids) (stage_error code') (\<lambda>_. ret (accepted i))"
    and ?ws = "[(i, op, t, q, to_json (tg_time tg) vals)]"
  have one: "wp (?one before ids) (staging i s ?ws) (\<lambda>_ _. False) s1" if "quiet s s1" for before ids s1
  proof -
    have "staging i s1 ?ws rs s' \<Longrightarrow> staging i s ?ws rs s'" for rs s'
      using adds_trans [OF adds_quiet [OF that]] unfolding staging_def by (auto split: if_splits)
    then show ?thesis by (intro wp_mono [OF wp_stageOne]) (auto intro!: wp_ret staging_Nil)
  qed
  have err: "wp (snapshot_error code e) (staging i s ?ws) (\<lambda>_ _. False) s1" if "quiet s s1" for e s1
    using that by (auto simp: snapshot_error_def intro!: wp_ret staging_error adds_quiet)
  show "wp (if b then CaptureSnapshot tg schema table whereClause ps else ret (None, None))
      (\<lambda>x s1. wp (case x of (before, ids) \<Rightarrow> ?one before ids) (staging i s ?ws) (\<lambda>_ _. False) s1)
      (\<lambda>e s1. case e of None \<Rightarrow> False | Some msg \<Rightarrow> wp (snapshot_error code msg) (staging i s ?ws) (\<lambda>_ _. False) s1) s"
    by (intro wp_if wp_ret wp_mono [OF wp_steady [OF wp_CaptureSnapshot steady_manager(4)]])
      (auto intro: one err)
qed

lemma wp_stageRequest:
  assumes "rq_Method rq \<in> {''POST'', ''PUT'', ''PATCH'', ''DELETE''}"
  shows "wp (stageRequest tg i rq items) (staging i s (planned tg i rq items)) (\<lambda>_ _. False) s"
proof -
  consider "rq_Method rq = ''POST''" | "rq_Method rq = ''PUT'' \<or> rq_Method rq = ''PATCH''" | "rq_Method rq = ''DELETE''"
    using assms by auto
  then show ?thesis
  proof cases
    case 1
    then show ?thesis by (simp add: stageRequest_def wp_stageInserts)
  next
    case 2
    show ?thesis
    proof (cases items)
      case Nil
      with 2 show ?thesis by (auto simp: stageRequest_def stageUpdate_def planned_def intro!: wp_ret staging_Nil)
    next
      case (Cons item rest)
      obtain w ps where w: "extractWhereClause (rq_RawQuery rq) = (w, ps)" by fastforce
      have "stageRequest tg i rq items = on_result
          (if w \<noteq> [] then CaptureSnapshot tg (stagingSchema rq) (Param rq ''table'') w ps else ret (None, None))
          (snapshot_error ''PGRST317'') (\<lambda>(before, ids). on_result
            (Stage tg i ''UPDATE'' (stagingTable rq) (updateText rq item) (slice_of (updateVals rq item)) before ids)
            (stage_error ''PGRST315'') (\<lambda>_. ret (accepted i)))"
        using 2 Cons w by (auto simp: stageRequest_def stageUpdate_def)
      moreover have "planned tg i rq items = [(i, ''UPDATE'', stagingTable rq, updateText rq item,
          to_json (tg_time tg) (slice_of (updateVals rq item)))]"
        using 2 Cons by (auto simp: planned_def Let_def)
      ultimately show ?thesis by (simp only: wp_snapshotOne)
    qed
  next
    case 3
    then show ?thesis
      unfolding stageRequest_def stageDelete_def planned_def Let_def by (simp add: wp_snapshotOne del: if_split)
  qed
qed

text \<open>The middleware: the state is as good as untouched when the chain goes on.\<close>

definition middleware_done :: "'db target \<Rightarrow> json_lib \<Rightarrow> request \<Rightarrow> 'db world \<Rightarrow> response option \<Rightarrow> 'db world \<Rightarrow> bool" where
  "middleware_done tg js rq s r s' \<longleftrightarrow>
     (let txID = GetHeader rq HeaderTransaction
      in case r of
           None \<Rightarrow> passes rq \<and> s' = s
         | Some rs \<Rightarrow> (passes rq = False) \<and>
             (if rs_Status rs = 202
              then \<exists>bodyData. map_option tx_Status (find_tx txID s) = Some Pending \<and> readBody js rq = Inr bodyData \<and>
                     rs = accepted txID \<and> adds s (planned tg txID rq (bodyItems bodyData)) s'
              else failed rs \<and> (\<exists>ws. adds s ws s' \<and> (ws = [] \<or>
                     (\<exists>bodyData. readBody js rq = Inr bodyData \<and> strict_prefix ws (planned tg txID rq (bodyItems bodyData)))))))"

lemma readBody_error: "readBody js rq = Inl rs \<Longrightarrow> rs_Status rs = 400"
  by (auto simp: readBody_def split: sum.splits if_splits)

lemma wp_Middleware:
  "wp (Middleware tg js rq) (middleware_done tg js rq s) (\<lambda>_ _. False) s"
proof (cases "passes rq")
  case True
  then show ?thesis by (simp add: Middleware_def Let_def wp_def ret_def middleware_done_def)
next
  case False
  let ?i = "GetHeader rq HeaderTransaction"
  have error: "middleware_done tg js rq s (Some rs) s1" if "400 \<le> rs_Status rs" "quiet s s1" for rs s1
    using that False adds_quiet [OF that(2)] by (auto simp: middleware_done_def failed_def Let_def)
  have run: "wp (stageRequest tg ?i rq (bodyItems v)) (\<lambda>rs s'. middleware_done tg js rq s (Some rs) s') (\<lambda>_ _. False) s1"
    if v: "readBody js rq = Inr v" and s1: "quiet s s1" and pend: "map_option tx_Status (find_tx ?i s) = Some Pending" for v s1
  proof (rule wp_mono [OF wp_stageRequest], goal_cases)
    case 1
    show ?case using False by (auto simp: passes_def)
  next
    case (2 rs s')
    have more: "adds s1 ws s' \<Longrightarrow> adds s ws s'" for ws using adds_trans [OF adds_quiet [OF s1]] by simp
    show ?case
    proof (cases "rs_Status rs = 202")
      case True
      with 2 more False v pend show ?thesis by (auto simp: middleware_done_def staging_def Let_def)
    next
      case not202: False
      with 2 obtain ws1 ws2 where "failed rs" "planned tg ?i rq (bodyItems v) = ws1 @ ws2" "ws2 \<noteq> []" "adds s1 ws1 s'"
        by (auto simp: staging_def)
      with not202 more False v show ?thesis
        by (auto simp: middleware_done_def Let_def strict_prefix_def intro!: exI [of _ ws1])
    qed
  qed simp
  have body: "wp (case readBody js rq of Inl rs \<Rightarrow> ret (Some rs)
       | Inr v \<Rightarrow> bindM (stageRequest tg ?i rq (bodyItems v)) (\<lambda>rs. ret (Some rs)))
      (middleware_done tg js rq s) (\<lambda>_ _. False) s1"
    if "quiet s s1" "map_option tx_Status (find_tx ?i s) = Some Pending" for s1
    using run [OF _ that] that(1) readBody_error [of js rq]
    by (auto split: sum.split intro!: wp_ret error wp_bindM elim!: wp_mono)
  have get: "wp (Get ?i) (\<lambda>tx s'. quiet s s' \<and> map_option tx_Status tx = map_option tx_Status (find_tx ?i s))
      (\<lambda>_ s'. quiet s s') s"
    by (rule wp_Get) auto
  show ?thesis
    unfolding Middleware_def Let_def
    by (simp only: False if_False, rule wp_on_result, rule wp_mono [OF wp_steady [OF get steady_manager(1)]])
      (auto simp: is_pending_status intro!: wp_ret error body)
qed

section \<open>The metadata tables stay well formed\<close>

text \<open>\<open>preserves m\<close>: the action keeps the invariant of the manager.\<close>

definition preserves :: "('db, 'a) act \<Rightarrow> bool" where
  "preserves m \<longleftrightarrow> (\<forall>s. meta_ok s \<longrightarrow> meta_ok (snd (m s)))"

named_theorems preserves_intros \<open>actions that keep the invariant\<close>

lemma preservesD: "preserves m \<Longrightarrow> m s = (r, s') \<Longrightarrow> meta_ok s \<Longrightarrow> meta_ok s'"
  unfolding preserves_def by (metis snd_conv)

lemma preserves_ret [preserves_intros]: "preserves (ret x)" "preserves (throw e)"
  by (simp_all add: preserves_def ret_def throw_def)

lemma preserves_on_result [preserves_intros]:
  fixes m :: "('db, 'a) act"
  assumes "preserves m" "\<And>e. preserves (onError e)" "\<And>x. preserves (f x)"
  shows "preserves (on_result m onError f)"
  unfolding preserves_def
proof (intro allI impI)
  fix s :: "'db world" assume s: "meta_ok s"
  obtain r s1 where m: "m s = (r, s1)" by fastforce
  then have "meta_ok s1" using preservesD [OF assms(1) _ s] by blast
  with m assms(2,3) show "meta_ok (snd (on_result m onError f s))"
    by (cases r) (auto simp: on_result_def preserves_def)
qed

lemma preserves_bindM [preserves_intros]: "preserves m \<Longrightarrow> (\<And>x. preserves (f x)) \<Longrightarrow> preserves (bindM m f)"
  unfolding bindM_on_result by (intro preserves_intros)

lemma preserves_if [preserves_intros]: "preserves m \<Longrightarrow> preserves k \<Longrightarrow> preserves (if b then m else k)"
  by simp

lemma preserves_prod [preserves_intros]: "(\<And>a b. preserves (f a b)) \<Longrightarrow> preserves (case x of (a, b) \<Rightarrow> f a b)"
  by (cases x) auto

lemma preserves_option [preserves_intros]:
  "preserves m \<Longrightarrow> (\<And>y. preserves (f y)) \<Longrightarrow> preserves (case x of None \<Rightarrow> m | Some y \<Rightarrow> f y)"
  by (cases x) auto

lemma preserves_sum [preserves_intros]:
  "(\<And>e. preserves (g e)) \<Longrightarrow> (\<And>y. preserves (f y)) \<Longrightarrow> preserves (case x of Inl e \<Rightarrow> g e | Inr y \<Rightarrow> f y)"
  by (cases x) auto

lemma preserves_good: "(\<And>s. good s (snd (m s))) \<Longrightarrow> preserves m"
  by (simp add: preserves_def good_def)

lemma good_CaptureSnapshot: "good s (snd (CaptureSnapshot tg schema table whereClause ps s))"
  by (rule good_wp, rule wp_mono [OF wp_CaptureSnapshot]) (rule good_quietD; assumption)+

lemma preserves_manager [preserves_intros]:
  "preserves (Get i)" "preserves (Stage tg i op table q vals before ids)" "preserves (Start uuid schema)"
  "preserves (CaptureSnapshot tg schema table whereClause ps)" "preserves (Commit tg i)" "preserves (Rollback i)"
  "preserves (RollbackPostCommit tg i)"
  by (intro preserves_good good_Get good_Stage good_Start good_CaptureSnapshot good_Commit good_Rollback
      good_RollbackPostCommit)+

lemma preserves_stageInserts: "preserves (stageInserts tg i table items)"
  by (induction items) (auto simp: stage_error_def Let_def intro!: preserves_intros split: prod.split)

lemma preserves_stageUpdate: "preserves (stageUpdate tg i rq items)"
  unfolding stageUpdate_def stage_error_def snapshot_error_def Let_def
  by (cases items) (auto intro!: preserves_intros split: prod.split)

lemma preserves_Middleware: "preserves (Middleware tg js rq)"
  unfolding Middleware_def Let_def stageRequest_def stageDelete_def stage_error_def snapshot_error_def
  by (intro preserves_intros preserves_stageInserts preserves_stageUpdate)

lemma steady_sum [steady_intros]:
  "(\<And>e. steady (g e)) \<Longrightarrow> (\<And>y. steady (f y)) \<Longrightarrow> steady (case x of Inl e \<Rightarrow> g e | Inr y \<Rightarrow> f y)"
  by (cases x) auto

lemma steady_stageInserts: "steady (stageInserts tg i table items)"
  by (induction items) (auto simp: stage_error_def Let_def intro!: steady_intros split: prod.split)

lemma steady_stageUpdate: "steady (stageUpdate tg i rq items)"
  unfolding stageUpdate_def stage_error_def snapshot_error_def Let_def
  by (cases items) (auto intro!: steady_intros split: prod.split)

lemma steady_Middleware: "steady (Middleware tg js rq)"
  unfolding Middleware_def Let_def stageRequest_def stageDelete_def stage_error_def snapshot_error_def
  by (intro steady_intros steady_stageInserts steady_stageUpdate)

section \<open>From the request to the commit\<close>

definition op_of_work :: "work \<Rightarrow> Operation" where
  "op_of_work w =
     (case w of (i, op, table, text, params) \<Rightarrow>
        \<lparr>op_ID = 0, op_TransactionID = i, op_Operation = op, op_TableName = table, op_SQLQuery = text,
         op_Params = params, op_BeforeState = None, op_CommittedState = None, op_RowIDs = None, op_CreatedAt = 0\<rparr>)"

lemma apply_ops_work: "apply_ops tg (map op_of_work (map work_of ops)) db = apply_ops tg ops db"
proof (induction ops arbitrary: db)
  case (Cons o' ops)
  have sels: "op_Params (op_of_work (work_of o')) = op_Params o'" "op_Operation (op_of_work (work_of o')) = op_Operation o'"
    "op_SQLQuery (op_of_work (work_of o')) = op_SQLQuery o'" by (simp_all add: op_of_work_def work_of_def)
  have "apply_op tg (op_of_work (work_of o')) db = apply_op tg o' db"
    unfolding apply_op_def sels ..
  with Cons show ?case by (cases "apply_op tg o' db") auto
qed simp

lemma planned_id: "w \<in> set (planned tg i rq items) \<Longrightarrow> fst w = i"
  by (auto simp: planned_def Let_def split: if_splits)

lemma adds_ops_of:
  assumes "meta_ok s'" "adds s ws s'" "\<forall>w \<in> set ws. fst w = i" "i \<notin> op_TransactionID ` set (w_ops s)"
  shows "map work_of (ops_of i s') = ws"
proof -
  have "map work_of (filter (\<lambda>o'. op_TransactionID o' = i) (w_ops s')) = filter (\<lambda>w. fst w = i) (map work_of (w_ops s'))"
    by (simp add: filter_map comp_def work_of_def)
  also have "\<dots> = filter (\<lambda>w. fst w = i) (map work_of (w_ops s)) @ ws"
    using assms(2,3) by (simp add: adds_def)
  also have "filter (\<lambda>w. fst w = i) (map work_of (w_ops s)) = []"
    using assms(4) by (auto simp: filter_empty_conv work_of_def)
  finally show ?thesis by (simp add: ops_of_order [OF assms(1)])
qed

lemma deferred_commit:
  assumes s: "meta_ok s" "w_faults s = []" "map_option tx_Status (find_tx i s) = Some Pending"
      "i \<notin> op_TransactionID ` set (w_ops s)"
    and rq: "GetHeader rq HeaderTransaction = i" "readBody js rq = Inr v"
    and mw: "Middleware tg js rq s = (Ok (Some rs), s1)" "rs_Status rs = 202"
    and plan: "apply_ops tg (map op_of_work (planned tg i rq (bodyItems v))) (w_db s) = Some db'"
  shows "w_db s1 = w_db s \<and> (case Commit tg i s1 of (r, s2) \<Rightarrow>
    r = Ok () \<and> w_db s2 = db' \<and> map_option tx_Status (find_tx i s2) = Some Committed)"
proof -
  have "middleware_done tg js rq s (Some rs) s1"
    using wpD [OF wp_Middleware mw(1)] by auto
  then have add: "adds s (planned tg i rq (bodyItems v)) s1"
    using rq mw(2) by (auto simp: middleware_done_def Let_def)
  have ok: "meta_ok s1" by (rule preservesD [OF preserves_Middleware mw(1) s(1)])
  have calm: "w_faults s1 = []" using steadyD [OF steady_Middleware mw(1)] s(2) by blast
  have pend: "map_option tx_Status (find_tx i s1) = Some Pending" using s(3) adds_find [OF add] by metis
  have "map work_of (ops_of i s1) = planned tg i rq (bodyItems v)"
    by (rule adds_ops_of [OF ok add _ s(4)]) (auto dest: planned_id)
  then have run: "apply_ops tg (ops_of i s1) (w_db s1) = Some db'"
    using plan apply_ops_work [of tg "ops_of i s1"] add by (simp add: adds_def)
  obtain r s2 where c: "Commit tg i s1 = (r, s2)" by fastforce
  from wpD [OF calm_Commit [OF calm pend run] c] have r: "r = Ok ()" by auto
  from wpD [OF wp_Commit c] run r have "w_db s2 = db'" "w_txs s2 = committed_txs i (w_now s1) (w_txs s1)"
    by (auto simp: quiet_def)
  moreover have "map_option tx_Status (find_tx i s2) = Some Committed"
    using pend calculation(2) find_update_tx [of "set_status Committed (w_now s1)" i i "w_txs s1"]
    by (auto simp: find_tx_def committed_txs_def)
  ultimately show ?thesis using add c r by (simp add: adds_def)
qed

section \<open>Replies\<close>

lemma c_JSON_status [simp]: "rs_Status (c_JSON status v rs) = status"
  by simp

lemma wp_fail_with [wp_intros]: "N (tx_error status code msg) s \<Longrightarrow> wp (fail_with status code msg) N E s"
  unfolding fail_with_def by (rule wp_ret)

lemma wp_reply_with [wp_intros]: "N (c_JSON status v new_response) s \<Longrightarrow> wp (reply_with status v) N E s"
  unfolding reply_with_def by (rule wp_ret)

text \<open>What the commit and rollback routes answer, and what has happened then.\<close>

definition commit_reply :: "'db target \<Rightarrow> string \<Rightarrow> 'db world \<Rightarrow> response \<Rightarrow> 'db world \<Rightarrow> bool" where
  "commit_reply tg i s rs s' \<longleftrightarrow>
     (let applied = (apply_ops tg (ops_of i s) (w_db s) = Some (w_db s'))
      in if rs_Status rs = 200
         then map_option tx_Status (find_tx i s) = Some Pending \<and> applied \<and>
              w_txs s' = committed_txs i (w_now s) (w_txs s)
         else failed rs \<and> w_txs s' = w_txs s \<and> (w_db s' = w_db s \<or> applied))"

definition rollback_reply :: "'db target \<Rightarrow> string \<Rightarrow> 'db world \<Rightarrow> response \<Rightarrow> 'db world \<Rightarrow> bool" where
  "rollback_reply tg i s rs s' \<longleftrightarrow>
     (let status = map_option tx_Status (find_tx i s);
          undo = (undone tg (rev (ops_of i s)) s = Ok (w_db s'))
      in if rs_Status rs = 200
         then w_txs s' = update_tx i (set_status RolledBack (w_now s)) (w_txs s) \<and>
              (status = Some Pending \<and> w_db s' = w_db s \<or> status = Some Committed \<and> undo)
         else failed rs \<and> w_txs s' = w_txs s \<and> (w_db s' = w_db s \<or> status = Some Committed \<and> undo))"

lemma steady_currentRows [steady_intros]: "steady (currentRows tg table rows)"
  by (induction rows) (auto intro!: steady_intros split: option.split)

lemma steady_recordOp [steady_intros]: "steady (recordOp tg op)"
  unfolding recordOp_def by (intro steady_intros) (auto simp: update_op_def)

lemma steady_runs: "steady (runOps tg ops db)" "steady (recordOps tg ops)"
proof -
  have "steady (runOp tg op db)" for op db
    unfolding runOp_def by (intro steady_intros) (auto simp: update_op_def)
  then show "steady (runOps tg ops db)" by (induction ops arbitrary: db) (auto intro!: steady_intros)
  show "steady (recordOps tg ops)" by (induction ops) (auto intro!: steady_intros)
qed

lemma steady_deleteRows [steady_intros]: "steady (deleteRows tg table ids db)"
  by (induction ids arbitrary: db) (auto intro!: steady_intros)

lemma steady_checkRows [steady_intros]: "steady (checkRows tg table cs db)"
  by (induction cs arbitrary: db) (auto intro!: steady_intros split: option.split)

lemma steady_restoreRows [steady_intros]: "steady (restoreRows tg table rows db)"
  by (induction rows arbitrary: db) (auto intro!: steady_intros split: option.split simp: Let_def)

lemma steady_reinsertRows [steady_intros]: "steady (reinsertRows tg table rows db)"
  by (induction rows arbitrary: db) (auto intro!: steady_intros simp: Let_def)

lemma steady_undoOps: "steady (undoOps tg ops db)"
proof -
  have "steady (undoOp tg op db)" for op db
    unfolding undoOp_def checkCommitted_def by (intro steady_intros)
  then show ?thesis by (induction ops arbitrary: db) (auto intro!: steady_intros)
qed

lemma steady_settle [steady_intros]: "steady (Commit tg i)" "steady (Rollback i)" "steady (RollbackPostCommit tg i)"
  unfolding Commit_def commit_body_def Rollback_def rollback_body_def RollbackPostCommit_def undo_body_def
  by (intro steady_intros steady_runs steady_undoOps; simp)+

lemma wp_Get_status:
  "wp (Get i) (\<lambda>tx s'. quiet s s' \<and> w_ops s' = w_ops s \<and> map_option tx_Status tx = map_option tx_Status (find_tx i s))
     (\<lambda>e s'. (\<exists>msg. e = Some msg) \<and> quiet s s' \<and> w_ops s' = w_ops s) s"
  by (rule wp_steady [OF wp_Get steady_manager(1)]) auto

lemma quiet_ops:
  assumes "quiet s s1" "w_ops s1 = w_ops s"
  shows "ops_of i s1 = ops_of i s" "find_tx i s1 = find_tx i s" "undone tg ops s1 = undone tg ops s"
proof -
  have "calm s1 = calm s" using assms by (cases s; cases s1) (simp add: calm_def quiet_def)
  then show "undone tg ops s1 = undone tg ops s" using assms(1) by (simp add: undone_def quiet_def)
qed (use assms in \<open>simp_all add: ops_of_def find_tx_def quiet_def\<close>)

lemma wp_txCommit:
  "wp (txCommit tg rq) (commit_reply tg (Param rq ''txID'') s) (\<lambda>_ _. False) s"
proof -
  let ?i = "Param rq ''txID''"
  have failed: "commit_reply tg ?i s (tx_error status code msg) s1" if "400 \<le> status" "quiet s s1" for status code msg s1
    using that by (auto simp: commit_reply_def failed_def Let_def quiet_def)
  have commit: "wp (on_result (Commit tg ?i) (\<lambda>e. fail_with 409 code (f e)) (\<lambda>_. reply_with 200 v))
      (commit_reply tg ?i s) (\<lambda>_ _. False) s1" if "quiet s s1" "w_ops s1 = w_ops s" for s1 code f v
    using that
    by (intro wp_on_result wp_mono [OF wp_steady [OF wp_Commit steady_settle(1)]])
      (auto simp: quiet_ops [OF that] commit_reply_def failed_def Let_def quiet_def intro!: wp_intros)
  show ?thesis
    unfolding txCommit_def Let_def
    by (rule wp_on_result, rule wp_mono [OF wp_Get_status]) (auto intro!: commit wp_fail_with failed)
qed

lemma wp_txRollback:
  "wp (txRollback tg rq) (rollback_reply tg (Param rq ''txID'') s) (\<lambda>_ _. False) s"
proof -
  let ?i = "Param rq ''txID''"
  have failed: "rollback_reply tg ?i s (tx_error status code msg) s1" if "400 \<le> status" "quiet s s1" for status code msg s1
    using that by (auto simp: rollback_reply_def failed_def Let_def quiet_def)
  have discard: "wp (on_result (Rollback ?i) (\<lambda>e. fail_with 409 code (f e)) (\<lambda>_. reply_with 200 v))
      (rollback_reply tg ?i s) (\<lambda>_ _. False) s1" if "quiet s s1" "w_ops s1 = w_ops s" for s1 code f v
    using that
    by (intro wp_on_result wp_mono [OF wp_steady [OF wp_Rollback steady_settle(2)]])
      (auto simp: quiet_ops [OF that] rollback_reply_def failed_def Let_def quiet_def intro!: wp_intros)
  have undo: "wp (on_result (RollbackPostCommit tg ?i) (\<lambda>e. fail_with 409 code (f e)) (\<lambda>_. reply_with 200 v))
      (rollback_reply tg ?i s) (\<lambda>_ _. False) s1" if "quiet s s1" "w_ops s1 = w_ops s" for s1 code f v
    using that
    by (intro wp_on_result wp_mono [OF wp_steady [OF wp_RollbackPostCommit steady_settle(3)]])
      (auto simp: quiet_ops [OF that] rollback_reply_def failed_def Let_def quiet_def intro!: wp_intros)
  show ?thesis
    unfolding txRollback_def Let_def
    by (rule wp_on_result, rule wp_mono [OF wp_Get_status]) (auto intro!: discard undo wp_fail_with failed split: option.split)
qed

section \<open>Properties\<close>

definition body_decoder :: "val \<Rightarrow> json_lib" where
  "body_decoder v = \<lparr>js_decode = (\<lambda>_. Inr v), js_encode = fmtV, js_time = Itoa\<rparr>"

definition staged_request :: "string \<Rightarrow> string \<Rightarrow> request" where
  "staged_request method query =
     \<lparr>rq_Method = method, rq_Params = [(''schema'', ''blog''), (''table'', ''posts'')], rq_RawQuery = query,
      rq_Header = [(HeaderTransaction, ''t1'')], rq_Body = Inr ''{}''\<rparr>"





text \<open>
  C34. Staged updates and deletes need an id.  With plain names, the text staged for an UPDATE of \<open>n\<close>
  columns has the placeholders 1 to \<open>n + 1\<close> and that of a DELETE the placeholder 1; the arguments
  staged with it are as many exactly when the query of the request has an \<^verbatim>\<open>id\<close>, and one fewer when it
  has not, whatever other filters the query has.
\<close>

theorem staged_arity:
  assumes "plain (stagingTable rq)" "\<forall>(k, v) \<in> set item. plain k"
  shows "dollars (updateText rq item) = [1 ..< length item + 2] \<and> dollars (BuildDeleteQuery (stagingTable rq)) = [1] \<and>
    (if extractIDParam (rq_RawQuery rq) = []
     then length (updateVals rq item) = length item \<and> length (deleteVals rq) = 0
     else length (updateVals rq item) = length item + 1 \<and> length (deleteVals rq) = 1)"
proof -
  have set: "dollars (Join (map (\<lambda>(i, k, _). k @ '' = '' @ dollar i) (enumerate i item)) '', '') = [i ..< i + length item]" for i
  proof -
    have "concat (map (dollars \<circ> (\<lambda>(i, k, _). k @ '' = '' @ dollar i)) (enumerate i item)) = [i ..< i + length item]"
      using assms(2)
      by (induction item arbitrary: i) (auto simp: dollars_append dollars_plain_append upt_conv_Cons simp del: upt_Suc)
    then show ?thesis by (simp add: dollars_Join)
  qed
  have "CHR ''$'' # nat_text n = dollar n" for n by (simp add: dollar_def)
  then have "dollars (updateText rq item) = [1 ..< 1 + length item] @ [length item + 1]"
    using assms(1) set [of 1]
    by (simp add: updateText_def extractUpdateParts_def BuildUpdateQuery_def dollars_append dollars_plain_append)
  also have "\<dots> = [1 ..< length item + 2]" by (simp add: upt_Suc_append)
  finally have update: "dollars (updateText rq item) = [1 ..< length item + 2]" .
  have one: "dollar 1 = ''$1''" by code_simp
  have "''DELETE FROM '' @ stagingTable rq @ '' WHERE id = $1'' = (''DELETE FROM '' @ stagingTable rq @ '' WHERE id = '') @ dollar 1"
    using one by simp
  then have "dollars (BuildDeleteQuery (stagingTable rq)) = [1]"
    using assms(1) unfolding BuildDeleteQuery_def by (simp only:) (simp add: dollars_plain_append)
  with update show ?thesis
    by (simp add: updateVals_def extractUpdateParts_def deleteVals_def Let_def)
qed

theorem staged_arity_witness:
  "dollars (updateText (staged_request ''PATCH'' ''title=eq.dog'') [(''title'', VStr ''cat'')]) = [1, 2] \<and>
   length (updateVals (staged_request ''PATCH'' ''title=eq.dog'') [(''title'', VStr ''cat'')]) = 1"
proof -
  let ?rq = "staged_request ''PATCH'' ''title=eq.dog''"
  have "stagingTable ?rq = ''blog.posts''" "extractIDParam (rq_RawQuery ?rq) = []" by code_simp+
  with staged_arity [of ?rq "[(''title'', VStr ''cat'')]"] show ?thesis by (simp add: upt_rec)
qed

text \<open>
  C35. The commit and rollback routes.  They never panic.  A commit answered with 200 has applied all
  operations and marked the transaction; a rollback answered with 200 has discarded a pending
  transaction without touching the target, or undone a committed one; any other answer is an error,
  the status of every transaction is what it was, and the target too, unless everything was
  applied or undone and only the mark is missing.
\<close>

theorem tx_replies:
  "(case txCommit tg rq s of (r, s') \<Rightarrow> \<exists>rs. r = Ok rs \<and> commit_reply tg (Param rq ''txID'') s rs s') \<and>
   (case txRollback tg rq s of (r, s') \<Rightarrow> \<exists>rs. r = Ok rs \<and> rollback_reply tg (Param rq ''txID'') s rs s')"
  using wpD [OF wp_txCommit] wpD [OF wp_txRollback] by (auto split: prod.split)

theorem tx_replies_witness:
  "commit_reply log_target ''t1'' staged_world (c_JSON 200 (obj_text [(''status'', ''committed'')]) new_response)
     (snd (txCommit log_target \<lparr>rq_Method = ''POST'', rq_Params = [(''txID'', ''t1'')], rq_RawQuery = [], rq_Header = [],
        rq_Body = Inr []\<rparr> staged_world))"
proof -
  let ?rq = "\<lparr>rq_Method = ''POST'', rq_Params = [(''txID'', ''t1'')], rq_RawQuery = [], rq_Header = [], rq_Body = Inr []\<rparr>"
  have "fst (txCommit log_target ?rq staged_world) = Ok (c_JSON 200 (obj_text [(''status'', ''committed'')]) new_response)"
    "Param ?rq ''txID'' = ''t1''" by code_simp+
  with tx_replies [of log_target ?rq staged_world] show ?thesis
    by (cases "txCommit log_target ?rq staged_world") auto
qed

end
