(* ===== verification/Router.thy ===== *)
theory Router
  imports Rpc RateLimit OpenApi Staging
begin

text \<open>
  \<^verbatim>\<open>internal/api/router.go\<close> and \<^verbatim>\<open>internal/metrics/middleware.go\<close>: the chain of middlewares in front of
  the handlers, from a request to its response and the new state.

  Which route a path matches, and the parameters of the path, are \<^verbatim>\<open>gin\<close>'s: a route is an argument, the
  parameters are part of the request.  The streaming route is in \<open>Hub\<close> and \<open>Program\<close>; the pages that only print a
  constant or the document of \<open>OpenApi\<close> are left out.
\<close>

section \<open>The method guard\<close>

definition guard_error :: "string \<Rightarrow> string \<Rightarrow> (string \<times> string) list \<Rightarrow> response" where
  "guard_error code message details =
     c_JSON 405 (obj_text ([(''code'', code), (''message'', message)] @ details)) new_response"

definition not_allowed :: "string \<Rightarrow> string \<Rightarrow> string \<Rightarrow> string" where
  "not_allowed method schemaName tableName =
     ''Method '' @ method @ '' is not allowed for '' @ schemaName @ ''.'' @ tableName"

text \<open>\<open>None\<close>: the next handler is called.\<close>

definition methodGuard :: "SchemaStore \<Rightarrow> Config \<Rightarrow> request \<Rightarrow> response option" where
  "methodGuard store cfg rq =
     (let tableName = Param rq ''table''; schemaName = Param rq ''schema''; method = rq_Method rq;
          config = (if \<not> cfg_IsMethodAllowed cfg tableName method
                    then Some (guard_error ''PGRST102'' (not_allowed method schemaName tableName @ '' (config)'') [])
                    else None)
      in if tableName = [] then None
         else (case GetTable store schemaName tableName of
                 None \<Rightarrow> config
               | Some t \<Rightarrow>
                   if tbl_IsView t \<and> method \<noteq> ''GET'' \<and> method \<noteq> ''HEAD'' \<and> method \<noteq> ''OPTIONS''
                   then Some (guard_error ''PGRST201'' (view_message method schemaName tableName) [])
                   else if \<not> IsMethodAllowed t method
                   then Some (guard_error ''PGRST102'' (not_allowed method schemaName tableName)
                     [(''details'', ''Check @allow/@deny comment on table or config permissions'')])
                   else config))"

section \<open>The CORS headers\<close>

definition allowedMethods :: "SchemaStore \<Rightarrow> Config \<Rightarrow> string \<Rightarrow> string \<Rightarrow> string list" where
  "allowedMethods store cfg schemaName tableName =
     ''OPTIONS'' # filter (\<lambda>method.
       (case GetTable store schemaName tableName of
          Some t \<Rightarrow> \<not> (tbl_IsView t \<and> method \<noteq> ''GET'' \<and> method \<noteq> ''HEAD'') \<and>
            IsMethodAllowed t method \<and> cfg_IsMethodAllowed cfg tableName method
        | None \<Rightarrow> cfg_IsMethodAllowed cfg tableName method))
       [''GET'', ''HEAD'', ''POST'', ''PUT'', ''PATCH'', ''DELETE'']"

definition corsMiddleware :: "SchemaStore \<Rightarrow> Config \<Rightarrow> request \<Rightarrow> response \<Rightarrow> response" where
  "corsMiddleware store cfg rq rs =
     set_header ''Access-Control-Allow-Methods''
       (Join (allowedMethods store cfg (Param rq ''schema'') (Param rq ''table'')) '', '')
    (set_header ''Access-Control-Expose-Headers'' ''Content-Range, Range-Unit, X-Total-Count, Content-Profile''
    (set_header ''Access-Control-Allow-Headers''
       ''Origin, Content-Type, Accept, Authorization, Prefer, Range, Accept-Profile, Content-Profile, Authorization-Transaction''
    (set_header ''Access-Control-Allow-Origin'' ''*'' rs)))"

section \<open>Metrics\<close>

text \<open>Counters by method, path and status; the observed durations; the requests under way by method.\<close>

record Metrics =
  met_Requests :: "(string \<times> string \<times> string) list"
  met_Errors :: "(string \<times> string \<times> string) list"
  met_Durations :: "(string \<times> string \<times> nat) list"
  met_Inflight :: "string list"

definition metrics_begin :: "string \<Rightarrow> Metrics \<Rightarrow> Metrics" where
  "metrics_begin method m = m\<lparr>met_Inflight := method # met_Inflight m\<rparr>"

definition metrics_end :: "string \<Rightarrow> string \<Rightarrow> nat \<Rightarrow> int \<Rightarrow> Metrics \<Rightarrow> Metrics" where
  "metrics_end method path duration status m =
     m\<lparr>met_Inflight := remove1 method (met_Inflight m),
       met_Requests := met_Requests m @ [(method, path, Itoa status)],
       met_Durations := met_Durations m @ [(method, path, duration)],
       met_Errors := (if 400 \<le> status then met_Errors m @ [(method, path, Itoa status)] else met_Errors m)\<rparr>"

definition LivenessHandler :: response where
  "LivenessHandler = c_JSON 200 (obj_text [(''status'', ''ok'')]) new_response"

text \<open>\<open>ping\<close> is the error of \<^verbatim>\<open>db.Ping\<close>, if there is one.\<close>

definition ReadinessHandler :: "string option \<Rightarrow> response" where
  "ReadinessHandler ping =
     (case ping of
        Some e \<Rightarrow> c_JSON 503 (obj_text [(''status'', ''down''), (''error'', e)]) new_response
      | None \<Rightarrow> c_JSON 200 (obj_text [(''status'', ''ok'')]) new_response)"

definition text_list :: "string list \<Rightarrow> val" where
  "text_list ss = VArr (map VStr ss)"

definition StreamsHandler :: "SchemaStore \<Rightarrow> response" where
  "StreamsHandler store =
     c_JSON 200 (VObj (map (\<lambda>s. (s, text_list (sort (map fst (TablesBySchema store s))))) (SchemaNames store))) new_response"

definition infoHandler :: "SchemaStore \<Rightarrow> Config \<Rightarrow> string list \<Rightarrow> response" where
  "infoHandler store cfg schemas =
     (let names = (\<lambda>s. filter (\<lambda>name. \<not> IsTableHidden cfg name) (map fst (TablesBySchema store s)));
          tables = List.map_filter (\<lambda>s. if 0 < length (names s) then Some (s, text_list (names s)) else None) (SchemaNames store)
      in c_JSON 200 (VObj [(''version'', VStr ''1.0.0''), (''schema'', text_list schemas), (''tables'', VObj tables)]) new_response)"

section \<open>The chain\<close>

datatype route = TableRoute | RpcRoute | TxStart | TxList | TxGet | TxCommit | TxRollback
  | Liveness | Readiness | Streams | Info | NoRoute

definition fullPath :: "route \<Rightarrow> string" where
  "fullPath r = (case r of
     TableRoute \<Rightarrow> ''/:schema/:table'' | RpcRoute \<Rightarrow> ''/:schema/rpc/:function''
   | TxStart \<Rightarrow> ''/:schema/transactions'' | TxList \<Rightarrow> ''/:schema/transactions''
   | TxGet \<Rightarrow> ''/:schema/transactions/:txID'' | TxCommit \<Rightarrow> ''/:schema/transactions/:txID/commit''
   | TxRollback \<Rightarrow> ''/:schema/transactions/:txID/rollback'' | Liveness \<Rightarrow> ''/ops/liveness''
   | Readiness \<Rightarrow> ''/ops/readiness'' | Streams \<Rightarrow> ''/ops/streams'' | Info \<Rightarrow> ''/info'' | NoRoute \<Rightarrow> ''unknown'')"

text \<open>What the handlers are made with, and what a request finds: the uuid, the clock, the client.\<close>

record ('db, 'b) env =
  en_server :: "'db server"
  en_target :: "'db target"
  en_bucket :: "'b bucket_lib"
  en_store :: SchemaStore
  en_cfg :: Config
  en_schemas :: "string list"
  en_uuid :: string
  en_ping :: "string option"
  en_clientIP :: string
  en_now :: nat
  en_duration :: nat

record ('db, 'b) state =
  st_world :: "'db world"
  st_limits :: "'b LimiterManager"
  st_metrics :: Metrics

type_synonym 'db answered = "'db world \<Rightarrow> reply \<times> 'db world"

definition on_db :: "'db handled \<Rightarrow> 'db answered" where
  "on_db h w = (let (r, db') = h (w_db w) in (r, w\<lparr>w_db := db'\<rparr>))"

definition on_world :: "('db, response) act \<Rightarrow> 'db answered" where
  "on_world m w = (case m w of (Ok rs, w') \<Rightarrow> (Reply rs, w') | (_, w') \<Rightarrow> (Crash, w'))"

definition pure_reply :: "response \<Rightarrow> 'db answered" where
  "pure_reply rs w = (Reply rs, w)"

definition tableHandler :: "'db server \<Rightarrow> SchemaStore \<Rightarrow> request \<Rightarrow> 'db handled" where
  "tableHandler sv store rq =
     (if rq_Method rq = ''GET'' then HandleGet sv store rq
      else if rq_Method rq = ''HEAD'' then HandleHead sv store rq
      else if rq_Method rq = ''POST'' then HandlePost sv store rq
      else if rq_Method rq = ''PUT'' then HandlePut sv store rq
      else if rq_Method rq = ''PATCH'' then HandlePatch sv store rq
      else if rq_Method rq = ''DELETE'' then HandleDelete sv store rq
      else HandleOptions store rq)"

definition dispatch :: "('db, 'b) env \<Rightarrow> route \<Rightarrow> request \<Rightarrow> 'db answered" where
  "dispatch en r rq = (case r of
     TableRoute \<Rightarrow> on_db (tableHandler (en_server en) (en_store en) rq)
   | RpcRoute \<Rightarrow> on_db (HandleRPC (en_server en) (en_store en) rq)
   | TxStart \<Rightarrow> on_world (txStart (en_uuid en) rq)
   | TxList \<Rightarrow> on_world (txList rq)
   | TxGet \<Rightarrow> on_world (txGet rq)
   | TxCommit \<Rightarrow> on_world (txCommit (en_target en) rq)
   | TxRollback \<Rightarrow> on_world (txRollback (en_target en) rq)
   | Liveness \<Rightarrow> pure_reply LivenessHandler
   | Readiness \<Rightarrow> pure_reply (ReadinessHandler (en_ping en))
   | Streams \<Rightarrow> pure_reply (StreamsHandler (en_store en))
   | Info \<Rightarrow> pure_reply (infoHandler (en_store en) (en_cfg en) (en_schemas en))
   | NoRoute \<Rightarrow> pure_reply (c_Status 404 (new_response\<lparr>rs_Body := Text ''404 page not found''\<rparr>)))"

text \<open>The methods a route is registered for.\<close>

definition registered :: "route \<Rightarrow> string \<Rightarrow> bool" where
  "registered r method \<longleftrightarrow>
     (case r of
        TableRoute \<Rightarrow> method \<in> {''GET'', ''HEAD'', ''POST'', ''PUT'', ''PATCH'', ''DELETE'', ''OPTIONS''}
      | RpcRoute \<Rightarrow> method = ''POST'' | TxStart \<Rightarrow> method = ''POST'' | TxCommit \<Rightarrow> method = ''POST''
      | TxRollback \<Rightarrow> method = ''POST'' | NoRoute \<Rightarrow> True | _ \<Rightarrow> method = ''GET'')"

text \<open>The transaction middleware is there only when transactions are enabled.\<close>

definition with_transactions :: "('db, 'b) env \<Rightarrow> request \<Rightarrow> 'db answered \<Rightarrow> 'db answered" where
  "with_transactions en rq next w =
     (if \<not> txc_Enabled (cfg_Transactions (en_cfg en)) then next w
      else case Middleware (en_target en) (sv_js (en_server en)) rq w of
             (Ok None, w') \<Rightarrow> next w'
           | (Ok (Some rs), w') \<Rightarrow> (Reply rs, w')
           | (_, w') \<Rightarrow> (Crash, w'))"

definition with_guard :: "('db, 'b) env \<Rightarrow> request \<Rightarrow> 'db answered \<Rightarrow> 'db answered" where
  "with_guard en rq next w =
     (case methodGuard (en_store en) (en_cfg en) rq of None \<Rightarrow> next w | Some rs \<Rightarrow> (Reply rs, w))"

text \<open>
  \<^verbatim>\<open>Recovery\<close> turns a panic into status 500; the metrics of a request that panics are not completed,
  because the middleware does not defer that part.
\<close>

definition serve :: "('db, 'b) env \<Rightarrow> route \<Rightarrow> request \<Rightarrow> ('db, 'b) state \<Rightarrow> response \<times> ('db, 'b) state" where
  "serve en r rq st =
     (let begun = metrics_begin (rq_Method rq) (st_metrics st);
          (limited, limits) = limit (en_bucket en) (en_now en) (en_clientIP en) rq (st_limits st);
          (answer, w) = (case limited of
             Some rs \<Rightarrow> (Reply rs, st_world st)
           | None \<Rightarrow> with_guard en rq (with_transactions en rq (dispatch en r rq)) (st_world st));
          cors = corsMiddleware (en_store en) (en_cfg en) rq
      in case answer of
           Reply rs \<Rightarrow> (cors rs, st\<lparr>st_world := w, st_limits := limits,
             st_metrics := metrics_end (rq_Method rq) (fullPath r) (en_duration en) (rs_Status rs) begun\<rparr>)
         | Crash \<Rightarrow> (cors (c_Status 500 new_response), st\<lparr>st_world := w, st_limits := limits, st_metrics := begun\<rparr>))"

section \<open>What the chain guarantees\<close>

lemma guard_error_status [simp]: "rs_Status (guard_error code msg details) = 405"
  by (simp add: guard_error_def)

lemma methodGuard_status: "methodGuard store cfg rq = Some rs \<Longrightarrow> rs_Status rs = 405"
  by (auto simp: methodGuard_def Let_def split: option.splits if_splits)

lemma cors_status [simp]: "rs_Status (corsMiddleware store cfg rq rs) = rs_Status rs"
  by (simp add: corsMiddleware_def)

lemma limit_status: "limit lib now ip rq m = (Some rs, m') \<Longrightarrow> rs_Status rs = 429"
  by (auto simp: limit_def too_many_def Let_def split: if_splits prod.splits option.splits)

lemma with_transactions_staged:
  assumes "txc_Enabled (cfg_Transactions (en_cfg en))" "\<not> passes rq"
  shows "w_db (snd (with_transactions en rq next w)) = w_db w \<and> w_txs (snd (with_transactions en rq next w)) = w_txs w"
proof -
  obtain r w' where m: "Middleware (en_target en) (sv_js (en_server en)) rq w = (r, w')" by fastforce
  from wpD [OF wp_Middleware m] obtain x
    where x: "r = Ok x" "middleware_done (en_target en) (sv_js (en_server en)) rq w x w'" by auto
  then obtain rs where rs: "x = Some rs" using assms(2) by (cases x) (auto simp: middleware_done_def)
  with x(2) have "\<exists>ws. adds w ws w'" by (auto simp: middleware_done_def Let_def split: if_splits)
  then show ?thesis using assms m x(1) rs by (auto simp: with_transactions_def adds_def)
qed

lemma serve_world:
  assumes "serve en r rq st = (rs, st')"
  obtains "st_world st' = st_world st" "rs_Status rs = 429"
  | g where "methodGuard (en_store en) (en_cfg en) rq = Some g" "st_world st' = st_world st" "rs_Status rs = 405"
  | "methodGuard (en_store en) (en_cfg en) rq = None"
    "st_world st' = snd (with_transactions en rq (dispatch en r rq) (st_world st))"
proof -
  obtain limited limits where l: "limit (en_bucket en) (en_now en) (en_clientIP en) rq (st_limits st) = (limited, limits)"
    by fastforce
  show thesis
  proof (cases limited)
    case (Some a)
    then show thesis
      using assms l limit_status [of "en_bucket en"] by (intro that(1)) (auto simp: serve_def)
  next
    case None
    show thesis
    proof (cases "methodGuard (en_store en) (en_cfg en) rq")
      case (Some g)
      then show thesis
        using assms l None methodGuard_status [OF Some] by (intro that(2)) (auto simp: serve_def with_guard_def)
    next
      case none: None
      then show thesis
        using assms l None
        by (intro that(3)) (auto simp: serve_def with_guard_def Let_def split: prod.splits reply.splits)
    qed
  qed
qed

text \<open>What the three places agree on.\<close>

abbreviation data_methods :: "string list" where
  "data_methods \<equiv> [''GET'', ''HEAD'', ''POST'', ''PUT'', ''PATCH'', ''DELETE'']"

definition permits :: "Config \<Rightarrow> string \<Rightarrow> Table \<Rightarrow> string \<Rightarrow> bool" where
  "permits cfg t table method \<longleftrightarrow> (tbl_IsView table \<longrightarrow> method = ''GET'' \<or> method = ''HEAD'') \<and> documents cfg t table method"

lemma allowedMethods_permits:
  "GetTable store s t = Some table \<Longrightarrow> allowedMethods store cfg s t = ''OPTIONS'' # filter (permits cfg t table) data_methods"
  unfolding allowedMethods_def permits_def documents_def
  by (intro arg_cong [where f = "(#) _"] filter_cong refl) simp

lemma methodGuard_permits:
  assumes "GetTable store s t = Some table" "t \<noteq> []" "Param rq ''schema'' = s" "Param rq ''table'' = t"
    "rq_Method rq \<noteq> ''OPTIONS''"
  shows "methodGuard store cfg rq = None \<longleftrightarrow> permits cfg t table (rq_Method rq)"
  using assms by (simp add: methodGuard_def permits_def documents_def Let_def)

lemma tableItem_methods:
  "map fst (tableItem cfg s t table) = map ToLower (filter (permits cfg t table) data_methods) @ [''options'']"
proof -
  have lower: "ToLower ''GET'' = ''get''" "ToLower ''HEAD'' = ''head''" "ToLower ''POST'' = ''post''"
    "ToLower ''PUT'' = ''put''" "ToLower ''PATCH'' = ''patch''" "ToLower ''DELETE'' = ''delete''" by code_simp+
  have "map fst (if b then [(key, op)] else []) = (if b then [key] else [])" for b and key :: string and op :: Operation
    by simp
  with lower show ?thesis
    by (cases "tbl_IsView table") (simp_all add: tableItem_def permits_def Let_def del: if_image_distrib)
qed

lemma ToLower_data_methods: "inj_on ToLower (set data_methods)"
proof -
  have "distinct (map ToLower data_methods)" by code_simp
  then show ?thesis by (simp only: distinct_map)
qed

lemma tableItem_permits:
  assumes "method \<in> set data_methods"
  shows "ToLower method \<in> fst ` set (tableItem cfg s t table) \<longleftrightarrow> permits cfg t table method"
proof -
  have "\<forall>m \<in> set data_methods. ToLower m \<noteq> ''options''" by code_simp
  with assms have "ToLower method \<noteq> ''options''" by blast
  moreover have "fst ` set (tableItem cfg s t table) = ToLower ` {m \<in> set data_methods. permits cfg t table m} \<union> {''options''}"
    unfolding set_map [symmetric] tableItem_methods by (simp only: set_append set_map set_filter) simp
  moreover have "ToLower method \<in> ToLower ` {m \<in> set data_methods. permits cfg t table m} \<longleftrightarrow> permits cfg t table method"
    using assms inj_onD [OF ToLower_data_methods] by blast
  ultimately show ?thesis by simp
qed

section \<open>Reading requests\<close>

text \<open>What a request that only reads may do to the world.\<close>

definition world_read :: "'db server \<Rightarrow> 'db world \<Rightarrow> 'db world \<Rightarrow> bool" where
  "world_read sv w w' \<longleftrightarrow> w_txs w' = w_txs w \<and> w_ops w' = w_ops w \<and> looks sv (w_db w) (w_db w')"

lemma world_read_refl [simp]: "world_read sv w w" "world_read sv w (w\<lparr>w_faults := fs\<rparr>)"
  by (simp_all add: world_read_def looks_def)

lemma on_result_world:
  assumes "\<exists>fs. snd (m w) = w\<lparr>w_faults := fs\<rparr>" "\<And>e s. snd (onError e s) = s" "\<And>x s. snd (f x s) = s"
  shows "world_read sv w (snd (on_result m onError f w))"
proof -
  obtain r w' where m: "m w = (r, w')" by fastforce
  then show ?thesis
    using assms by (cases r) (auto simp: on_result_def)
qed

lemma on_world_snd: "snd (on_world m w) = snd (m w)"
  by (simp add: on_world_def split: prod.split outcome.split)

lemma reply_world [simp]: "snd (reply_with status v w) = w" "snd (fail_with status code msg w) = w"
  by (simp_all add: reply_with_def fail_with_def ret_def)

lemma on_db_read: "looks sv (w_db w) (snd (h (w_db w))) \<Longrightarrow> world_read sv w (snd (on_db h w))"
  by (cases "h (w_db w)") (simp add: on_db_def world_read_def)

lemma dispatch_reads:
  assumes "registered r (rq_Method rq)" "rq_Method rq \<in> {''GET'', ''HEAD'', ''OPTIONS''}"
  shows "world_read (en_server en) w (snd (dispatch en r rq w))"
proof (cases r)
  case TableRoute
  then show ?thesis
    using assms(2) get_reader.reads head_reader.reads options_reader.reads
    by (auto simp: dispatch_def tableHandler_def intro!: on_db_read)
next
  case TxList
  then show ?thesis
    by (simp add: dispatch_def on_world_snd txList_def) (rule on_result_world [OF List_world], simp_all)
next
  case TxGet
  then show ?thesis
    by (simp add: dispatch_def on_world_snd txGet_def Let_def)
      (rule on_result_world [OF Get_world], simp_all split: option.split)
qed (use assms in \<open>auto simp: registered_def dispatch_def pure_reply_def\<close>)

lemma with_transactions_reads:
  assumes "rq_Method rq \<in> {''GET'', ''HEAD'', ''OPTIONS''}"
  shows "with_transactions en rq next w = next w"
proof -
  have "passes rq" using assms by (auto simp: passes_def)
  then show ?thesis by (simp add: with_transactions_def Middleware_def Let_def ret_def)
qed

section \<open>Properties\<close>

text \<open>A configuration that forbids to delete posts, and an environment around the log server.\<close>

definition demo_config :: Config where
  "demo_config =
     \<lparr>cfg_Server = \<lparr>srv_Host = ''0.0.0.0'', srv_Port = 8080\<rparr>,
      cfg_Database = \<lparr>db_Host = ''localhost'', db_Port = 5432, db_User = ''app'', db_Password = [], db_Name = ''app'',
        db_Schemas = [''blog''], db_SSLMode = ''disable'',
        db_Pool = \<lparr>pool_MaxOpen = 25, pool_MaxIdle = 5, pool_ConnMaxLife = 0, pool_ConnMaxIdle = 0\<rparr>\<rparr>,
      cfg_HotReload = \<lparr>hr_Enabled = False, hr_Interval = 0, hr_AutoNotifyTriggers = False\<rparr>,
      cfg_Permissions = [(''posts'', [''GET'', ''POST''])], cfg_RPC = [],
      cfg_Transactions = \<lparr>txc_Enabled = True, txc_TTL = 0, txc_CleanupInterval = 0\<rparr>,
      cfg_RateLimit = \<lparr>rl_Enabled = True, rl_RPS = ''1'', rl_Burst = 5, rl_PerTable = []\<rparr>, cfg_HiddenTables = []\<rparr>"

definition demo_env :: "((string \<times> val list) list, nat \<times> nat) env" where
  "demo_env =
     \<lparr>en_server = log_server,
      en_target = \<lparr>tg_exec = (\<lambda>q as db. Inr (db @ [(q, as)])), tg_queryId = (\<lambda>q as db. Inr (db @ [(q, as)], 1)),
        tg_row = (\<lambda>q v db. Inl ''no rows''), tg_rows = (\<lambda>q as db. Inr ([], [])),
        tg_num = (\<lambda>s. s), tg_time = Itoa, tg_range = (\<lambda>kvs. kvs)\<rparr>,
      en_bucket = five_per_second, en_store = blog_store, en_cfg = demo_config, en_schemas = [''blog''],
      en_uuid = ''t2'', en_ping = None, en_clientIP = ''10.0.0.1'', en_now = 9, en_duration = 1\<rparr>"

definition demo_state :: "((string \<times> val list) list, nat \<times> nat) state" where
  "demo_state =
     \<lparr>st_world = snd (Start ''t1'' ''blog'' \<lparr>w_txs = [], w_ops = [], w_nextOp = 1, w_db = [], w_now = 100, w_faults = []\<rparr>),
      st_limits = NewManager (cfg_RateLimit demo_config),
      st_metrics = \<lparr>met_Requests = [], met_Errors = [], met_Durations = [], met_Inflight = []\<rparr>\<rparr>"

text \<open>A commit of the transaction \<open>t1\<close> that names the transaction in its header too.\<close>

definition commit_request :: request where
  "commit_request = \<lparr>rq_Method = ''POST'', rq_Params = [(''schema'', ''blog''), (''txID'', ''t1'')], rq_RawQuery = [],
     rq_Header = [(HeaderTransaction, ''t1'')], rq_Body = Inr ''{}''\<rparr>"

text \<open>
  C38. What gets through the chain.  A request that the method guard refuses changes neither the
  database nor the staged operations and gets an error status.  With transactions enabled, a write
  that carries the transaction header leaves the target and the status of every transaction as
  they are, whatever route it takes: so a commit or a rollback sent with that header does not
  happen.
\<close>

theorem serve_protects:
  assumes "serve en r rq st = (rs, st')"
  shows "(methodGuard (en_store en) (en_cfg en) rq \<noteq> None \<longrightarrow> st_world st' = st_world st \<and> failed rs) \<and>
    (txc_Enabled (cfg_Transactions (en_cfg en)) \<and> \<not> passes rq \<longrightarrow>
       w_db (st_world st') = w_db (st_world st) \<and> w_txs (st_world st') = w_txs (st_world st))"
  using assms with_transactions_staged [of en rq "dispatch en r rq" "st_world st"]
  by (cases rule: serve_world) (auto simp: failed_def)

theorem serve_protects_witness:
  "st_world (snd (serve demo_env TableRoute (blog_request ''DELETE'' ''id=eq.7'' []) demo_state)) = st_world demo_state \<and>
   w_txs (st_world (snd (serve demo_env TxCommit commit_request demo_state))) = w_txs (st_world demo_state)"
proof -
  let ?delete = "serve demo_env TableRoute (blog_request ''DELETE'' ''id=eq.7'' []) demo_state"
  let ?commit = "serve demo_env TxCommit commit_request demo_state"
  have "\<not> passes commit_request" "txc_Enabled (cfg_Transactions (en_cfg demo_env))" by code_simp+
  moreover have "\<not> Option.is_none (methodGuard (en_store demo_env) (en_cfg demo_env) (blog_request ''DELETE'' ''id=eq.7'' []))"
    by code_simp
  ultimately show ?thesis
    using serve_protects [of demo_env TableRoute _ demo_state "fst ?delete" "snd ?delete"]
      serve_protects [of demo_env TxCommit _ demo_state "fst ?commit" "snd ?commit"]
    by (auto simp: is_none_simps Option.is_none_def)
qed

text \<open>
  C40. One permission, three places.  For a table of the store that is not hidden and each of the six
  methods that read or write rows: the CORS header lists the method, the OpenAPI document has it on
  the path of the table, and the method guard lets it through, all three or none.  OPTIONS is always
  in the header and in the document, whether the guard lets it through or not.
\<close>

theorem advertised_methods:
  assumes "store_ok store" "s \<noteq> []" "t \<noteq> []" "GetTable store s t = Some table" "\<not> IsTableHidden cfg t"
    and "CHR ''/'' \<notin> set s" "CHR ''/'' \<notin> set t"
    and "Param rq ''schema'' = s" "Param rq ''table'' = t"
    and "rq_Method rq \<in> set data_methods"
  shows "\<exists>item. map_of (spec_Paths (Generate store cfg)) (''/'' @ s @ ''/'' @ t) = Some item \<and>
    (rq_Method rq \<in> set (allowedMethods store cfg s t) \<longleftrightarrow> methodGuard store cfg rq = None) \<and>
    (ToLower (rq_Method rq) \<in> fst ` set item \<longleftrightarrow> methodGuard store cfg rq = None) \<and>
    ''OPTIONS'' \<in> set (allowedMethods store cfg s t) \<and> ''options'' \<in> fst ` set item"
proof -
  have other: "rq_Method rq \<noteq> ''OPTIONS''" using assms(10) by auto
  have "''options'' \<in> fst ` set (tableItem cfg s t table)"
    unfolding set_map [symmetric] tableItem_methods by simp
  then show ?thesis
    using Generate_path [OF assms(1,2,4-7)] methodGuard_permits [OF assms(4,3,8,9) other]
      tableItem_permits [OF assms(10)] assms(10) other
    by (simp only: allowedMethods_permits [OF assms(4)] set_filter list.set(2) insert_iff) simp
qed

theorem advertised_methods_witness:
  "''POST'' \<in> set (allowedMethods blog_store demo_config ''blog'' ''posts'') \<and>
   ''DELETE'' \<notin> set (allowedMethods blog_store demo_config ''blog'' ''posts'') \<and>
   methodGuard blog_store demo_config (blog_request ''DELETE'' [] []) \<noteq> None"
proof -
  have store: "store_ok blog_store"
    by (simp add: blog_store_def store_ok_def AddTable_def NewSchemaStore_def Let_def keys_ok_put2)
  have table: "GetTable blog_store ''blog'' ''posts'' = Some (the (GetTable blog_store ''blog'' ''posts''))" by code_simp
  have hidden: "\<not> IsTableHidden demo_config ''posts''" by code_simp
  have guard: "Option.is_none (methodGuard blog_store demo_config (blog_request ''POST'' [] []))"
    "\<not> Option.is_none (methodGuard blog_store demo_config (blog_request ''DELETE'' [] []))" by code_simp+
  have params: "Param (blog_request m [] []) ''schema'' = ''blog''" "Param (blog_request m [] []) ''table'' = ''posts''"
    "rq_Method (blog_request m [] []) = m" for m
    by (simp_all add: blog_request_def Param_def lookup_text_def)
  note at = advertised_methods [OF store _ _ table hidden]
  from at [of "blog_request ''POST'' [] []"] at [of "blog_request ''DELETE'' [] []"] guard show ?thesis
    unfolding params by (auto simp: Option.is_none_def)
qed

text \<open>
  C39. Reading methods do not write.  A GET, HEAD or OPTIONS request, on any route that is registered for
  it and however the chain and the handler end, leaves the transactions and the staged operations as
  they are, and the database too, or as one query leaves it whose text begins with SELECT; it never
  executes a statement.
\<close>

theorem safe_methods:
  assumes "serve en r rq st = (rs, st')" "registered r (rq_Method rq)"
    and "rq_Method rq \<in> {''GET'', ''HEAD'', ''OPTIONS''}"
  shows "world_read (en_server en) (st_world st) (st_world st')"
  using assms(1) dispatch_reads [OF assms(2,3), of en "st_world st"]
    with_transactions_reads [OF assms(3), of en "dispatch en r rq" "st_world st"]
  by (cases rule: serve_world) auto

theorem safe_methods_witness:
  "world_read log_server (st_world demo_state)
     (st_world (snd (serve demo_env TableRoute (blog_request ''GET'' ''id=eq.7'' []) demo_state)))"
proof -
  let ?rq = "blog_request ''GET'' ''id=eq.7'' []"
  have "registered TableRoute (rq_Method ?rq)" "rq_Method ?rq \<in> {''GET'', ''HEAD'', ''OPTIONS''}" by code_simp+
  from safe_methods [OF surjective_pairing this, of demo_env demo_state] show ?thesis
    using arg_cong [OF demo_env_def, of en_server] by (simp only: env.simps)
qed

end
