(* ===== verification/TxSpec.thy ===== *)
theory TxSpec
  imports TxLife
begin

text \<open>
  What deferred transactions are meant to be, as an abstract machine: a transaction has a status and
  the list of its effects; the target changes only by a commit, all at once.  The manager
  (\<^verbatim>\<open>internal/transaction/manager.go\<close>) refines it: without failures of the database each
  operation is the abstract one, and with failures it is the abstract one, nothing, or a gap
  that is stated for each operation.
\<close>

section \<open>Effects\<close>

text \<open>What a commit uses of an operation: its kind, its text, its parameters.\<close>

type_synonym effect = "string \<times> string \<times> val"

definition effect_of :: "Operation \<Rightarrow> effect" where
  "effect_of o' = (op_Operation o', op_SQLQuery o', op_Params o')"

definition run_effect :: "'db target \<Rightarrow> effect \<Rightarrow> 'db \<Rightarrow> 'db option" where
  "run_effect tg e db =
     (case e of (op, text, ps) \<Rightarrow>
        Option.bind (as_slice (read_json (tg_num tg) ps)) (\<lambda>params.
          if op = ''INSERT''
          then (case tg_queryId tg (text @ '' RETURNING id'') params db of Inr (db', _) \<Rightarrow> Some db' | Inl _ \<Rightarrow> None)
          else (case tg_exec tg text params db of Inr db' \<Rightarrow> Some db' | Inl _ \<Rightarrow> None)))"

fun run_effects :: "'db target \<Rightarrow> effect list \<Rightarrow> 'db \<Rightarrow> 'db option" where
  "run_effects tg [] db = Some db"
| "run_effects tg (e # es) db = Option.bind (run_effect tg e db) (run_effects tg es)"

lemma apply_op_effect: "apply_op tg op = run_effect tg (effect_of op)"
  by (rule ext) (simp add: apply_op_def run_effect_def effect_of_def)

lemma apply_ops_effects: "apply_ops tg ops db = run_effects tg (map effect_of ops) db"
proof (induction ops arbitrary: db)
  case (Cons op ops)
  then show ?case by (cases "run_effect tg (effect_of op) db") (simp_all add: apply_op_effect)
qed simp

section \<open>The abstract machine\<close>

record 'db deferred =
  ab_txs :: "string \<rightharpoonup> Status \<times> effect list"
  ab_db :: 'db

definition spec_start :: "string \<Rightarrow> 'db deferred \<Rightarrow> 'db deferred option" where
  "spec_start i a =
     (case ab_txs a i of None \<Rightarrow> Some (a\<lparr>ab_txs := (ab_txs a)(i \<mapsto> (Pending, []))\<rparr>) | Some _ \<Rightarrow> None)"

text \<open>The other operations want a pending transaction.\<close>

definition on_pending :: "string \<Rightarrow> (effect list \<Rightarrow> 'db deferred \<Rightarrow> 'db deferred option) \<Rightarrow> 'db deferred \<Rightarrow> 'db deferred option" where
  "on_pending i f a = (case ab_txs a i of Some (st, es) \<Rightarrow> if st = Pending then f es a else None | None \<Rightarrow> None)"

definition spec_stage :: "string \<Rightarrow> effect \<Rightarrow> 'db deferred \<Rightarrow> 'db deferred option" where
  "spec_stage i e = on_pending i (\<lambda>es a. Some (a\<lparr>ab_txs := (ab_txs a)(i \<mapsto> (Pending, es @ [e]))\<rparr>))"

definition spec_commit :: "'db target \<Rightarrow> string \<Rightarrow> 'db deferred \<Rightarrow> 'db deferred option" where
  "spec_commit tg i = on_pending i (\<lambda>es a.
     map_option (\<lambda>db. a\<lparr>ab_txs := (ab_txs a)(i \<mapsto> (Committed, es)), ab_db := db\<rparr>) (run_effects tg es (ab_db a)))"

definition spec_rollback :: "string \<Rightarrow> 'db deferred \<Rightarrow> 'db deferred option" where
  "spec_rollback i = on_pending i (\<lambda>es a. Some (a\<lparr>ab_txs := (ab_txs a)(i \<mapsto> (RolledBack, []))\<rparr>))"

section \<open>The abstraction\<close>

definition abs_tx :: "'db world \<Rightarrow> string \<Rightarrow> (Status \<times> effect list) option" where
  "abs_tx s i = map_option (\<lambda>t. (tx_Status t, map effect_of (ops_of i s))) (find_tx i s)"

definition abs_world :: "'db world \<Rightarrow> 'db deferred" where
  "abs_world s = \<lparr>ab_txs = abs_tx s, ab_db = w_db s\<rparr>"

lemma abs_world_sels [simp]: "ab_txs (abs_world s) = abs_tx s" "ab_db (abs_world s) = w_db s"
  by (simp_all add: abs_world_def)

lemma effects_staged: "map staged xs = map staged ys \<Longrightarrow> map effect_of xs = map effect_of ys"
proof -
  have "effect_of (staged o') = effect_of o'" for o' by (simp add: effect_of_def staged_def)
  then have "map effect_of zs = map effect_of (map staged zs)" for zs by simp
  then show "map staged xs = map staged ys \<Longrightarrow> map effect_of xs = map effect_of ys" by metis
qed

lemma abs_quiet: "quiet s s' \<Longrightarrow> abs_world s' = abs_world s"
proof -
  assume q: "quiet s s'"
  then have "map staged (ops_of i s') = map staged (ops_of i s)" for i
    by (simp add: staged_ops_of quiet_def)
  then have "map effect_of (ops_of i s') = map effect_of (ops_of i s)" for i
    by (rule effects_staged)
  then show ?thesis
    using q by (simp add: abs_world_def abs_tx_def fun_eq_iff quiet_sels)
qed

lemma pending_abs:
  "map_option tx_Status (find_tx i s) = Some Pending \<longleftrightarrow> abs_tx s i = Some (Pending, map effect_of (ops_of i s))"
  by (cases "find_tx i s") (auto simp: abs_tx_def)

lemma on_pending_Some:
  "on_pending i f (abs_world s) = Some a \<longleftrightarrow>
     map_option tx_Status (find_tx i s) = Some Pending \<and> f (map effect_of (ops_of i s)) (abs_world s) = Some a"
  by (cases "find_tx i s") (auto simp: on_pending_def abs_world_def abs_tx_def)

section \<open>The operations on the tables, abstractly\<close>

lemma abs_target: "abs_world (s\<lparr>w_db := d\<rparr>) = (abs_world s)\<lparr>ab_db := d\<rparr>"
  by (simp add: abs_world_def abs_tx_def fun_eq_iff find_tx_def ops_of_def)

lemma abs_mark:
  assumes "find_tx i s \<noteq> None"
  shows "abs_world (s\<lparr>w_txs := update_tx i (set_status st n) (w_txs s)\<rparr>) =
    (abs_world s)\<lparr>ab_txs := (ab_txs (abs_world s))(i \<mapsto> (st, map effect_of (ops_of i s)))\<rparr>"
proof -
  let ?s = "s\<lparr>w_txs := update_tx i (set_status st n) (w_txs s)\<rparr>"
  have "find_tx j ?s = map_option (\<lambda>t. if j = i then set_status st n t else t) (find_tx j s)" for j
    by (simp add: find_tx_def find_update_tx)
  moreover have "ops_of j ?s = ops_of j s" for j by (simp add: ops_of_def)
  ultimately have "abs_tx ?s j = ((abs_tx s)(i \<mapsto> (st, map effect_of (ops_of i s)))) j" for j
    using assms by (cases "find_tx j s") (auto simp: abs_tx_def)
  then show ?thesis by (simp add: abs_world_def fun_eq_iff)
qed

lemma abs_drop:
  assumes "map_option tx_Status (find_tx i s) = Some st"
  shows "abs_world (s\<lparr>w_ops := filter (\<lambda>o'. op_TransactionID o' \<noteq> i) (w_ops s)\<rparr>) =
    (abs_world s)\<lparr>ab_txs := (ab_txs (abs_world s))(i \<mapsto> (st, []))\<rparr>"
proof -
  let ?s = "s\<lparr>w_ops := filter (\<lambda>o'. op_TransactionID o' \<noteq> i) (w_ops s)\<rparr>"
  have "ops_of j ?s = ops_of j s" if "j \<noteq> i" for j using that by (rule ops_of_drop) simp
  moreover have "ops_of i ?s = []" by (simp add: ops_of_def)
  moreover have "find_tx j ?s = find_tx j s" for j by (simp add: find_tx_def)
  ultimately have "abs_tx ?s j = ((abs_tx s)(i \<mapsto> (st, []))) j" for j
    using assms by (cases "j = i") (auto simp: abs_tx_def)
  then show ?thesis by (simp add: abs_world_def fun_eq_iff)
qed

lemma abs_append:
  assumes "meta_ok s" "map_option tx_Status (find_tx i s) = Some Pending"
    and "op_ID x = w_nextOp s" "op_TransactionID x = i"
  shows "abs_world (s\<lparr>w_nextOp := w_nextOp s + 1, w_ops := w_ops s @ [x]\<rparr>) =
    (abs_world s)\<lparr>ab_txs := (ab_txs (abs_world s))(i \<mapsto> (Pending, map effect_of (ops_of i s) @ [effect_of x]))\<rparr>"
proof -
  let ?s = "s\<lparr>w_nextOp := w_nextOp s + 1, w_ops := w_ops s @ [x]\<rparr>"
  have "meta_ok ?s"
  proof -
    from assms(2) obtain t where "find_tx i s = Some t" by auto
    then have "i \<in> tx_ID ` set (w_txs s)" using find_txD by fastforce
    then show ?thesis
      using assms(1,3,4) by (simp add: meta_ok_def sorted_wrt_append ball_Un) fastforce
  qed
  then have "ops_of j ?s = ops_of j s @ (if j = i then [x] else [])" for j
    using assms(1,4) by (simp add: ops_of_order)
  moreover have "find_tx j ?s = find_tx j s" for j by (simp add: find_tx_def)
  ultimately have "abs_tx ?s j = ((abs_tx s)(i \<mapsto> (Pending, map effect_of (ops_of i s) @ [effect_of x]))) j" for j
    using assms(2) by (cases "j = i") (auto simp: abs_tx_def)
  then show ?thesis by (simp add: abs_world_def fun_eq_iff)
qed

lemma abs_begin:
  assumes "meta_ok s" "find_tx i s = None" "tx_ID t = i" "tx_Status t = Pending"
  shows "abs_world (s\<lparr>w_txs := w_txs s @ [t]\<rparr>) = (abs_world s)\<lparr>ab_txs := (ab_txs (abs_world s))(i \<mapsto> (Pending, []))\<rparr>"
proof -
  let ?s = "s\<lparr>w_txs := w_txs s @ [t]\<rparr>"
  have "i \<notin> tx_ID ` set (w_txs s)" using assms(2) by (auto simp: find_tx_def find_None_iff)
  then have "i \<notin> op_TransactionID ` set (w_ops s)" using assms(1) by (auto simp: meta_ok_def)
  then have "filter (\<lambda>o'. op_TransactionID o' = i) (w_ops s) = []" by (auto simp: filter_empty_conv)
  then have "ops_of i s = []" by (simp add: ops_of_def)
  moreover have "ops_of j ?s = ops_of j s" for j by (simp add: ops_of_def)
  moreover have "find_tx j ?s = (if j = i then Some t else find_tx j s)" for j
    using assms(2,3) by (cases "find_tx j s") (auto simp: find_tx_def find_append)
  ultimately have "abs_tx ?s j = ((abs_tx s)(i \<mapsto> (Pending, []))) j" for j
    using assms(4) by (simp add: abs_tx_def)
  then show ?thesis by (simp add: abs_world_def fun_eq_iff)
qed

section \<open>The contract of a refined operation\<close>

text \<open>
  \<open>spec\<close> is the operation of the abstract machine, \<open>gap\<close> what a failure may leave of it: the first
  argument is the state before, the second the state the operation was to reach.
\<close>

locale refined_op = manager_op run for run :: "('db, 'a) act" +
  fixes spec :: "'db deferred \<Rightarrow> 'db deferred option"
    and gap :: "'db deferred \<Rightarrow> 'db deferred \<Rightarrow> 'db deferred"
  assumes refines: "meta_ok s \<Longrightarrow> wp run
      (\<lambda>_ s'. spec (abs_world s) = Some (abs_world s'))
      (\<lambda>_ s'. abs_world s' = abs_world s \<or>
         (\<exists>a. spec (abs_world s) = Some a \<and> abs_world s' = gap (abs_world s) a)) s"
    and succeeds: "w_faults s = [] \<Longrightarrow> spec (abs_world s) \<noteq> None \<Longrightarrow> \<exists>x. fst (run s) = Ok x"
begin

lemma on_success: "meta_ok s \<Longrightarrow> run s = (Ok x, s') \<Longrightarrow> spec (abs_world s) = Some (abs_world s')"
  using refines [of s] by (simp add: wp_def)

lemma on_failure:
  "meta_ok s \<Longrightarrow> run s = (r, s') \<Longrightarrow> \<nexists>x. r = Ok x \<Longrightarrow>
   abs_world s' = abs_world s \<or> (\<exists>a. spec (abs_world s) = Some a \<and> abs_world s' = gap (abs_world s) a)"
  using wpD [OF refines] by blast

text \<open>Without failures the operation and the abstract one agree, also on when they refuse.\<close>

lemma calm_agrees:
  assumes "meta_ok s" "w_faults s = []" "run s = (r, s')"
  shows "case spec (abs_world s) of Some a \<Rightarrow> (\<exists>x. r = Ok x) \<and> abs_world s' = a
    | None \<Rightarrow> (\<nexists>x. r = Ok x) \<and> abs_world s' = abs_world s"
proof (cases "spec (abs_world s)")
  case None
  with on_success [OF assms(1)] on_failure [OF assms(1,3)] assms(3) show ?thesis by auto
next
  case (Some a)
  with succeeds [OF assms(2)] assms(3) obtain x where "r = Ok x" by auto
  with on_success [OF assms(1)] assms(3) Some show ?thesis by auto
qed

end

lemma wp_result: "wp m N (\<lambda>_ _. False) s \<Longrightarrow> \<exists>x. fst (m s) = Ok x"
  by (auto simp: wp_def split: prod.splits outcome.splits)

lemma find_pending: "map_option tx_Status (find_tx i s) = Some Pending \<Longrightarrow> find_tx i s \<noteq> None"
  by auto

lemma abs_tx_None: "ab_txs (abs_world s) i = None \<longleftrightarrow> find_tx i s = None"
  by (simp add: abs_world_def abs_tx_def)

lemma spec_start_Some:
  "spec_start i (abs_world s) = Some a \<longleftrightarrow>
     find_tx i s = None \<and> a = (abs_world s)\<lparr>ab_txs := (ab_txs (abs_world s))(i \<mapsto> (Pending, []))\<rparr>"
  using abs_tx_None [of s i] by (cases "find_tx i s") (auto simp: spec_start_def split: option.split)

lemma run_Start:
  assumes "meta_ok s"
  shows "wp (Start i schema) (\<lambda>_ s'. spec_start i (abs_world s) = Some (abs_world s'))
    (\<lambda>_ s'. abs_world s' = abs_world s) s"
proof (rule wp_mono [OF wp_Start], goal_cases)
  case (1 tx s')
  then have "abs_world s' = abs_world (s\<lparr>w_txs := w_txs s @ [tx]\<rparr>)" by (auto dest: abs_quiet)
  with 1 abs_begin [OF assms, of i tx] show ?case by (simp add: spec_start_Some)
qed (rule abs_quiet)

lemma run_Stage:
  assumes "meta_ok s"
  shows "wp (Stage tg i op table q ps before ids)
    (\<lambda>_ s'. spec_stage i (op, q, to_json (tg_time tg) ps) (abs_world s) = Some (abs_world s'))
    (\<lambda>_ s'. abs_world s' = abs_world s) s"
proof (rule wp_mono [OF wp_Stage], goal_cases)
  case (1 x s')
  let ?x = "new_op tg i op table q ps before ids s"
  have x: "op_ID ?x = w_nextOp s" "op_TransactionID ?x = i" "effect_of ?x = (op, q, to_json (tg_time tg) ps)"
    by (simp_all add: new_op_def effect_of_def)
  from 1 have "abs_world s' = abs_world (s\<lparr>w_nextOp := w_nextOp s + 1, w_ops := w_ops s @ [?x]\<rparr>)"
    by (auto dest: abs_quiet)
  with 1 abs_append [OF assms _ x(1,2)] x(3) show ?case by (simp add: spec_stage_def on_pending_Some)
qed (rule abs_quiet)

lemma spec_commit_Some:
  assumes "map_option tx_Status (find_tx i s) = Some Pending" "apply_ops tg (ops_of i s) (w_db s) = Some d"
  shows "spec_commit tg i (abs_world s) =
    Some ((abs_world s)\<lparr>ab_txs := (ab_txs (abs_world s))(i \<mapsto> (Committed, map effect_of (ops_of i s))), ab_db := d\<rparr>)"
  using assms by (simp add: spec_commit_def on_pending_Some apply_ops_effects)

lemma run_Commit:
  "wp (Commit tg i) (\<lambda>_ s'. spec_commit tg i (abs_world s) = Some (abs_world s'))
    (\<lambda>_ s'. abs_world s' = abs_world s \<or>
       (\<exists>a. spec_commit tg i (abs_world s) = Some a \<and> abs_world s' = (abs_world s)\<lparr>ab_db := ab_db a\<rparr>)) s"
proof (rule wp_mono [OF wp_Commit], goal_cases)
  case (1 x s')
  then obtain d where d: "map_option tx_Status (find_tx i s) = Some Pending" "apply_ops tg (ops_of i s) (w_db s) = Some d"
    and q: "quiet (s\<lparr>w_db := d, w_txs := committed_txs i (w_now s) (w_txs s)\<rparr>) s'" by auto
  have "find_tx i (s\<lparr>w_db := d\<rparr>) \<noteq> None" "ops_of i (s\<lparr>w_db := d\<rparr>) = ops_of i s"
    using find_pending [OF d(1)] by (simp_all add: find_tx_def ops_of_def)
  with abs_mark [OF this(1), of Committed "w_now s"] abs_quiet [OF q] spec_commit_Some [OF d]
  show ?case by (simp add: committed_txs_def abs_target)
next
  case (2 e s')
  then show ?case
    by (auto dest: abs_quiet simp: abs_target spec_commit_Some)
qed

lemma run_Rollback:
  "wp (Rollback i) (\<lambda>_ s'. spec_rollback i (abs_world s) = Some (abs_world s'))
    (\<lambda>_ s'. abs_world s' = abs_world s \<or> (\<exists>a. spec_rollback i (abs_world s) = Some a \<and>
       abs_world s' = (abs_world s)\<lparr>ab_txs := (ab_txs (abs_world s))(i \<mapsto> (Pending, []))\<rparr>)) s"
proof (rule wp_mono [OF wp_Rollback], goal_cases)
  case (1 x s')
  let ?s = "s\<lparr>w_ops := filter (\<lambda>o'. op_TransactionID o' \<noteq> i) (w_ops s)\<rparr>"
  have p: "map_option tx_Status (find_tx i s) = Some Pending" using 1 by simp
  then have found: "find_tx i ?s \<noteq> None" by (auto simp: find_tx_def)
  have "ops_of i ?s = []" by (simp add: ops_of_def)
  with 1 abs_mark [OF found, of RolledBack "w_now s"] abs_drop [OF p] show ?case
    by (auto dest!: abs_quiet simp: spec_rollback_def on_pending_Some)
next
  case (2 e s')
  then show ?case
    by (auto dest!: abs_quiet simp: abs_drop spec_rollback_def on_pending_Some)
qed

interpretation start_spec: refined_op "Start i schema" "spec_start i" "\<lambda>a _. a" for i schema
proof (unfold_locales, goal_cases)
  case (1 s)
  then show ?case by (rule wp_mono [OF run_Start]) auto
next
  case (2 s)
  then show ?case by (auto simp: spec_start_Some intro: wp_result [OF calm_Start])
qed

interpretation stage_spec: refined_op "Stage tg i op table q ps before ids" "spec_stage i (op, q, to_json (tg_time tg) ps)" "\<lambda>a _. a"
  for tg i op table q ps before ids
proof (unfold_locales, goal_cases)
  case (1 s)
  then show ?case by (rule wp_mono [OF run_Stage]) auto
next
  case (2 s)
  then have "map_option tx_Status (find_tx i s) = Some Pending" by (auto simp: spec_stage_def on_pending_Some)
  then show ?case by (rule wp_result [OF calm_Stage [OF 2(1)]])
qed

interpretation commit_spec: refined_op "Commit tg i" "spec_commit tg i" "\<lambda>a b. a\<lparr>ab_db := ab_db b\<rparr>" for tg i
proof (unfold_locales, goal_cases)
  case (1 s)
  show ?case by (rule run_Commit)
next
  case (2 s)
  then obtain a where "spec_commit tg i (abs_world s) = Some a" by auto
  then have p: "map_option tx_Status (find_tx i s) = Some Pending" "apply_ops tg (ops_of i s) (w_db s) \<noteq> None"
    by (auto simp: spec_commit_def on_pending_Some apply_ops_effects)
  then obtain d where "apply_ops tg (ops_of i s) (w_db s) = Some d" by auto
  then show ?case by (rule wp_result [OF calm_Commit [OF 2(1) p(1)]])
qed

interpretation rollback_spec: refined_op "Rollback i" "spec_rollback i" "\<lambda>a _. a\<lparr>ab_txs := (ab_txs a)(i \<mapsto> (Pending, []))\<rparr>" for i
proof (unfold_locales, goal_cases)
  case (1 s)
  show ?case by (rule run_Rollback)
next
  case (2 s)
  then have "map_option tx_Status (find_tx i s) = Some Pending" by (auto simp: spec_rollback_def on_pending_Some)
  then show ?case by (rule wp_result [OF calm_Rollback [OF 2(1)]])
qed

section \<open>Properties\<close>

definition succeeded :: "'a outcome \<Rightarrow> bool" where
  "succeeded r = (case r of Ok x \<Rightarrow> True | _ \<Rightarrow> False)"

lemma succeeded_iff: "succeeded r \<longleftrightarrow> (\<exists>x. r = Ok x)"
  by (cases r) (auto simp: succeeded_def)

text \<open>
  \<open>agrees\<close>: the operation succeeds exactly when the abstract one is possible, and reaches its state; if
  not, it changes nothing.  \<open>survives\<close>: what it can leave when calls to the database fail.
\<close>

definition agrees :: "('db, 'a) act \<Rightarrow> ('db deferred \<Rightarrow> 'db deferred option) \<Rightarrow> 'db world \<Rightarrow> bool" where
  "agrees run spec s \<longleftrightarrow>
     (case run s of (r, s') \<Rightarrow>
        (case spec (abs_world s) of
           Some a \<Rightarrow> succeeded r \<and> abs_world s' = a
         | None \<Rightarrow> \<not> succeeded r \<and> abs_world s' = abs_world s))"

definition survives ::
    "('db, 'a) act \<Rightarrow> ('db deferred \<Rightarrow> 'db deferred option) \<Rightarrow> ('db deferred \<Rightarrow> 'db deferred \<Rightarrow> 'db deferred) \<Rightarrow> 'db world \<Rightarrow> bool" where
  "survives run spec gap s \<longleftrightarrow>
     (case run s of (r, s') \<Rightarrow>
        if succeeded r then spec (abs_world s) = Some (abs_world s')
        else abs_world s' = abs_world s \<or>
          (\<exists>a. spec (abs_world s) = Some a \<and> abs_world s' = gap (abs_world s) a))"

lemma staged_world_ok: "meta_ok staged_world" "w_faults staged_world = []"
  by code_simp+

text \<open>
  C4. The manager refines its specification.  When no call to the database fails, starting, staging,
  committing and rolling back succeed exactly when the abstract machine allows it and have
  exactly its effect: a transaction gathers effects while it is pending, a commit runs them all on
  the target in the order of staging and marks it, a rollback drops them; a refused operation
  changes nothing.
\<close>

theorem manager_refines_spec:
  assumes "meta_ok s" "w_faults s = []"
  shows "agrees (Start i schema) (spec_start i) s \<and>
    agrees (Stage tg i op table q ps before ids) (spec_stage i (op, q, to_json (tg_time tg) ps)) s \<and>
    agrees (Commit tg i) (spec_commit tg i) s \<and> agrees (Rollback i) (spec_rollback i) s"
  using start_spec.calm_agrees [OF assms] stage_spec.calm_agrees [OF assms] commit_spec.calm_agrees [OF assms]
    rollback_spec.calm_agrees [OF assms]
  unfolding agrees_def succeeded_iff by (auto split: prod.split)

theorem manager_refines_spec_witness:
  "abs_tx (snd (Commit log_target ''t1'' staged_world)) ''t1'' =
   Some (Committed, [(''UPDATE'', ''UPDATE public.a SET n = n + 1'', VNil)])"
proof -
  let ?spec = "spec_commit log_target ''t1'' (abs_world staged_world)"
  have "\<not> Option.is_none ?spec" by code_simp
  then obtain a where a: "?spec = Some a" by (auto simp: Option.is_none_def)
  have "ab_txs (the ?spec) ''t1'' = Some (Committed, [(''UPDATE'', ''UPDATE public.a SET n = n + 1'', VNil)])" by code_simp
  moreover have "agrees (Commit log_target ''t1'') (spec_commit log_target ''t1'') staged_world"
    using manager_refines_spec [OF staged_world_ok] by blast
  ultimately show ?thesis
    using a by (auto simp: agrees_def split: prod.splits)
qed



end
