(* ===== verification/TxRace.thy ===== *)
theory TxRace
  imports TxSpec
begin

text \<open>
  Operations of the manager that overlap (\<^verbatim>\<open>internal/transaction/manager.go\<close>).  Staging, committing and
  both rollbacks first read the status of the transaction and then do their work without looking at
  it again; here other operations may come between the two.  Each of the two parts is one step: what
  PostgreSQL's locks do inside them is not modelled.
\<close>

section \<open>Jobs\<close>

text \<open>An operation between its check and its work.\<close>

datatype job =
    JStage string string string string val "val option" "val option"
  | JCommit string
  | JRollback string
  | JUndo string

fun job_id :: "job \<Rightarrow> string" where
  "job_id (JStage i op table q ps before ids) = i"
| "job_id (JCommit i) = i"
| "job_id (JRollback i) = i"
| "job_id (JUndo i) = i"

fun job_needs :: "job \<Rightarrow> Status" where
  "job_needs (JUndo i) = Committed"
| "job_needs j = Pending"

definition job_check :: "job \<Rightarrow> Transaction option \<Rightarrow> bool" where
  "job_check j tx \<longleftrightarrow> map_option tx_Status tx = Some (job_needs j)"

fun job_body :: "'db target \<Rightarrow> job \<Rightarrow> ('db, unit) act" where
  "job_body tg (JStage i op table q ps before ids) = stage_body tg i op table q ps before ids"
| "job_body tg (JCommit i) = commit_body tg i"
| "job_body tg (JRollback i) = rollback_body i"
| "job_body tg (JUndo i) = undo_body tg i"

text \<open>The operation as a whole.\<close>

fun job_whole :: "'db target \<Rightarrow> job \<Rightarrow> ('db, unit) act" where
  "job_whole tg (JStage i op table q ps before ids) = Stage tg i op table q ps before ids"
| "job_whole tg (JCommit i) = Commit tg i"
| "job_whole tg (JRollback i) = Rollback i"
| "job_whole tg (JUndo i) = RollbackPostCommit tg i"

fun job_error :: "job \<Rightarrow> string" where
  "job_error (JUndo i) = ''transaction not found or not committed''"
| "job_error j = not_pending"

lemma job_whole_parts:
  "job_whole tg j = bindM (Get (job_id j)) (\<lambda>tx. if \<not> job_check j tx then throw (job_error j) else job_body tg j)"
  by (cases j)
    (simp_all add: Stage_def Commit_def Rollback_def RollbackPostCommit_def job_check_def is_pending_status
      is_committed_status cong: if_cong)

section \<open>Interleavings\<close>

text \<open>The world and the jobs whose check has succeeded and whose work is still to be done.\<close>

inductive race :: "'db target \<Rightarrow> 'db world \<times> job list \<Rightarrow> 'db world \<times> job list \<Rightarrow> bool" for tg where
  race_check: "Get (job_id j) s = (Ok tx, s') \<Longrightarrow> job_check j tx \<Longrightarrow> race tg (s, js) (s', j # js)"
| race_refuse: "race tg (s, js) (snd (Get i s), js)"
| race_work: "race tg (s, js1 @ j # js2) (snd (job_body tg j s), js1 @ js2)"
| race_Start: "race tg (s, js) (snd (Start uuid schema s), js)"
| race_Cleanup: "race tg (s, js) (snd (cleanup ttl s), js)"
| race_Clock: "race tg (s, js) (s\<lparr>w_now := now\<rparr>, js)"
| race_Faults: "race tg (s, js) (s\<lparr>w_faults := fs\<rparr>, js)"
| race_Others: "race tg (s, js) (s\<lparr>w_db := db\<rparr>, js)"

inductive_cases race_elim: "race tg (s, js) (s', js')"

text \<open>
  Clients that use a transaction one operation at a time, and a cleanup that leaves alone what is in
  use: no two jobs on the same transaction, and the transaction of a job is there.
\<close>

definition exclusive :: "'db target \<Rightarrow> 'db world \<times> job list \<Rightarrow> 'db world \<times> job list \<Rightarrow> bool" where
  "exclusive tg x y \<longleftrightarrow> race tg x y \<and> distinct (map job_id (snd y)) \<and>
     (\<forall>j \<in> set (snd y). find_tx (job_id j) (fst y) \<noteq> None)"

section \<open>A check that still holds\<close>

lemma Get_status:
  assumes "Get i s = (Ok tx, s')"
  shows "map_option tx_Status tx = map_option tx_Status (find_tx i s)"
proof -
  have "wp (Get i) (\<lambda>tx s'. map_option tx_Status tx = map_option tx_Status (find_tx i s)) (\<lambda>_ _. True) s"
    by (rule wp_Get) auto
  with assms show ?thesis by (simp add: wp_def)
qed

text \<open>Two calls that succeed, and then the script as it is.\<close>

definition primed :: "'db world \<Rightarrow> 'db world" where
  "primed s = s\<lparr>w_faults := None # None # w_faults s\<rparr>"

lemma Get_primed: "find_tx i s = Some t \<Longrightarrow> \<exists>t'. Get i (primed s) = (Ok (Some t'), s) \<and> tx_Status t' = tx_Status t"
  by (auto simp: Get_def thenM_def bindM_def wrap_def gets_def attempt_def ret_def db_call_def primed_def find_tx_def)

lemma body_is_whole:
  assumes "map_option tx_Status (find_tx (job_id j) s) = Some (job_needs j)"
  shows "job_body tg j s = job_whole tg j (primed s)"
proof -
  from assms obtain t where "find_tx (job_id j) s = Some t" "tx_Status t = job_needs j" by auto
  with Get_primed obtain t' where g: "Get (job_id j) (primed s) = (Ok (Some t'), s)" "tx_Status t' = job_needs j"
    by metis
  then show ?thesis by (simp add: job_whole_parts bindM_def job_check_def)
qed

text \<open>A job changes no transaction but its own.\<close>

lemma quiet_find: "quiet s s' \<Longrightarrow> find_tx k s' = find_tx k s"
  by (simp add: quiet_def find_tx_def)

lemma find_marked:
  "k \<noteq> i \<Longrightarrow> find_tx k (s\<lparr>w_txs := update_tx i (set_status st n) ts\<rparr>) = find (\<lambda>t. tx_ID t = k) ts"
  by (simp add: find_tx_def find_update_tx) (cases "find (\<lambda>t. tx_ID t = k) ts", auto)

lemma whole_keeps_others:
  assumes "k \<noteq> job_id j"
  shows "find_tx k (snd (job_whole tg j s)) = find_tx k s"
proof -
  have upd: "find_tx k (u\<lparr>w_txs := update_tx (job_id j) (set_status st n) (w_txs s)\<rparr>) = find_tx k s" for u :: "'a world" and st n
    using find_marked [OF assms] by (simp add: find_tx_def)
  have "wp (job_whole tg j) (\<lambda>_ s'. find_tx k s' = find_tx k s) (\<lambda>_ s'. find_tx k s' = find_tx k s) s"
  proof (cases j)
    case (JStage i op table q ps before ids)
    show ?thesis
      unfolding JStage job_whole.simps
      by (rule wp_mono [OF wp_Stage]) (auto dest!: quiet_find [where k = k] simp: find_tx_def)
  next
    case (JCommit i)
    show ?thesis
      unfolding JCommit job_whole.simps
      by (rule wp_mono [OF wp_Commit])
        (use upd JCommit in \<open>auto dest!: quiet_find [where k = k] simp: committed_txs_def, auto simp: find_tx_def\<close>)
  next
    case (JRollback i)
    show ?thesis
      unfolding JRollback job_whole.simps
      by (rule wp_mono [OF wp_Rollback]) (use upd JRollback in \<open>auto dest!: quiet_find [where k = k], auto simp: find_tx_def\<close>)
  next
    case (JUndo i)
    show ?thesis
      unfolding JUndo job_whole.simps
      by (rule wp_mono [OF wp_RollbackPostCommit]) (use upd JUndo in \<open>auto dest!: quiet_find [where k = k], auto simp: find_tx_def\<close>)
  qed
  then show ?thesis by (cases "job_whole tg j s"; cases "fst (job_whole tg j s)") (auto simp: wp_def)
qed

section \<open>Exclusive interleavings are histories\<close>

definition jobs_ok :: "'db world \<Rightarrow> job list \<Rightarrow> bool" where
  "jobs_ok s js \<longleftrightarrow> meta_ok s \<and> distinct (map job_id js) \<and>
     (\<forall>j \<in> set js. map_option tx_Status (find_tx (job_id j) s) = Some (job_needs j))"

lemma step_whole: "step tg s (snd (job_whole tg j s))"
  by (cases j) (simp_all add: step_Stage step_Commit step_Rollback step_Undo)

lemma find_faults [simp]: "find_tx k (s\<lparr>w_faults := fs\<rparr>) = find_tx k s"
  by (simp add: find_tx_def)

lemma Start_keeps:
  assumes "find_tx k s = Some t"
  shows "find_tx k (snd (Start uuid schema s)) = Some t"
proof -
  have "wp (Start uuid schema) (\<lambda>_ s'. find_tx k s' = Some t) (\<lambda>_ s'. find_tx k s' = Some t) s"
    by (rule wp_mono [OF wp_Start])
      (use assms in \<open>auto dest!: quiet_find [where k = k] simp: find_tx_def find_append\<close>)
  then show ?thesis by (cases "Start uuid schema s"; cases "fst (Start uuid schema s)") (auto simp: wp_def)
qed

lemma find_sub:
  assumes "distinct (map tx_ID ts)" "find (\<lambda>t. tx_ID t = k) (filter P ts) = Some t"
  shows "find (\<lambda>t. tx_ID t = k) ts = Some t"
  using assms
proof (induction ts)
  case (Cons a ts)
  show ?case
  proof (cases "P a \<and> tx_ID a = k")
    case False
    then have t: "find (\<lambda>t. tx_ID t = k) (filter P ts) = Some t" using Cons.prems(2) by (auto split: if_splits)
    then have "t \<in> set ts" "tx_ID t = k" by (auto simp: find_Some_iff dest: nth_mem)
    then have "tx_ID a \<noteq> k" using Cons.prems(1) by force
    with Cons t show ?thesis by simp
  qed (use Cons.prems(2) in auto)
qed simp

lemma cleanup_keeps:
  assumes "meta_ok s" "find_tx k (snd (cleanup ttl s)) = Some t"
  shows "find_tx k s = Some t"
proof -
  have "wp (cleanup ttl) (\<lambda>_ s'. find_tx k s' = Some t \<longrightarrow> find_tx k s = Some t)
      (\<lambda>_ s'. find_tx k s' = Some t \<longrightarrow> find_tx k s = Some t) s"
    by (rule wp_mono [OF wp_cleanup])
      (use assms(1) in \<open>auto dest!: quiet_find [where k = k] simp: find_tx_def meta_ok_def intro: find_sub\<close>)
  then show ?thesis
    using assms(2) by (cases "cleanup ttl s"; cases "fst (cleanup ttl s)") (auto simp: wp_def)
qed

lemma jobs_okI:
  assumes "jobs_ok s js" "(step tg)\<^sup>*\<^sup>* s s'" "distinct (map job_id js')" "set js' \<subseteq> set js"
    and "\<And>j. j \<in> set js' \<Longrightarrow> map_option tx_Status (find_tx (job_id j) s') = map_option tx_Status (find_tx (job_id j) s)"
  shows "jobs_ok s' js'"
  using assms reachable_meta [OF assms(2)] by (auto simp: jobs_ok_def)

lemma exclusive_step:
  assumes "exclusive tg (s, js) (s', js')" "jobs_ok s js"
  shows "(step tg)\<^sup>*\<^sup>* s s' \<and> jobs_ok s' js'"
proof -
  have r: "race tg (s, js) (s', js')" and d: "distinct (map job_id js')"
    and there: "\<forall>j \<in> set js'. find_tx (job_id j) s' \<noteq> None"
    using assms(1) by (simp_all add: exclusive_def)
  show ?thesis
  proof (rule race_elim [OF r], goal_cases)
    case (1 j tx)
    obtain fs where s': "s' = s\<lparr>w_faults := fs\<rparr>" using Get_world [of "job_id j" s] 1(2) by auto
    have "(step tg)\<^sup>*\<^sup>* s s'" unfolding s' by (rule r_into_rtranclp) (rule step_Faults)
    moreover have "map_option tx_Status (find_tx (job_id j) s') = Some (job_needs j)"
      using Get_status [OF 1(2)] 1(3) by (simp add: job_check_def s')
    ultimately show ?thesis
      using jobs_okI [OF assms(2), of tg s' js] d 1(1) s' by (auto simp: jobs_ok_def)
  next
    case (2 i)
    obtain fs where s': "s' = s\<lparr>w_faults := fs\<rparr>" using Get_world [of i s] 2 by auto
    have run: "(step tg)\<^sup>*\<^sup>* s s'" unfolding s' by (rule r_into_rtranclp) (rule step_Faults)
    have "find_tx k s' = find_tx k s" for k by (simp add: s')
    then show ?thesis using jobs_okI [OF assms(2) run d] run 2(2) by simp
  next
    case (3 js1 j js2)
    have st: "map_option tx_Status (find_tx (job_id j) s) = Some (job_needs j)"
      and other: "k \<in> set js' \<Longrightarrow> job_id k \<noteq> job_id j" for k
      using assms(2) 3(1,3) by (auto simp: jobs_ok_def rev_image_eqI)
    have s': "s' = snd (job_whole tg j (primed s))" using body_is_whole [OF st, of tg] 3(2) by simp
    have "step tg s (primed s)" unfolding primed_def by (rule step_Faults)
    then have run: "(step tg)\<^sup>*\<^sup>* s s'" using step_whole [of tg "primed s" j] unfolding s' by (metis rtranclp.simps)
    have "find_tx (job_id k) s' = find_tx (job_id k) s" if "k \<in> set js'" for k
      using whole_keeps_others [OF other [OF that], of tg "primed s"] by (simp add: s' primed_def)
    then show ?thesis using jobs_okI [OF assms(2) run d] 3(1,3) run by auto
  next
    case (4 uuid schema)
    have run: "(step tg)\<^sup>*\<^sup>* s s'" unfolding 4 by (rule r_into_rtranclp) (rule step_Start)
    have "find_tx (job_id j) s' = find_tx (job_id j) s" if "j \<in> set js'" for j
    proof -
      from that assms(2) 4 obtain t where "find_tx (job_id j) s = Some t" by (auto simp: jobs_ok_def)
      with Start_keeps [OF this] 4 show ?thesis by simp
    qed
    then show ?thesis using jobs_okI [OF assms(2) run d] 4 run by auto
  next
    case (5 ttl)
    have run: "(step tg)\<^sup>*\<^sup>* s s'" unfolding 5 by (rule r_into_rtranclp) (rule step_Cleanup)
    have ok: "meta_ok s" using assms(2) by (simp add: jobs_ok_def)
    have "find_tx (job_id j) s' = find_tx (job_id j) s" if "j \<in> set js'" for j
    proof -
      from that there obtain t where "find_tx (job_id j) s' = Some t" by auto
      with cleanup_keeps [OF ok, of "job_id j"] 5 show ?thesis by simp
    qed
    then show ?thesis using jobs_okI [OF assms(2) run d] 5 run by auto
  next
    case (6 now)
    have run: "(step tg)\<^sup>*\<^sup>* s s'" unfolding 6 by (rule r_into_rtranclp) (rule step_Clock)
    then show ?thesis using jobs_okI [OF assms(2) run d] 6 by (simp add: find_tx_def)
  next
    case (7 fs)
    have run: "(step tg)\<^sup>*\<^sup>* s s'" unfolding 7 by (rule r_into_rtranclp) (rule step_Faults)
    then show ?thesis using jobs_okI [OF assms(2) run d] 7 by simp
  next
    case (8 db)
    have run: "(step tg)\<^sup>*\<^sup>* s s'" unfolding 8 by (rule r_into_rtranclp) (rule step_Others)
    then show ?thesis using jobs_okI [OF assms(2) run d] 8 by (simp add: find_tx_def)
  qed
qed

lemma exclusive_run:
  "(exclusive tg)\<^sup>*\<^sup>* x y \<Longrightarrow> jobs_ok (fst x) (snd x) \<Longrightarrow> (step tg)\<^sup>*\<^sup>* (fst x) (fst y) \<and> jobs_ok (fst y) (snd y)"
proof (induction rule: rtranclp_induct)
  case (step y z)
  then show ?case
    using exclusive_step [of tg "fst y" "snd y" "fst z" "snd z"] by (auto intro: rtranclp_trans)
qed simp

section \<open>Work without a check\<close>

lemma wp_commit_body:
  "wp (commit_body tg i)
     (\<lambda>_ s'. \<exists>db'. apply_ops tg (ops_of i s) (w_db s) = Some db' \<and>
        quiet (s\<lparr>w_db := db', w_txs := committed_txs i (w_now s) (w_txs s)\<rparr>) s')
     (\<lambda>_ _. True) s"
  unfolding commit_body_def
  by (intro wp_intros) (simp_all add: committed_lock, simp_all add: quiet_def ops_of_def)

lemma wp_rollback_body:
  "wp (rollback_body i)
     (\<lambda>_ s'. quiet (s\<lparr>w_ops := filter (\<lambda>o'. op_TransactionID o' \<noteq> i) (w_ops s),
        w_txs := update_tx i (set_status RolledBack (w_now s)) (w_txs s)\<rparr>) s')
     (\<lambda>_ _. True) s"
  unfolding rollback_body_def by (intro wp_intros) (simp_all add: quiet_def)

lemma commit_body_calm:
  assumes "w_faults s = []" "apply_ops tg (ops_of i s) (w_db s) = Some d"
  shows "w_faults (snd (commit_body tg i s)) = [] \<and>
    quiet (s\<lparr>w_db := d, w_txs := committed_txs i (w_now s) (w_txs s)\<rparr>) (snd (commit_body tg i s))"
  using calm_commit_body [OF assms] wp_commit_body [of tg i s] assms(2)
  by (auto simp: wp_def split: prod.splits outcome.splits)

lemma rollback_body_calm:
  assumes "w_faults s = []"
  shows "quiet (s\<lparr>w_ops := filter (\<lambda>o'. op_TransactionID o' \<noteq> i) (w_ops s),
    w_txs := update_tx i (set_status RolledBack (w_now s)) (w_txs s)\<rparr>) (snd (rollback_body i s))"
  using calm_rollback_body [OF assms, of i] wp_rollback_body [of i s]
  by (auto simp: wp_def split: prod.splits outcome.splits)

lemma quiet_effects: "quiet s s' \<Longrightarrow> map effect_of (ops_of i s') = map effect_of (ops_of i s)"
  by (rule effects_staged) (simp add: staged_ops_of quiet_def)

lemma quiet_dropped:
  assumes "quiet (s\<lparr>w_ops := filter (\<lambda>o'. op_TransactionID o' \<noteq> i) (w_ops s), w_txs := ts\<rparr>) s'"
  shows "ops_of i s' = []"
  using quiet_effects [OF assms, of i] by (simp add: ops_of_def)

text \<open>Two checks before either job does its work.\<close>

lemma race_both:
  assumes "w_faults s = []" "find_tx i s = Some t" "tx_Status t = Pending"
    and "job_id j = i" "job_id k = i" "job_needs j = Pending" "job_needs k = Pending"
  shows "(race tg)\<^sup>*\<^sup>* (s, []) (snd (job_body tg k (snd (job_body tg j s))), [])"
proof -
  have g: "\<exists>t'. Get i s = (Ok (Some t'), s) \<and> tx_Status t' = Pending"
    using calm_Get [OF assms(1), of i] assms(2,3) by (auto simp: wp_def split: prod.splits outcome.splits)
  then obtain t' where get: "Get i s = (Ok (Some t'), s)" "tx_Status t' = Pending" by blast
  have "race tg (s, []) (s, [k])" "race tg (s, [k]) (s, [j, k])"
    using get assms(4-7) by (auto intro!: race_check simp: job_check_def)
  moreover have "race tg (s, [j, k]) (snd (job_body tg j s), [k])"
    using race_work [of tg s "[]" j "[k]"] by simp
  moreover have "race tg (snd (job_body tg j s), [k]) (snd (job_body tg k (snd (job_body tg j s))), [])"
    using race_work [of tg _ "[]" k "[]"] by simp
  ultimately show ?thesis by (meson converse_rtranclp_into_rtranclp rtranclp.rtrancl_refl)
qed

section \<open>Properties\<close>





end
