(* ===== verification/Program.thy ===== *)
theory Program
  imports Startup Router TxRace
begin

text \<open>
  The running program: what the parts do together.  Requests, the goroutines of \<^verbatim>\<open>main\<close> and the event
  streams are steps of one relation over the store, the state behind the requests, and the streams.

  A request other than a stream is one step here; how requests to the manager overlap is in \<open>TxRace\<close>,
  how streams, broadcasts and departures interleave is in \<open>Hub\<close>.
\<close>

section \<open>A request is a history of the manager\<close>

definition traced :: "'db target \<Rightarrow> ('db, 'a) act \<Rightarrow> bool" where
  "traced tg m \<longleftrightarrow> (\<forall>s. (step tg)\<^sup>*\<^sup>* s (snd (m s)))"

named_theorems traced_intros \<open>actions that are histories of the manager\<close>

lemma tracedD: "traced tg m \<Longrightarrow> m s = (r, s') \<Longrightarrow> (step tg)\<^sup>*\<^sup>* s s'"
  unfolding traced_def by (metis snd_conv)

lemma tracedR: "traced tg m \<Longrightarrow> (step tg)\<^sup>*\<^sup>* s (snd (m s))"
  by (simp add: traced_def)

lemma traced_step: "(\<And>s. step tg s (snd (m s))) \<Longrightarrow> traced tg m"
  by (auto simp: traced_def)

lemma traced_pure [traced_intros]:
  "traced tg (ret x)" "traced tg (throw e)" "traced tg (lift v)" "traced tg (gets f)"
  by (simp_all add: traced_def ret_def throw_def gets_def lift_def split: sum.split)

lemma traced_db_call [traced_intros]: "traced tg db_call"
proof (rule traced_step)
  fix s :: "'a world"
  have "\<exists>fs. snd (db_call s) = s\<lparr>w_faults := fs\<rparr>"
  proof (cases "w_faults s")
    case Nil
    then show ?thesis by (intro exI [of _ "[]"]) (simp add: db_call_def)
  qed (auto simp: db_call_def split: option.split)
  then show "step tg s (snd (db_call s))" by (auto intro: step_Faults)
qed

lemma traced_on_result [traced_intros]:
  fixes m :: "('db, 'a) act"
  assumes "traced tg m" "\<And>e. traced tg (onError e)" "\<And>x. traced tg (f x)"
  shows "traced tg (on_result m onError f)"
  unfolding traced_def
proof
  fix s :: "'db world"
  obtain r s1 where m: "m s = (r, s1)" by fastforce
  from tracedD [OF assms(1) m] assms(2,3) show "(step tg)\<^sup>*\<^sup>* s (snd (on_result m onError f s))"
    by (cases r) (auto simp: on_result_def m traced_def intro: rtranclp_trans)
qed

lemma traced_bindM [traced_intros]: "traced tg m \<Longrightarrow> (\<And>x. traced tg (f x)) \<Longrightarrow> traced tg (bindM m f)"
  unfolding bindM_on_result by (intro traced_intros)

lemma traced_thenM [traced_intros]: "traced tg m \<Longrightarrow> traced tg k \<Longrightarrow> traced tg (thenM m k)"
  unfolding thenM_def by (intro traced_intros)

lemma traced_wrap [traced_intros]: "traced tg m \<Longrightarrow> traced tg (wrap ctx m)"
proof -
  have "snd (wrap ctx m s) = snd (m s)" for s by (simp add: wrap_def split: prod.split outcome.split)
  then show "traced tg m \<Longrightarrow> traced tg (wrap ctx m)" by (simp add: traced_def)
qed

lemma traced_cases [traced_intros]:
  "traced tg m \<Longrightarrow> traced tg k \<Longrightarrow> traced tg (if b then m else k)"
  "(\<And>a b. traced tg (g a b)) \<Longrightarrow> traced tg (case x of (a, b) \<Rightarrow> g a b)"
  "traced tg m \<Longrightarrow> (\<And>y. traced tg (f y)) \<Longrightarrow> traced tg (case v of None \<Rightarrow> m | Some y \<Rightarrow> f y)"
  "(\<And>e. traced tg (h e)) \<Longrightarrow> (\<And>y. traced tg (k' y)) \<Longrightarrow> traced tg (case u of Inl e \<Rightarrow> h e | Inr y \<Rightarrow> k' y)"
  by (simp_all split: prod.split option.split sum.split)

lemma traced_manager [traced_intros]:
  "traced tg (Start uuid schema)" "traced tg (Stage tg i op table q vals before ids)" "traced tg (Commit tg i)"
  "traced tg (Rollback i)" "traced tg (RollbackPostCommit tg i)" "traced tg (cleanup ttl)"
  by (intro traced_step step.intros)+

lemma step_faults: "\<exists>fs. s' = s\<lparr>w_faults := fs\<rparr> \<Longrightarrow> step tg s s'"
  by (auto intro: step_Faults)

lemma traced_reads [traced_intros]: "traced tg (Get i)" "traced tg (List schema)"
  by (rule traced_step, rule step_faults, rule Get_world) (rule traced_step, rule step_faults, rule List_world)

lemma traced_CaptureSnapshot [traced_intros]: "traced tg (CaptureSnapshot tg schema table whereClause ps)"
  unfolding CaptureSnapshot_def Let_def by (intro traced_intros)

lemma traced_stageInserts: "traced tg (stageInserts tg i table items)"
  by (induction items) (auto simp: stage_error_def Let_def intro!: traced_intros split: prod.split)

lemma traced_stageUpdate: "traced tg (stageUpdate tg i rq items)"
  unfolding stageUpdate_def stage_error_def snapshot_error_def Let_def
  by (cases items) (auto intro!: traced_intros split: prod.split)

lemma traced_Middleware: "traced tg (Middleware tg js rq)"
  unfolding Middleware_def Let_def stageRequest_def stageDelete_def stage_error_def snapshot_error_def
  by (intro traced_intros traced_stageInserts traced_stageUpdate)

lemma traced_routes:
  "traced tg (txStart uuid rq)" "traced tg (txList rq)" "traced tg (txGet rq)" "traced tg (txCommit tg rq)"
  "traced tg (txRollback tg rq)"
  unfolding txStart_def txList_def txGet_def txCommit_def txRollback_def fail_with_def reply_with_def Let_def
  by (intro traced_intros)+

lemma dispatch_traced: "(step (en_target en))\<^sup>*\<^sup>* w (snd (dispatch en r rq w))"
proof -
  have db: "(step tg)\<^sup>*\<^sup>* w (snd (on_db h w))" for h and tg :: "'a target"
    by (cases "h (w_db w)") (auto simp: on_db_def intro: step_Others)
  show ?thesis
    by (cases r) (simp_all add: dispatch_def db on_world_snd tracedR traced_routes pure_reply_def)
qed

lemma with_transactions_traced:
  assumes "\<And>w. (step (en_target en))\<^sup>*\<^sup>* w (snd (next w))"
  shows "(step (en_target en))\<^sup>*\<^sup>* w (snd (with_transactions en rq next w))"
proof -
  obtain r w' where m: "Middleware (en_target en) (sv_js (en_server en)) rq w = (r, w')" by fastforce
  from tracedD [OF traced_Middleware m] show ?thesis
    using assms [of w] rtranclp_trans [OF _ assms [of w']]
    by (auto simp: with_transactions_def m split: outcome.split option.split)
qed

lemma serve_traced: "(step (en_target en))\<^sup>*\<^sup>* (st_world st) (st_world (snd (serve en r rq st)))"
proof -
  obtain rs st' where s: "serve en r rq st = (rs, st')" by fastforce
  have d: "(step (en_target en))\<^sup>*\<^sup>* (st_world st) (snd (with_transactions en rq (dispatch en r rq) (st_world st)))"
    by (rule with_transactions_traced) (rule dispatch_traced)
  from s show ?thesis by (cases rule: serve_world) (simp_all add: s d)
qed

section \<open>The relation\<close>

text \<open>
  \<open>pg_cats\<close> and \<open>pg_reloaded\<close> are history: the catalogues that were read last, at the start or by a
  refresh, and whether there was a refresh.
\<close>

record ('db, 'b) program =
  pg_store :: SchemaStore
  pg_cats :: "string \<Rightarrow> catalog"
  pg_reloaded :: bool
  pg_state :: "('db, 'b) state"
  pg_streams :: system

definition no_metrics :: Metrics where
  "no_metrics = \<lparr>met_Requests = [], met_Errors = [], met_Durations = [], met_Inflight = []\<rparr>"

definition begins :: "boot \<Rightarrow> 'b process \<Rightarrow> 'db world \<Rightarrow> ('db, 'b) program" where
  "begins b p w =
     \<lparr>pg_store = pr_store p, pg_cats = bt_cats b, pg_reloaded = False,
      pg_state = \<lparr>st_world = w, st_limits = pr_limits p, st_metrics = no_metrics\<rparr>,
      pg_streams = idle\<lparr>sy_hub := pr_hub p\<rparr>\<rparr>"

text \<open>What the handlers of a request are made with.\<close>

definition environment ::
    "('db, 'b) env \<Rightarrow> 'b process \<Rightarrow> SchemaStore \<Rightarrow> string \<Rightarrow> string option \<Rightarrow> string \<Rightarrow> nat \<Rightarrow> nat \<Rightarrow> ('db, 'b) env" where
  "environment en p store uuid ping clientIP now duration =
     en\<lparr>en_store := store, en_cfg := pr_cfg p, en_schemas := Schemas (pr_cfg p), en_uuid := uuid, en_ping := ping,
        en_clientIP := clientIP, en_now := now, en_duration := duration\<rparr>"

text \<open>The routes of transactions are registered only when there is a manager.\<close>

definition routed :: "'b process \<Rightarrow> route \<Rightarrow> bool" where
  "routed p r \<longleftrightarrow> r \<in> {TxStart, TxList, TxGet, TxCommit, TxRollback} \<longrightarrow> pr_manager p \<noteq> None"

definition sweep :: "string option \<Rightarrow> nat \<Rightarrow> 'b LimiterManager \<Rightarrow> 'b LimiterManager" where
  "sweep table now m =
     (case table of
        None \<Rightarrow> m\<lparr>lm_global := map_option (limiter_cleanup now) (lm_global m)\<rparr>
      | Some t \<Rightarrow> m\<lparr>lm_tables := map (\<lambda>(k, l). (k, if k = t then limiter_cleanup now l else l)) (lm_tables m)\<rparr>)"

text \<open>The channels on which notifications arrive.\<close>

definition heard :: "(string \<Rightarrow> string option) \<Rightarrow> 'b process \<Rightarrow> string set" where
  "heard listens p = (if listening listens (pr_listener p) then set (channels (pr_listener p)) else {})"

inductive program_step ::
    "('db, 'b) env \<Rightarrow> (string \<Rightarrow> string option) \<Rightarrow> (Watcher.event \<Rightarrow> bool) \<Rightarrow> 'b process \<Rightarrow>
     ('db, 'b) program \<Rightarrow> ('db, 'b) program \<Rightarrow> bool"
  for en listens execs p where
  pg_request: "routed p r \<Longrightarrow>
    program_step en listens execs p s
      (s\<lparr>pg_state := snd (serve (environment en p (pg_store s) uuid ping clientIP now duration) r rq (pg_state s))\<rparr>)"
| pg_cleanup: "CleanupTask d \<in> set (pr_tasks p) \<Longrightarrow> pr_manager p = Some ttl \<Longrightarrow>
    program_step en listens execs p s
      (s\<lparr>pg_state := (pg_state s)\<lparr>st_world := snd (cleanup ttl (st_world (pg_state s)))\<rparr>\<rparr>)"
| pg_sweep: "LimiterTask table \<in> set (pr_tasks p) \<Longrightarrow>
    program_step en listens execs p s
      (s\<lparr>pg_state := (pg_state s)\<lparr>st_limits := sweep table now (st_limits (pg_state s))\<rparr>\<rparr>)"
| pg_refresh: "WatcherTask d \<in> set (pr_tasks p) \<Longrightarrow> pr_watcher p = Some w \<Longrightarrow>
    program_step en listens execs p s
      (s\<lparr>pg_store := fst (refresh execs (wa_autoNotify w) (wa_schemas w) cats (pg_store s)),
         pg_cats := cats, pg_reloaded := True\<rparr>)"
| pg_stream: "sse_step (pg_streams s) y \<Longrightarrow>
    (\<And>e. sy_log y = sy_log (pg_streams s) @ [e] \<Longrightarrow> ev_Channel e \<in> heard listens p) \<Longrightarrow>
    program_step en listens execs p s (s\<lparr>pg_streams := y\<rparr>)"
| pg_outside:
    "program_step en listens execs p s
      (s\<lparr>pg_state := (pg_state s)\<lparr>st_world := (st_world (pg_state s))\<lparr>w_now := clock, w_faults := fs, w_db := db\<rparr>\<rparr>\<rparr>)"

inductive_cases program_step_elim: "program_step en listens execs p s s'"

section \<open>Invariants\<close>

lemma program_step_traced:
  "program_step en listens execs p s s' \<Longrightarrow>
   (step (en_target en))\<^sup>*\<^sup>* (st_world (pg_state s)) (st_world (pg_state s'))"
proof (induction rule: program_step.induct)
  case (pg_request r s uuid ping clientIP now duration rq)
  then show ?case
    using serve_traced [of "environment en p (pg_store s) uuid ping clientIP now duration" "pg_state s" r rq]
    by (simp add: environment_def)
next
  case (pg_cleanup d ttl s)
  then show ?case by (auto intro: step_Cleanup)
next
  case (pg_outside s db fs clock)
  let ?w = "st_world (pg_state s)"
  have "(step (en_target en))\<^sup>*\<^sup>* ?w (?w\<lparr>w_now := clock, w_faults := fs, w_db := db\<rparr>)"
    by (rule rtranclp.rtrancl_into_rtrancl [OF rtranclp.rtrancl_into_rtrancl [OF r_into_rtranclp]])
      (rule step_Clock step_Faults step_Others)+
  then show ?case by simp
qed simp_all

lemma program_run_traced:
  "(program_step en listens execs p)\<^sup>*\<^sup>* s s' \<Longrightarrow>
   (step (en_target en))\<^sup>*\<^sup>* (st_world (pg_state s)) (st_world (pg_state s'))"
  by (induction rule: rtranclp.induct) (auto dest: program_step_traced)

text \<open>The store holds what the catalogues that were read last say.\<close>

definition stamped :: "('db, 'b) program \<Rightarrow> string \<Rightarrow> Table \<Rightarrow> Table" where
  "stamped s sn t = (if pg_reloaded s then t else t\<lparr>tbl_SchemaName := sn\<rparr>)"

definition store_current :: "string list \<Rightarrow> ('db, 'b) program \<Rightarrow> bool" where
  "store_current schemas s \<longleftrightarrow>
     store_ok (pg_store s) \<and>
     (\<forall>sn n. sn \<noteq> [] \<longrightarrow> GetTable (pg_store s) sn n =
       (if sn \<in> set (map TrimSpace schemas)
        then map_option (stamped s sn) (Option.bind (schema_tables (pg_cats s) sn) (\<lambda>ts. map_of ts n)) else None))"

lemma startup_store_ok: "startup cats schemas = Ok st \<Longrightarrow> store_ok st"
proof -
  have load: "store_ok store' \<Longrightarrow> loadSchema cats s store' = Ok store'' \<Longrightarrow> store_ok store''" for s store' store''
    by (cases "IntrospectFunctions (cats (TrimSpace s)) (TrimSpace s)")
      (auto simp: loadSchema_def Let_def obind_Ok_iff intro!: tables.ok_add_all funcs.ok_add_all)
  have "store_ok store' \<Longrightarrow> loadSchemas cats ss store' = Ok st \<Longrightarrow> store_ok st" for ss store'
    by (induction ss arbitrary: store') (auto simp: obind_Ok_iff dest: load)
  moreover have "store_ok (NewSchemaStore d)" for d by (simp add: NewSchemaStore_def store_ok_def)
  ultimately show "startup cats schemas = Ok st \<Longrightarrow> store_ok st" unfolding startup_def by blast
qed

lemma store_current_begins:
  assumes "started b cfg p"
  shows "store_current (Schemas cfg) (begins b p w)"
proof -
  have "startup (bt_cats b) (Schemas cfg) = Ok (pr_store p)" using assms by (simp add: started_def)
  from startup_lookup [OF this] startup_store_ok [OF this] show ?thesis
    by (auto simp: store_current_def begins_def stamped_def [abs_def])
qed

lemma store_current_step:
  assumes "program_step en listens execs p s s'" "started b cfg p" "store_current (Schemas cfg) s"
    and "map trimSpace (Schemas cfg) = map TrimSpace (Schemas cfg)"
  shows "store_current (Schemas cfg) s'"
  using assms(1)
proof cases
  case (pg_refresh d w cats)
  have "wa_schemas w = Schemas cfg"
    using pg_refresh(3) assms(2) by (auto simp: started_def startWatcher_def NewWatcher_def split: if_splits)
  then show ?thesis
    using refreshMaps_keys [of cats "Schemas cfg"]
    by (auto simp: store_current_def pg_refresh(1) stamped_def [abs_def] GetTable_maps ss_refresh refreshMaps_tables assms(4) store_ok_def
        option.map_ident simp del: set_map)
qed (use assms(3) in \<open>simp_all add: store_current_def stamped_def [abs_def]\<close>)

lemma store_current_run:
  assumes "(program_step en listens execs p)\<^sup>*\<^sup>* (begins b p w) s" "started b cfg p"
    and "map trimSpace (Schemas cfg) = map TrimSpace (Schemas cfg)"
  shows "store_current (Schemas cfg) s"
  using assms(1)
  by (induction rule: rtranclp_induct) (blast intro: store_current_begins [OF assms(2)] store_current_step [OF _ assms(2) _ assms(3)])+

text \<open>Only what is listened to is broadcast.\<close>

definition streams_ok :: "string set \<Rightarrow> system \<Rightarrow> bool" where
  "streams_ok chs y \<longleftrightarrow> sse_step\<^sup>*\<^sup>* idle y \<and> (\<forall>e \<in> set (sy_log y). ev_Channel e \<in> chs)"

lemma streams_ok_run:
  assumes "(program_step en listens execs p)\<^sup>*\<^sup>* (begins b p w) s" "pr_hub p = NewHub"
  shows "streams_ok (heard listens p) (pg_streams s)"
  using assms(1)
proof (induction rule: rtranclp_induct)
  case base
  then show ?case by (simp add: streams_ok_def begins_def idle_def assms(2))
next
  case (step s s')
  from step(2) show ?case
  proof cases
    case (pg_stream y)
    then have "sy_log y = sy_log (pg_streams s) \<or> (\<exists>e. sy_log y = sy_log (pg_streams s) @ [e])"
      using sse_step_log by blast
    then show ?thesis
      using step(3) pg_stream by (auto simp: streams_ok_def intro: rtranclp.rtrancl_into_rtrancl)
  qed (use step(3) in simp_all)
qed

section \<open>Opening a stream\<close>

text \<open>
  \<^verbatim>\<open>HandleSSE\<close> up to its loop: the response as it is when the loop begins and the client, or the response
  of a writer that cannot flush; the deferred \<^verbatim>\<open>Unsubscribe\<close> runs then.
\<close>

definition HandleSSE :: "bool \<Rightarrow> request \<Rightarrow> Hub \<Rightarrow> response \<times> nat option \<times> Hub" where
  "HandleSSE flushes rq hub =
     (let channel = sseChannel (Param rq ''schema'') (Param rq ''table'');
          (client, hub1) = Subscribe channel hub;
          rs = set_header ''X-Accel-Buffering'' ''no'' (set_header ''Connection'' ''keep-alive''
                 (set_header ''Cache-Control'' ''no-cache'' (set_header ''Content-Type'' ''text/event-stream'' new_response)))
      in if \<not> flushes
         then (c_JSON 500 (obj_text [(''error'', ''streaming not supported'')]) rs, None, Unsubscribe channel client hub1)
         else (c_Status 200 (rs\<lparr>rs_Body := Text (sseConnected channel)\<rparr>), Some client, hub1))"

text \<open>All that a client has been sent.\<close>

definition sseOutput :: "string \<Rightarrow> stream \<Rightarrow> string" where
  "sseOutput tableName st = sseConnected (st_channel st) @ concat (map (sseText tableName) (st_out st))"

text \<open>A stream that opens is the subscription of the relation; one that does not leaves no client behind.\<close>

lemma HandleSSE_opens:
  assumes "HandleSSE flushes rq (sy_hub y) = (rs, client, hub)" "hub_ok chan (sy_hub y)"
  shows "if flushes
    then (\<exists>c. client = Some c \<and> sy_hub (do_subscribe (sseChannel (Param rq ''schema'') (Param rq ''table'')) y) = hub \<and>
      rs_Body rs = Text (sseOutput (Param rq ''table'')
        (sy_streams (do_subscribe (sseChannel (Param rq ''schema'') (Param rq ''table'')) y) c)))
    else client = None \<and> failed rs \<and> (\<forall>k. members hub k = members (sy_hub y) k)"
proof -
  let ?ch = "sseChannel (Param rq ''schema'') (Param rq ''table'')"
  have "hub_next (sy_hub y) \<notin> set (members (sy_hub y) ?ch)"
    using hub_okD(3) [OF assms(2)] by blast
  then have "members (Unsubscribe ?ch (hub_next (sy_hub y)) (snd (Subscribe ?ch (sy_hub y)))) k = members (sy_hub y) k" for k
    by (simp add: members_Unsubscribe members_Subscribe)
  moreover have "fst (Subscribe ?ch (sy_hub y)) = hub_next (sy_hub y)" by (simp add: Subscribe_def Let_def)
  ultimately show ?thesis
    using assms(1)
    by (cases "Subscribe ?ch (sy_hub y)") (auto simp: HandleSSE_def do_subscribe_def sseOutput_def failed_def Let_def)
qed

lemma notify_channel: "notifyChannel s t = channelName s t"
  by (simp add: notifyChannel_def channelName_def)

section \<open>Properties\<close>

text \<open>A server that finds the table \<^verbatim>\<open>app.posts\<close>, and one that finds an empty schema.\<close>

abbreviation empty_catalog :: catalog where
  "empty_catalog \<equiv> \<lparr>cat_columns = Inr ([], None), cat_viewColumns = Inr ([], None), cat_primaryKeys = Inr ([], None),
     cat_foreignKeys = Inr ([], None), cat_uniques = Inr ([], None), cat_comments = Inr ([], None), cat_functions = Inr ([], None)\<rparr>"

definition late_boot :: boot where
  "late_boot = sample_boot\<lparr>bt_cats := (\<lambda>_. empty_catalog)\<rparr>"

lemma sample_tables:
  "schema_tables (\<lambda>_. sample_catalog) s = Some [(''posts'', posts_introspected)]" "schema_tables (\<lambda>_. empty_catalog) s = Some []"
proof -
  have "Introspect sample_catalog = Ok [(''posts'', posts_introspected)]" "Introspect empty_catalog = Ok []" by code_simp+
  then show "schema_tables (\<lambda>_. sample_catalog) s = Some [(''posts'', posts_introspected)]"
    "schema_tables (\<lambda>_. empty_catalog) s = Some []" by (simp_all add: schema_tables_def)
qed

lemma sample_starts:
  "\<exists>p. (main_start sample_boot sample_config :: 'b process outcome) = Ok p"
  "\<exists>p. (main_start late_boot sample_config :: 'b process outcome) = Ok p"
proof -
  have cats: "bt_cats sample_boot = (\<lambda>_. sample_catalog)" "bt_cats late_boot = (\<lambda>_. empty_catalog)"
    and rest: "bt_open late_boot = bt_open sample_boot" "bt_ping late_boot = bt_ping sample_boot" "bt_execs late_boot = bt_execs sample_boot"
    "bt_open sample_boot (DSN sample_config) = None" "bt_ping sample_boot 2 = None" "bt_execs sample_boot migrationSQL = None"
    by (simp_all add: late_boot_def sample_boot_def)
  show "\<exists>p. (main_start sample_boot sample_config :: 'b process outcome) = Ok p"
    "\<exists>p. (main_start late_boot sample_config :: 'b process outcome) = Ok p"
    by (simp_all only: main_start_iff main_connect_iff main_load_iff startManager_Ok_iff startup_def loadSchemas_iff cats sample_tables rest)
      (auto intro!: bexI [of _ 2] simp: rest)
qed

lemma sample_config_sels:
  "Schemas sample_config = [''app'', '' app'']" "map TrimSpace [''app'', '' app''] = [''app'', ''app'']"
  "map trimSpace [''app'', '' app''] = [''app'', ''app'']" "hr_Enabled (cfg_HotReload sample_config)"
  "wa_schemas (NewWatcher schemas interval auto) = schemas" "wa_autoNotify (NewWatcher schemas interval auto) = auto"
  by (simp_all add: sample_config_def Schemas_def TrimSpace_def trim_with_def is_space_def trimSpace_def NewWatcher_def)

lemma sample_watcher:
  assumes "started b sample_config p"
  shows "\<exists>d w. WatcherTask d \<in> set (pr_tasks p) \<and> pr_watcher p = Some w \<and> wa_schemas w = [''app'', '' app'']"
  using assms by (auto simp: started_def startWatcher_def sample_config_sels)

definition no_transactions :: "(string \<times> val list) list world" where
  "no_transactions = \<lparr>w_txs = [], w_ops = [], w_nextOp = 1, w_db = [], w_now = 100, w_faults = []\<rparr>"

text \<open>
  C10. Whatever requests the server answers, in whatever order, with the cleanups, refreshes and streams
  in between: what happens to the transactions is a history of the manager's operations and of
  changes by others, so that what is proved of these histories holds of the running server; if the
  metadata tables are empty at the start, the metadata are well formed in every state of the run.
\<close>

theorem program_metadata:
  assumes "(program_step en listens execs p)\<^sup>*\<^sup>* (begins b p w) s"
  shows "(step (en_target en))\<^sup>*\<^sup>* w (st_world (pg_state s)) \<and>
    (initial w \<longrightarrow> meta_ok (st_world (pg_state s)))"
proof -
  have "(step (en_target en))\<^sup>*\<^sup>* w (st_world (pg_state s))"
    using program_run_traced [OF assms] by (simp add: begins_def)
  then show ?thesis by (blast intro: reachable_meta initial_meta)
qed

theorem program_metadata_witness:
  "\<exists>p. main_start sample_boot sample_config = Ok p \<and>
     meta_ok (st_world (snd (serve (environment demo_env p (pr_store p) ''t9'' None ''10.0.0.1'' 5 1) TxStart
       (blog_request ''POST'' [] []) (pg_state (begins sample_boot p no_transactions)))))"
proof -
  obtain p where p: "main_start sample_boot sample_config = Ok (p :: (nat \<times> nat) process)" using sample_starts(1) by blast
  let ?first = "begins sample_boot p no_transactions"
  let ?last = "?first\<lparr>pg_state := snd (serve (environment demo_env p (pg_store ?first) ''t9'' None ''10.0.0.1'' 5 1) TxStart
      (blog_request ''POST'' [] []) (pg_state ?first))\<rparr>"
  have "routed p TxStart" using main_start_started [OF p] by (simp add: routed_def started_def sample_config_def)
  then have "program_step demo_env (\<lambda>_. None) (\<lambda>_. True) p ?first ?last" by (rule pg_request)
  moreover have "initial no_transactions" by (simp add: initial_def no_transactions_def)
  ultimately have "meta_ok (st_world (pg_state ?last))" using program_metadata [OF r_into_rtranclp] by blast
  moreover have "pg_store ?first = pr_store p" by (simp add: begins_def)
  ultimately show ?thesis using p by auto
qed

text \<open>
  C11. The store follows the catalogue.  In every state of a run, a lookup under a schema finds exactly
  the tables of the catalogue of that schema that was read last, at the start or by a refresh, if the
  schema is configured, and nothing otherwise; the store keeps the invariant the handlers rely on.
  Until the first refresh a table is named with its schema in statements, afterwards by its bare name.
\<close>

theorem program_catalogue:
  assumes "main_start b cfg = Ok p" "(program_step en listens execs p)\<^sup>*\<^sup>* (begins b p w) s"
    and "map trimSpace (Schemas cfg) = map TrimSpace (Schemas cfg)" "sn \<noteq> []"
  shows "(GetTable (pg_store s) sn n \<noteq> None \<longleftrightarrow>
      sn \<in> set (map TrimSpace (Schemas cfg)) \<and>
      (\<exists>ts. schema_tables (pg_cats s) sn = Some ts \<and> n \<in> fst ` set ts)) \<and>
    store_ok (pg_store s) \<and>
    (case GetTable (pg_store s) sn n of None \<Rightarrow> True
     | Some t \<Rightarrow> QualifiedName t = (if pg_reloaded s \<or> sn = ''public'' then n else sn @ ''.'' @ n))"
proof -
  have c: "store_current (Schemas cfg) s"
    by (rule store_current_run [OF assms(2) main_start_started [OF assms(1)] assms(3)])
  show ?thesis
  proof (cases "sn \<in> set (map TrimSpace (Schemas cfg))")
    case True
    then have g: "GetTable (pg_store s) sn n =
        map_option (stamped s sn) (Option.bind (schema_tables (pg_cats s) sn) (\<lambda>ts. map_of ts n))"
      using c assms(4) by (simp add: store_current_def del: set_map)
    show ?thesis
    proof (cases "Option.bind (schema_tables (pg_cats s) sn) (\<lambda>ts. map_of ts n)")
      case None
      then have "\<not> (\<exists>ts. schema_tables (pg_cats s) sn = Some ts \<and> n \<in> fst ` set ts)"
        by (cases "schema_tables (pg_cats s) sn") (simp_all add: map_of_eq_None_iff)
      then show ?thesis using c g None by (simp add: store_current_def)
    next
      case (Some t)
      then obtain ts where ts: "schema_tables (pg_cats s) sn = Some ts" "map_of ts n = Some t"
        by (auto simp: Option.bind_eq_Some_conv)
      have "n \<in> fst ` set ts" using map_of_SomeD [OF ts(2)] by force
      then show ?thesis
        using c True g Some ts schema_tables_lookup [OF ts] assms(4)
        by (auto simp: store_current_def QualifiedName_def stamped_def simp del: set_map)
    qed
  next
    case False
    then show ?thesis using c assms(4) by (simp add: store_current_def del: set_map)
  qed
qed

theorem program_catalogue_witness:
  "\<exists>p. main_start sample_boot sample_config = Ok (p :: (nat \<times> nat) process) \<and>
     (\<exists>t. GetTable (pr_store p) ''app'' ''posts'' = Some t \<and> QualifiedName t = ''app.posts'') \<and>
     (\<exists>t auto. GetTable (fst (refresh (\<lambda>_. True) auto [''app'', '' app''] (\<lambda>_. sample_catalog) (pr_store p))) ''app'' ''posts'' = Some t \<and>
        QualifiedName t = ''posts'')"
proof -
  obtain p where p: "main_start sample_boot sample_config = Ok (p :: (nat \<times> nat) process)" using sample_starts(1) by blast
  obtain d w where w: "WatcherTask d \<in> set (pr_tasks p)" "pr_watcher p = Some w" "wa_schemas w = [''app'', '' app'']"
    using sample_watcher [OF main_start_started [OF p]] by blast
  let ?first = "begins sample_boot p no_transactions"
  let ?last = "?first\<lparr>pg_store := fst (refresh (\<lambda>_. True) (wa_autoNotify w) (wa_schemas w) (\<lambda>_. sample_catalog) (pg_store ?first)),
         pg_cats := \<lambda>_. sample_catalog, pg_reloaded := True\<rparr>"
  have step: "program_step demo_env (\<lambda>_. None) (\<lambda>_. True) p ?first ?last" by (rule pg_refresh [OF w(1,2)])
  have run: "(program_step demo_env (\<lambda>_. None) (\<lambda>_. True) p)\<^sup>*\<^sup>* ?first ?last" using step by (rule r_into_rtranclp)
  have trim: "map trimSpace (Schemas sample_config) = map TrimSpace (Schemas sample_config)" by (simp add: sample_config_sels del: list.map)
  have cats: "pg_cats ?first = (\<lambda>_. sample_catalog)" "pg_store ?first = pr_store p" "\<not> pg_reloaded ?first"
    by (simp_all add: begins_def sample_boot_def)
  note at0 = program_catalogue [OF p rtranclp.rtrancl_refl trim, where sn = "''app''" and n = "''posts''" and w = no_transactions]
  note at1 = program_catalogue [OF p run trim, of "''app''" "''posts''"]
  have "\<exists>t. GetTable (pr_store p) ''app'' ''posts'' = Some t \<and> QualifiedName t = ''app.posts''"
    using at0 by (auto simp: cats sample_tables sample_config_sels simp del: list.map split: option.splits)
  moreover have "\<exists>t. GetTable (pg_store ?last) ''app'' ''posts'' = Some t \<and> QualifiedName t = ''posts''"
    using at1 by (auto simp: sample_tables sample_config_sels simp del: list.map split: option.splits)
  ultimately show ?thesis using p w(3) cats(2) by auto
qed

text \<open>
  C12. What is streamed.  In every state of a run, what a client has been sent are events of its
  channel, in order and without gaps since it subscribed; and there are such events only if the
  channel is the one a trigger notifies for a table that was there at the start, of a schema that is
  configured without surrounding spaces, and the listener could listen on all channels.  So a table
  that a refresh finds later is served and gets its trigger, but its changes reach no client.
\<close>

theorem program_streams:
  assumes "main_start b cfg = Ok p" "(program_step en listens execs p)\<^sup>*\<^sup>* (begins b p w) s"
    and "[] \<notin> set (Schemas cfg)" "c < hub_next (sy_hub (pg_streams s))"
  shows "let y = pg_streams s; st = sy_streams y c in
    prefix (st_out st) (filter (\<lambda>e. ev_Channel e = st_channel st) (drop (st_from st) (sy_log y))) \<and>
    (st_out st \<noteq> [] \<longrightarrow> listening listens (pr_listener p) \<and>
       (\<exists>sn t. st_channel st = notifyChannel sn t \<and> sn \<in> set (Schemas cfg) \<and> sn \<in> set (map TrimSpace (Schemas cfg)) \<and>
          t \<in> fst ` set (the (schema_tables (bt_cats b) sn))))"
proof -
  let ?y = "pg_streams s"
  let ?st = "sy_streams ?y c"
  have p: "started b cfg p" by (rule main_start_started [OF assms(1)])
  then have "streams_ok (heard listens p) ?y" using streams_ok_run [OF assms(2)] by (simp add: started_def)
  then have y: "sse_step\<^sup>*\<^sup>* idle ?y" "\<forall>e \<in> set (sy_log ?y). ev_Channel e \<in> heard listens p"
    by (simp_all add: streams_ok_def)
  have out: "prefix (st_out ?st) (filter (\<lambda>e. ev_Channel e = st_channel ?st) (drop (st_from ?st) (sy_log ?y)))"
    using written_due [OF y(1) assms(4)] by (simp add: due_def)
  have "st_channel ?st \<in> heard listens p" if sent: "st_out ?st \<noteq> []"
  proof -
    have "hd (st_out ?st) \<in> set (filter (\<lambda>e. ev_Channel e = st_channel ?st) (drop (st_from ?st) (sy_log ?y)))"
      using hd_in_set [OF sent] set_mono_prefix [OF out] by blast
    then show ?thesis using y(2) set_drop_subset by fastforce
  qed
  then have "st_out ?st \<noteq> [] \<longrightarrow> listening listens (pr_listener p) \<and> st_channel ?st \<in> set (channels (pr_listener p))"
    by (cases "listening listens (pr_listener p)") (auto simp: heard_def)
  with out show ?thesis
    using startup_channels [OF p assms(3)] by (simp add: Let_def notify_channel del: set_map)
qed

theorem program_streams_witness:
  "\<exists>p s. main_start late_boot sample_config = Ok (p :: (nat \<times> nat) process) \<and>
     (program_step demo_env (\<lambda>_. None) (\<lambda>_. True) p)\<^sup>*\<^sup>* (begins late_boot p no_transactions) s \<and>
     GetTable (pg_store s) ''app'' ''posts'' \<noteq> None \<and>
     st_channel (sy_streams (pg_streams s) 0) = sseChannel ''app'' ''posts'' \<and> st_out (sy_streams (pg_streams s) 0) = []"
proof -
  obtain p where p: "main_start late_boot sample_config = Ok (p :: (nat \<times> nat) process)" using sample_starts(2) by blast
  obtain d w where w: "WatcherTask d \<in> set (pr_tasks p)" "pr_watcher p = Some w" "wa_schemas w = [''app'', '' app'']"
    using sample_watcher [OF main_start_started [OF p]] by blast
  let ?first = "begins late_boot p no_transactions"
  let ?loaded = "?first\<lparr>pg_store := fst (refresh (\<lambda>_. True) (wa_autoNotify w) (wa_schemas w) (\<lambda>_. sample_catalog) (pg_store ?first)),
         pg_cats := \<lambda>_. sample_catalog, pg_reloaded := True\<rparr>"
  let ?last = "?loaded\<lparr>pg_streams := do_subscribe (sseChannel ''app'' ''posts'') (pg_streams ?loaded)\<rparr>"
  have "program_step demo_env (\<lambda>_. None) (\<lambda>_. True) p ?first ?loaded" by (rule pg_refresh [OF w(1,2)])
  moreover have "program_step demo_env (\<lambda>_. None) (\<lambda>_. True) p ?loaded ?last"
    by (rule pg_stream [OF sse_subscribe]) (simp add: do_subscribe_def Let_def Subscribe_def)
  ultimately have run: "(program_step demo_env (\<lambda>_. None) (\<lambda>_. True) p)\<^sup>*\<^sup>* ?first ?last"
    by (rule rtranclp.rtrancl_into_rtrancl [OF r_into_rtranclp])
  have hub: "pr_hub p = NewHub" using main_start_started [OF p] by (simp add: started_def)
  have new: "0 < hub_next (sy_hub (pg_streams ?last))" "st_channel (sy_streams (pg_streams ?last) 0) = sseChannel ''app'' ''posts''"
    by (simp_all add: begins_def hub idle_def do_subscribe_def Subscribe_def NewHub_def Let_def)
  have none: "schema_tables (bt_cats late_boot) sn = Some []" for sn by (simp add: late_boot_def sample_tables)
  have "[] \<notin> set (Schemas sample_config)" by (simp add: sample_config_sels)
  from program_streams [OF p run this new(1)] have "st_out (sy_streams (pg_streams ?last) 0) = []"
    unfolding Let_def none by simp
  moreover have "GetTable (pg_store ?last) ''app'' ''posts'' \<noteq> None"
    using refreshMaps_tables [of "\<lambda>_. sample_catalog" "[''app'', '' app'']" "''app''"]
    by (simp add: w(3) GetTable_maps ss_refresh sample_tables sample_config_sels del: list.map)
  ultimately show ?thesis using p run new(2) by blast
qed

end
