(* ===== verification/Spec2Isabelle.thy ===== *)
theory Spec2Isabelle
  imports Program
begin

text \<open>
  rest-trans is a server that turns the tables, views and functions of a PostgreSQL database into a
  REST interface.  It reads the catalogue at startup, keeps what it found in a schema store, writes
  one SQL statement for each request, and can hold back writes in transactions of its own until
  they are committed.  This library models the server and proves what its parts promise.

  \<^bold>\<open>The parts and how they interact.\<close>  A request goes through the chain of \<^verbatim>\<open>internal/api/router.go\<close>:
  metrics, CORS headers, rate limit, method guard, transaction middleware, then the handler of its
  route.  A table handler looks the table up in the store, reads the query string into parameters,
  has the builder write a statement with its arguments, executes it and writes the rows or the
  count.  With the transaction header, a write is not executed: the middleware stages it, and a
  later commit applies what was staged.  Triggers of the database notify the listener, which
  hands the events to the hub, and the hub to the clients that stream them.  The watcher replaces
  the store at intervals.

  \<^bold>\<open>The theories\<close>, from the bottom up, with the files under \<^verbatim>\<open>src/\<close> they follow:
  \<^item> \<open>Prelude\<close>, \<open>Strconv\<close>, \<open>GoValue\<close>: lists, association lists, the results of fallible code (\<open>outcome\<close>:
    a value, an error or a panic), and the parts of Go's \<^verbatim>\<open>strings\<close> and \<^verbatim>\<open>strconv\<close> the program uses;
    JSON values and how Go prints them.  A string is a list of bytes; changing case and trimming
    act on ASCII.
  \<^item> \<open>Schema\<close> (\<^verbatim>\<open>internal/schema/schema.go\<close>): tables, columns, functions, the store and its operations.
  \<^item> \<open>Introspect\<close> (\<^verbatim>\<open>introspect.go\<close>, \<^verbatim>\<open>functions.go\<close>): from the rows of the catalogue to tables and functions.
  \<^item> \<open>Watcher\<close> (\<^verbatim>\<open>watcher.go\<close>, \<^verbatim>\<open>cmd/rest-trans/main.go\<close>): loading at startup, refresh, triggers, ping retries.
  \<^item> \<open>Config\<close> (\<^verbatim>\<open>internal/config/config.go\<close>): the configuration, what is asked of it, and what \<^verbatim>\<open>Load\<close> tells \<^verbatim>\<open>viper\<close>.
  \<^item> \<open>Params\<close> (\<^verbatim>\<open>internal/query/params.go\<close>): from a query string to \<open>Params\<close>, an error, or a panic.
  \<^item> \<open>Builder\<close>, \<open>Statements\<close> (\<^verbatim>\<open>internal/query/builder.go\<close>): from \<open>Params\<close> to SQL text and arguments; the
    meaning of conditions in three-valued logic.
  \<^item> \<open>Http\<close>, \<open>Response\<close> (\<^verbatim>\<open>internal/error\<close>, \<^verbatim>\<open>internal/response\<close>): requests, responses, API errors, and the
    writers of rows, CSV, counts and ranges.
  \<^item> \<open>Handlers\<close> (\<^verbatim>\<open>internal/api/handler.go\<close>) and \<open>Rpc\<close> (\<^verbatim>\<open>internal/rpc/handler.go\<close>): the handlers.
  \<^item> \<open>TxManager\<close>, \<open>TxLife\<close> (\<^verbatim>\<open>internal/transaction/manager.go\<close>, \<^verbatim>\<open>types.go\<close>): the operations of the
    manager, call by call, and their histories; \<open>TxSpec\<close>: an abstract machine of deferred effects, and
    the manager as its implementation; \<open>TxRace\<close>: operations that overlap.
  \<^item> \<open>Migration\<close> (\<^verbatim>\<open>internal/transaction/migration.go\<close>): the scripts and their execution.
  \<^item> \<open>Staging\<close> (\<^verbatim>\<open>internal/transaction/middleware.go\<close>, \<^verbatim>\<open>handler.go\<close>): the middleware and the routes.
  \<^item> \<open>Hub\<close> (\<^verbatim>\<open>internal/notification\<close>, \<^verbatim>\<open>internal/api/sse.go\<close>): hub, listener and streams.
  \<^item> \<open>RateLimit\<close> (\<^verbatim>\<open>internal/ratelimit\<close>), \<open>OpenApi\<close> (\<^verbatim>\<open>internal/openapi\<close>).
  \<^item> \<open>Router\<close> (\<^verbatim>\<open>internal/api/router.go\<close>, \<^verbatim>\<open>internal/metrics/middleware.go\<close>): the chain, from a request and a
    state to a response and a state.
  \<^item> \<open>Startup\<close> (\<^verbatim>\<open>cmd/rest-trans/main.go\<close>, \<^verbatim>\<open>listener.go\<close>): from the configuration to the process that serves, its
    goroutines, the loop of the listener, the shutdown.
  \<^item> \<open>Program\<close>: the running program, one relation over store, transactions, limits and streams.

  A definition has the name of the Go function it models, and a record or datatype that of the Go
  type; fields carry a short prefix.  A part of a long function is a definition of its own, with
  its place in the comment before it.

  \<^bold>\<open>State and effects.\<close>  A map is an association list with distinct keys.  Where the code ranges over
  a map, the order is an argument (or the property is stated for every order).  A table handler
  passes the database along; the database is a parameter (\<open>server\<close>) whose calls give a new state or
  an error.  The manager runs in a small state monad over \<open>world\<close>, which holds the two metadata
  tables, the target and a script of failures, one entry for each call to the database, so that
  every error path is a branch of the model.  The hub with its clients is a step relation, and so is
  the program as a whole.  Two operations of the manager overlap in \<open>TxRace\<close>, at the point between
  the check of the status and the work: an operation is its check followed by its body there.

  \<^bold>\<open>What the lemmas show.\<close>
  \<^item> Queries: validation of columns, independence of Go's map order, reading back what was written;
    placeholders match arguments; values never reach the text; the condition means what the
    request says.
  \<^item> Handlers: each either refuses with an error status and no effect, or executes exactly the
    statement of the builder, with the limit and the scope of the request.
  \<^item> Transactions: the metadata stay well formed in every history, statuses only go forward, commit
    and rollback are all-or-nothing up to the failures stated, in the order of staging; a staged
    write has no effect before its commit and then the effect of the operations it asked for.  Without
    failures the operations are those of the abstract machine, with failures they differ from it in
    two places; operations that do not overlap on a transaction can be taken one after the other, and
    two that do overlap can apply the same effects twice.
  \<^item> Catalogue: introspection keeps the invariant of the store, a refresh replaces it.
  \<^item> Streams: a client gets, without gaps, the events of its channel since it subscribed.
  \<^item> Limits, guard and documents: the limiter isolates clients; guard, CORS headers and OpenAPI document
    agree on what is allowed; what the guard refuses has no effect, and reading methods write nothing.
  \<^item> Program: when the start gets to serving; in every run the transactions go through a history of the
    manager, the store holds the catalogue that was read last, and streams carry the events of the
    tables that were there at the start.

  \<^bold>\<open>Interfaces.\<close>  The locales state what one part relies on in another: a store keyed by schema and
  name, a policy for methods, a way to split at top-level commas, and others, each interpreted on
  the definitions of the part that provides it.

  \<^bold>\<open>Bounds and loops.\<close>  Recursion follows the data (the bytes of a text, the pairs of a query, the staged
  operations, the attempts left); no fuel is used.  Go's \<^verbatim>\<open>int\<close> has 64 bits: where a result can leave
  the range (\<^verbatim>\<open>Atoi\<close>, the \<^verbatim>\<open>Range\<close> header) the check or the wrap-around is written out.

  \<^bold>\<open>Not modelled.\<close>  PostgreSQL itself, beyond the meaning of conditions: the texts of the catalogue queries, and
  what the scripts of \<open>Migration\<close> do, except for the channel a trigger notifies; viper's merge of its
  sources, \<^verbatim>\<open>gin\<close>'s matching of paths, \<^verbatim>\<open>encoding/json\<close> beyond what the code fixes, and the token bucket of
  \<^verbatim>\<open>x/time/rate\<close>, which are parameters; interleavings of the manager finer than those of \<open>TxRace\<close>, which
  depend on the locks of PostgreSQL, and the goroutines' mutexes, whose sections are single steps; the
  declarations of metrics, the log lines, the static pages of \<^verbatim>\<open>internal/docs\<close> and \<^verbatim>\<open>internal/ihm\<close>, the
  connection handling of \<^verbatim>\<open>net/http\<close>, and the test harness.
\<close>

end
